(* ===== verification/Arfw_Prelude.thy ===== *)
theory Arfw_Prelude
  imports Main "HOL-Library.Word"
begin

text \<open>
  What every component shares: the outcome of a Rust computation, the names of the machine
  integers, \<open>usize\<close> arithmetic, checked slicing, the text of error messages, and the
  collections of lemmas that the component theories use.

  Overflow is modelled as the release profile of the crate has it (\<open>Cargo.toml\<close> sets no
  \<open>overflow-checks\<close>): \<open>+\<close>, \<open>-\<close> and \<open>*\<close> wrap. \<open>usize\<close> is 64 bits wide, as on the only
  targets the program is built for.
\<close>

named_theorems outcome_iffs \<open>when a sequenced outcome has a given form\<close>
named_theorems no_panic_intros \<open>introduction rules: this computation does not panic\<close>

section \<open>Outcomes\<close>

text \<open>
  A fallible Rust function returns \<open>Ok v\<close> or \<open>Err e\<close>; it may also panic (a slice or an index
  out of range, \<open>unreachable!()\<close>). \<open>NoFuel\<close> is not a Rust value: a recursive function of the
  model returns it when the recursion is deeper than the fuel it was given.
\<close>

datatype ('e, 'a) outcome = Ok 'a | Err 'e | Panic | NoFuel

fun and_then :: "('e, 'a) outcome \<Rightarrow> ('a \<Rightarrow> ('e, 'b) outcome) \<Rightarrow> ('e, 'b) outcome" where
  "and_then (Ok x) f = f x"
| "and_then (Err e) f = Err e"
| "and_then Panic f = Panic"
| "and_then NoFuel f = NoFuel"

fun map_err :: "('e \<Rightarrow> 'f) \<Rightarrow> ('e, 'a) outcome \<Rightarrow> ('f, 'a) outcome" where
  "map_err g (Ok x) = Ok x"
| "map_err g (Err e) = Err (g e)"
| "map_err g Panic = Panic"
| "map_err g NoFuel = NoFuel"

definition ok_or :: "'a option \<Rightarrow> 'e \<Rightarrow> ('e, 'a) outcome" where
  "ok_or m e = (case m of Some x \<Rightarrow> Ok x | None \<Rightarrow> Err e)"

text \<open>\<open>match m { Ok(x) => .., Err(_) => .. }\<close>: the error is dropped, a panic is not.\<close>

fun attempt :: "('e, 'a) outcome \<Rightarrow> ('f, 'a option) outcome" where
  "attempt (Ok x) = Ok (Some x)"
| "attempt (Err e) = Ok None"
| "attempt Panic = Panic"
| "attempt NoFuel = NoFuel"

fun is_ok :: "('e, 'a) outcome \<Rightarrow> bool" where
  "is_ok (Ok _) = True"
| "is_ok _ = False"

lemma and_then_eq_Ok [outcome_iffs]:
  "and_then m f = Ok y \<longleftrightarrow> (\<exists>x. m = Ok x \<and> f x = Ok y)"
  by (cases m) auto

lemma and_then_eq_Err [outcome_iffs]:
  "and_then m f = Err e \<longleftrightarrow> m = Err e \<or> (\<exists>x. m = Ok x \<and> f x = Err e)"
  by (cases m) auto

lemma and_then_eq_Panic [outcome_iffs]:
  "and_then m f = Panic \<longleftrightarrow> m = Panic \<or> (\<exists>x. m = Ok x \<and> f x = Panic)"
  by (cases m) auto

lemma and_then_eq_NoFuel [outcome_iffs]:
  "and_then m f = NoFuel \<longleftrightarrow> m = NoFuel \<or> (\<exists>x. m = Ok x \<and> f x = NoFuel)"
  by (cases m) auto

lemma map_err_iffs [outcome_iffs]:
  "map_err g m = Ok x \<longleftrightarrow> m = Ok x"
  "map_err g m = Err e' \<longleftrightarrow> (\<exists>e. m = Err e \<and> e' = g e)"
  "map_err g m = Panic \<longleftrightarrow> m = Panic"
  "map_err g m = NoFuel \<longleftrightarrow> m = NoFuel"
  by (cases m; auto)+

lemma ok_or_iffs [outcome_iffs]:
  "ok_or v e = Ok x \<longleftrightarrow> v = Some x"
  "ok_or v e = Err e' \<longleftrightarrow> v = None \<and> e' = e"
  "ok_or v e \<noteq> Panic" "ok_or v e \<noteq> NoFuel"
  by (auto simp: ok_or_def split: option.splits)

lemma ok_or_simps [simp]: "ok_or (Some x) e = Ok x" "ok_or None e = Err e"
  by (simp_all add: ok_or_def)

lemma attempt_iffs [outcome_iffs]:
  "attempt m = Ok v \<longleftrightarrow> (\<exists>x. m = Ok x \<and> v = Some x) \<or> (\<exists>e. m = Err e \<and> v = None)"
  "attempt m \<noteq> Err e'" "attempt m = Panic \<longleftrightarrow> m = Panic" "attempt m = NoFuel \<longleftrightarrow> m = NoFuel"
  by (cases m; auto)+

lemma and_then_assoc: "and_then (and_then m f) g = and_then m (\<lambda>x. and_then (f x) g)"
  by (cases m) auto

lemma and_then_Ok_right [simp]: "and_then m Ok = m"
  by (cases m) auto

lemma and_then_cong [fundef_cong]:
  "m = m' \<Longrightarrow> (\<And>x. m' = Ok x \<Longrightarrow> f x = f' x) \<Longrightarrow> and_then m f = and_then m' f'"
  by (cases m') auto

text \<open>
  \<open>no_panic m\<close> is \<open>m \<noteq> Panic\<close>, kept folded so that the rules of \<open>no_panic_intros\<close> work backwards
  through a definition: \<open>by (auto intro!: no_panic_intros)\<close>.
\<close>

definition no_panic :: "('e, 'a) outcome \<Rightarrow> bool" where
  "no_panic m \<longleftrightarrow> m \<noteq> Panic"

lemma no_panic_simps [simp, no_panic_intros]:
  "no_panic (Ok x)" "no_panic (Err e)" "no_panic NoFuel"
  by (simp_all add: no_panic_def)

lemma not_no_panic [simp]: "\<not> no_panic Panic"
  by (simp add: no_panic_def)

lemma no_panicD: "no_panic m \<Longrightarrow> m \<noteq> Panic"
  by (simp add: no_panic_def)

lemma and_then_no_panic [no_panic_intros]:
  "no_panic m \<Longrightarrow> (\<And>x. m = Ok x \<Longrightarrow> no_panic (f x)) \<Longrightarrow> no_panic (and_then m f)"
  by (cases m) auto

lemma map_err_no_panic [no_panic_intros]: "no_panic m \<Longrightarrow> no_panic (map_err g m)"
  by (cases m) auto

lemma if_no_panic [no_panic_intros]:
  "(b \<Longrightarrow> no_panic m) \<Longrightarrow> (\<not> b \<Longrightarrow> no_panic n) \<Longrightarrow> no_panic (if b then m else n)"
  by simp

lemma prod_no_panic [no_panic_intros]:
  "(\<And>a b. p = (a, b) \<Longrightarrow> no_panic (f a b)) \<Longrightarrow> no_panic (case p of (a, b) \<Rightarrow> f a b)"
  by (cases p) simp

lemma option_no_panic [no_panic_intros]:
  "(v = None \<Longrightarrow> no_panic m) \<Longrightarrow> (\<And>x. v = Some x \<Longrightarrow> no_panic (f x)) \<Longrightarrow>
   no_panic (case v of None \<Rightarrow> m | Some x \<Rightarrow> f x)"
  by (cases v) simp_all

lemma attempt_no_panic [no_panic_intros]: "no_panic m \<Longrightarrow> no_panic (attempt m)"
  by (cases m) auto

lemma ok_or_no_panic [no_panic_intros]: "no_panic (ok_or v e)"
  by (cases v) (simp_all add: ok_or_def)

lemma is_ok_iff: "is_ok m \<longleftrightarrow> (\<exists>x. m = Ok x)"
  by (cases m) auto

text \<open>Outcomes ordered by fuel: \<open>NoFuel\<close> is below everything, every other outcome only below itself.\<close>

definition fuel_le :: "('e, 'a) outcome \<Rightarrow> ('e, 'a) outcome \<Rightarrow> bool" where
  "fuel_le m n \<longleftrightarrow> m = NoFuel \<or> m = n"

lemma fuel_le_refl [simp, intro]: "fuel_le m m"
  by (simp add: fuel_le_def)

lemma fuel_le_NoFuel [simp, intro]: "fuel_le NoFuel m"
  by (simp add: fuel_le_def)

lemma fuel_le_trans: "fuel_le l m \<Longrightarrow> fuel_le m n \<Longrightarrow> fuel_le l n"
  by (auto simp: fuel_le_def)

lemma fuel_le_eq: "fuel_le m n \<Longrightarrow> m \<noteq> NoFuel \<Longrightarrow> n = m"
  by (auto simp: fuel_le_def)

lemma fuel_le_and_then:
  "fuel_le m n \<Longrightarrow> (\<And>x. m = Ok x \<Longrightarrow> fuel_le (f x) (g x)) \<Longrightarrow> fuel_le (and_then m f) (and_then n g)"
  by (cases m) (auto simp: fuel_le_def)

section \<open>Machine integers\<close>

type_synonym u8 = "8 word"
type_synonym u16 = "16 word"
type_synonym u32 = "32 word"
type_synonym u64 = "64 word"
type_synonym i32 = "32 word" \<comment> \<open>two's complement, read with \<open>sint\<close>\<close>
type_synonym i64 = "64 word" \<comment> \<open>two's complement, read with \<open>sint\<close>\<close>
type_synonym bytes = "u8 list"

text \<open>
  A \<open>usize\<close> is a \<open>nat\<close> below \<open>2 ^ 64\<close>. Plain \<open>+\<close> is used where the operands are bounded far
  below that (an offset read from a \<open>u16\<close> or \<open>u32\<close> field); where the operation can wrap, the
  wrap is written out.
\<close>

definition usize_max :: nat where
  "usize_max = 2 ^ 64"

definition usize_add :: "nat \<Rightarrow> nat \<Rightarrow> nat" where
  "usize_add a b = (a + b) mod usize_max"

definition usize_sub :: "nat \<Rightarrow> nat \<Rightarrow> nat" where
  "usize_sub a b = (if b \<le> a then a - b else a + usize_max - b)"

definition checked_usize_add :: "nat \<Rightarrow> nat \<Rightarrow> nat option" where
  "checked_usize_add a b = (if a + b < usize_max then Some (a + b) else None)"

definition checked_usize_mul :: "nat \<Rightarrow> nat \<Rightarrow> nat option" where
  "checked_usize_mul a b = (if a * b < usize_max then Some (a * b) else None)"

lemma usize_add_small: "a + b < usize_max \<Longrightarrow> usize_add a b = a + b"
  by (simp add: usize_add_def)

lemma usize_sub_small [simp]: "b \<le> a \<Longrightarrow> usize_sub a b = a - b"
  by (simp add: usize_sub_def)

lemma checked_usize_simps:
  "a + b < usize_max \<Longrightarrow> checked_usize_add a b = Some (a + b)"
  "a * b < usize_max \<Longrightarrow> checked_usize_mul a b = Some (a * b)"
  by (simp_all add: checked_usize_add_def checked_usize_mul_def)

lemma unat_less_pow16 [simp]: "unat (w :: u16) < 65536"
  using unsigned_less [of w, where ?'a = nat] by simp

lemma unat_less_pow32 [simp]: "unat (w :: u32) < 4294967296"
  using unsigned_less [of w, where ?'a = nat] by simp

lemma unat_less_pow64 [simp]: "unat (w :: u64) < 18446744073709551616"
  using unsigned_less [of w, where ?'a = nat] by simp

lemma unat_add_no_wrap:
  "unat (a :: u64) + unat b < 2 ^ 64 \<Longrightarrow> unat (a + b) = unat a + unat b"
  by (simp add: unat_word_ariths)

lemma unat_mult_no_wrap:
  "unat (a :: u64) * unat b < 2 ^ 64 \<Longrightarrow> unat (a * b) = unat a * unat b"
  by (simp add: unat_word_ariths)

lemma unat_ucast_u32_u64 [simp]: "unat (ucast (w :: u32) :: u64) = unat w"
  by (simp add: unsigned_ucast_eq take_bit_nat_eq_self_iff order.strict_trans [OF unat_less_pow32])

section \<open>Slices\<close>

text \<open>\<open>&xs[a..b]\<close> and \<open>&xs[a..]\<close> panic out of range; \<open>xs.get(a..b)\<close> is \<open>None\<close> there.\<close>

definition subslice :: "'a list \<Rightarrow> nat \<Rightarrow> nat \<Rightarrow> ('e, 'a list) outcome" where
  "subslice xs a b = (if a \<le> b \<and> b \<le> length xs then Ok (take (b - a) (drop a xs)) else Panic)"

definition slice_from :: "'a list \<Rightarrow> nat \<Rightarrow> ('e, 'a list) outcome" where
  "slice_from xs a = (if a \<le> length xs then Ok (drop a xs) else Panic)"

definition get_range :: "'a list \<Rightarrow> nat \<Rightarrow> nat \<Rightarrow> 'a list option" where
  "get_range xs a b = (if a \<le> b \<and> b \<le> length xs then Some (take (b - a) (drop a xs)) else None)"

definition index :: "'a list \<Rightarrow> nat \<Rightarrow> ('e, 'a) outcome" where
  "index xs i = (if i < length xs then Ok (xs ! i) else Panic)"

lemma subslice_eq_Ok [outcome_iffs]:
  "subslice xs a b = Ok ys \<longleftrightarrow> a \<le> b \<and> b \<le> length xs \<and> ys = take (b - a) (drop a xs)"
  by (auto simp: subslice_def)

lemma slice_from_eq_Ok [outcome_iffs]:
  "slice_from xs a = Ok ys \<longleftrightarrow> a \<le> length xs \<and> ys = drop a xs"
  by (auto simp: slice_from_def)

lemma slice_iffs [outcome_iffs]:
  "subslice xs a b \<noteq> Err e" "subslice xs a b \<noteq> NoFuel"
  "slice_from xs a \<noteq> Err e" "slice_from xs a \<noteq> NoFuel"
  by (auto simp: subslice_def slice_from_def)

lemma index_eq_Ok [outcome_iffs]: "index xs i = Ok x \<longleftrightarrow> i < length xs \<and> x = xs ! i"
  by (auto simp: index_def)

lemma length_get_range: "get_range xs a b = Some ys \<Longrightarrow> length ys = b - a"
  by (auto simp: get_range_def split: if_splits)

section \<open>Text\<close>

text \<open>
  A Rust \<open>String\<close> is a sequence of Unicode scalar values. \<open>lit\<close> is an ASCII literal, \<open>dec\<close>
  what \<open>format!("{}", n)\<close> prints for an unsigned \<open>n\<close>.
\<close>

type_synonym rstr = "nat list"

definition lit :: "string \<Rightarrow> rstr" where
  "lit s = map of_char s"

fun dec :: "nat \<Rightarrow> rstr" where
  "dec n = (if n < 10 then [48 + n] else dec (n div 10) @ [48 + n mod 10])"

declare dec.simps [simp del]

text \<open>What a decimal string denotes; it is the left inverse of \<open>dec\<close>.\<close>

definition undec :: "rstr \<Rightarrow> nat" where
  "undec ds = foldl (\<lambda>acc d. 10 * acc + (d - 48)) 0 ds"

lemma undec_dec [simp]: "undec (dec n) = n"
proof (induction n rule: dec.induct)
  case (1 n)
  then show ?case
    by (subst dec.simps) (auto simp: undec_def)
qed

lemma dec_inject [simp]: "dec m = dec n \<longleftrightarrow> m = n"
  by (metis undec_dec)

lemma dec_digits: "d \<in> set (dec n) \<Longrightarrow> 48 \<le> d \<and> d \<le> 57"
proof (induction n rule: dec.induct)
  case (1 n)
  from "1.prems" show ?case
    by (subst (asm) dec.simps) (use "1.IH" in \<open>auto split: if_splits\<close>)
qed

lemma dec_nonempty [simp]: "dec n \<noteq> []"
  by (subst dec.simps) simp

section \<open>Congruences\<close>

lemma mod_add_cancel_right:
  fixes a b c m :: nat
  assumes "(a + c) mod m = (b + c) mod m"
  shows "a mod m = b mod m"
proof -
  have "(int a + int c) mod int m = (int b + int c) mod int m"
    using assms by (metis of_nat_add of_nat_mod)
  then have "int m dvd (int a + int c) - (int b + int c)"
    by (simp add: mod_eq_dvd_iff)
  then have "int a mod int m = int b mod int m"
    by (simp add: mod_eq_dvd_iff)
  then show ?thesis
    by (metis of_nat_eq_iff of_nat_mod)
qed

section \<open>Lists\<close>

lemma take_drop_append_take: "m \<le> n \<Longrightarrow> take m xs @ take (n - m) (drop m xs) = take n xs"
  by (metis le_add_diff_inverse take_add)

lemma find_Some_iff_filter: "find P xs = (case filter P xs of [] \<Rightarrow> None | y # _ \<Rightarrow> Some y)"
  by (induction xs) auto

end
