(* ===== verification/Le_Bytes.thy ===== *)
theory Le_Bytes
  imports Arfw_Prelude
begin

text \<open>
  The error type of the \<open>apfs\<close> crate (\<open>vendor/apfs/src/error.rs\<close>), little-endian integers, and
  the \<open>Cursor\<close> reads of the \<open>byteorder\<close> extension trait that the parsers are written with. A
  cursor is represented by the bytes at and after its position.
\<close>

section \<open>Errors\<close>

datatype io_kind = KindNotFound | KindPermissionDenied | KindInvalidInput | KindUnexpectedEof | KindOther

datatype io_error = Io_Error io_kind rstr

datatype apfs_error =
    Io io_error
  | InvalidMagic u32
  | InvalidChecksum
  | InvalidBTree rstr
  | FileNotFound rstr
  | NotADirectory rstr
  | CorruptedData rstr
  | NoVolume

type_synonym 'a apfs_result = "(apfs_error, 'a) outcome"

text \<open>What \<open>Read::read_exact\<close> of the standard library returns at the end of its input.\<close>

definition unexpected_eof :: io_error where
  "unexpected_eof = Io_Error KindUnexpectedEof (lit ''failed to fill whole buffer'')"

section \<open>Little-endian integers\<close>

fun le_nat :: "bytes \<Rightarrow> nat" where
  "le_nat [] = 0"
| "le_nat (b # bs) = unat b + 256 * le_nat bs"

text \<open>\<open>uN::from_le_bytes\<close>; the width is the type's.\<close>

definition word_of_le :: "bytes \<Rightarrow> 'a::len word" where
  "word_of_le bs = word_of_nat (le_nat bs)"

fun to_le :: "nat \<Rightarrow> nat \<Rightarrow> bytes" where
  "to_le 0 x = []"
| "to_le (Suc n) x = word_of_nat (x mod 256) # to_le n (x div 256)"

lemma length_to_le [simp]: "length (to_le n x) = n"
  by (induction n arbitrary: x) auto

lemma le_nat_bound: "le_nat bs < 256 ^ length bs"
proof (induction bs)
  case Nil
  then show ?case by simp
next
  case (Cons b bs)
  have "unat b < 256"
    using unsigned_less [of b, where ?'a = nat] by simp
  with Cons show ?case by simp
qed

lemma le_nat_to_le [simp]: "le_nat (to_le n x) = x mod 256 ^ n"
proof (induction n arbitrary: x)
  case 0
  then show ?case by simp
next
  case (Suc n)
  have "x mod (256 * 256 ^ n) = x mod 256 + 256 * (x div 256 mod 256 ^ n)"
    by (simp add: mod_mult2_eq)
  with Suc show ?case
    by (simp add: unat_of_nat)
qed

lemma to_le_le_nat [simp]: "length bs = n \<Longrightarrow> to_le n (le_nat bs) = bs"
proof (induction bs arbitrary: n)
  case Nil
  then show ?case by simp
next
  case (Cons b bs)
  have b: "unat b < 256"
    using unsigned_less [of b, where ?'a = nat] by simp
  then have "(unat b + 256 * le_nat bs) div 256 = le_nat bs"
    by simp
  moreover have "(unat b + 256 * le_nat bs) mod 256 = unat b"
    using b by simp
  ultimately show ?case
    using Cons.prems Cons.IH by auto
qed

lemma le_nat_append: "le_nat (xs @ ys) = le_nat xs + 256 ^ length xs * le_nat ys"
  by (induction xs) (auto simp: algebra_simps)

lemma unat_word_of_le:
  "(256 :: nat) ^ length bs \<le> 2 ^ LENGTH('a) \<Longrightarrow> unat (word_of_le bs :: 'a::len word) = le_nat bs"
  using le_nat_bound [of bs]
  by (simp add: word_of_le_def unat_of_nat)

lemma unat_word_of_le_u64: "length bs = 8 \<Longrightarrow> unat (word_of_le bs :: u64) = le_nat bs"
  by (rule unat_word_of_le) simp

lemma unat_word_of_le_u32: "length bs = 4 \<Longrightarrow> unat (word_of_le bs :: u32) = le_nat bs"
  by (rule unat_word_of_le) simp

lemma to_le_4:
  "to_le 4 x = [word_of_nat (x mod 256), word_of_nat (x div 256 mod 256),
     word_of_nat (x div 65536 mod 256), word_of_nat (x div 16777216 mod 256)]"
proof -
  have "(4 :: nat) = Suc (Suc (Suc (Suc 0)))"
    by simp
  then show ?thesis
    by (simp only: to_le.simps) (simp flip: div_mult2_eq)
qed

definition le16 :: "u16 \<Rightarrow> bytes" where "le16 w = to_le 2 (unat w)"
definition le32 :: "u32 \<Rightarrow> bytes" where "le32 w = to_le 4 (unat w)"
definition le64 :: "u64 \<Rightarrow> bytes" where "le64 w = to_le 8 (unat w)"

lemma length_le [simp]: "length (le16 v) = 2" "length (le32 w) = 4" "length (le64 x) = 8"
  by (simp_all add: le16_def le32_def le64_def)

lemma word_of_le_le [simp]:
  "word_of_le (le16 v) = v" "word_of_le (le32 w) = w" "word_of_le (le64 x) = x"
  by (simp_all add: word_of_le_def le16_def le32_def le64_def mod_less)

section \<open>Cursor reads\<close>

type_synonym cursor = bytes

definition read_bytes :: "nat \<Rightarrow> cursor \<Rightarrow> (bytes \<times> cursor) apfs_result" where
  "read_bytes n c = (if n \<le> length c then Ok (take n c, drop n c) else Err (Io unexpected_eof))"

definition read_le :: "nat \<Rightarrow> cursor \<Rightarrow> ('a::len word \<times> cursor) apfs_result" where
  "read_le n c = and_then (read_bytes n c) (\<lambda>(bs, c'). Ok (word_of_le bs, c'))"

definition read_u16 :: "cursor \<Rightarrow> (u16 \<times> cursor) apfs_result" where "read_u16 = read_le 2"
definition read_u32 :: "cursor \<Rightarrow> (u32 \<times> cursor) apfs_result" where "read_u32 = read_le 4"
definition read_u64 :: "cursor \<Rightarrow> (u64 \<times> cursor) apfs_result" where "read_u64 = read_le 8"

text \<open>Integers at an offset of a block: what a chain of cursor reads amounts to.\<close>

definition u16_at :: "bytes \<Rightarrow> nat \<Rightarrow> u16" where "u16_at bs k = word_of_le (take 2 (drop k bs))"
definition u32_at :: "bytes \<Rightarrow> nat \<Rightarrow> u32" where "u32_at bs k = word_of_le (take 4 (drop k bs))"
definition u64_at :: "bytes \<Rightarrow> nat \<Rightarrow> u64" where "u64_at bs k = word_of_le (take 8 (drop k bs))"

named_theorems cursor_at \<open>cursor reads at a known offset of a block\<close>

lemma read_bytes_at [cursor_at]:
  "k + n \<le> length bs \<Longrightarrow> read_bytes n (drop k bs) = Ok (take n (drop k bs), drop (k + n) bs)"
  by (simp add: read_bytes_def add.commute)

lemma read_u16_at [cursor_at]:
  "k + 2 \<le> length bs \<Longrightarrow> read_u16 (drop k bs) = Ok (u16_at bs k, drop (k + 2) bs)"
  by (simp add: read_u16_def read_le_def read_bytes_at u16_at_def)

lemma read_u32_at [cursor_at]:
  "k + 4 \<le> length bs \<Longrightarrow> read_u32 (drop k bs) = Ok (u32_at bs k, drop (k + 4) bs)"
  by (simp add: read_u32_def read_le_def read_bytes_at u32_at_def)

lemma read_u64_at [cursor_at]:
  "k + 8 \<le> length bs \<Longrightarrow> read_u64 (drop k bs) = Ok (u64_at bs k, drop (k + 8) bs)"
  by (simp add: read_u64_def read_le_def read_bytes_at u64_at_def)

lemma at_drop [cursor_at]:
  "u16_at (drop k bs) j = u16_at bs (k + j)" "u32_at (drop k bs) j = u32_at bs (k + j)"
  "u64_at (drop k bs) j = u64_at bs (k + j)"
  by (simp_all add: u16_at_def u32_at_def u64_at_def add.commute)

lemma read_at_0 [cursor_at]:
  "2 \<le> length bs \<Longrightarrow> read_u16 bs = Ok (u16_at bs 0, drop 2 bs)"
  "4 \<le> length bs \<Longrightarrow> read_u32 bs = Ok (u32_at bs 0, drop 4 bs)"
  "8 \<le> length bs \<Longrightarrow> read_u64 bs = Ok (u64_at bs 0, drop 8 bs)"
  using read_u16_at [of 0 bs] read_u32_at [of 0 bs] read_u64_at [of 0 bs] by (simp_all add: numeral_2_eq_2)

named_theorems cursor_iffs \<open>when a cursor read at an offset of a block succeeds\<close>

lemma read_drop_eq_Ok [cursor_iffs]:
  "read_u16 (drop k bs) = Ok (v, c) \<longleftrightarrow> k + 2 \<le> length bs \<and> v = u16_at bs k \<and> c = drop (k + 2) bs"
  "read_u32 (drop k bs) = Ok (w, c) \<longleftrightarrow> k + 4 \<le> length bs \<and> w = u32_at bs k \<and> c = drop (k + 4) bs"
  "read_u64 (drop k bs) = Ok (x, c) \<longleftrightarrow> k + 8 \<le> length bs \<and> x = u64_at bs k \<and> c = drop (k + 8) bs"
  by (auto simp: read_u16_def read_u32_def read_u64_def read_le_def read_bytes_def
      u16_at_def u32_at_def u64_at_def add.commute)

lemma read_bytes_drop_eq_Ok [cursor_iffs]:
  "0 < n \<Longrightarrow> read_bytes n (drop k bs) = Ok (ys, c) \<longleftrightarrow>
   k + n \<le> length bs \<and> ys = take n (drop k bs) \<and> c = drop (k + n) bs"
  by (auto simp: read_bytes_def add.commute)

named_theorems cursor_enc \<open>cursor reads of encoded integers\<close>

lemma read_enc [cursor_enc]:
  "read_u16 (le16 v @ c) = Ok (v, c)"
  "read_u32 (le32 w @ c) = Ok (w, c)"
  "read_u64 (le64 x @ c) = Ok (x, c)"
  by (simp_all add: read_u16_def read_u32_def read_u64_def read_le_def read_bytes_def)

lemma read_bytes_enc [cursor_enc]: "length bs = n \<Longrightarrow> read_bytes n (bs @ c) = Ok (bs, c)"
  by (auto simp: read_bytes_def)

lemma read_Ok_length:
  "read_u16 c = Ok (v, c') \<Longrightarrow> length c = length c' + 2"
  "read_u32 c = Ok (w, c') \<Longrightarrow> length c = length c' + 4"
  "read_u64 c = Ok (x, c') \<Longrightarrow> length c = length c' + 8"
  "read_bytes n c = Ok (bs, c') \<Longrightarrow> length c = length c' + n"
  by (auto simp: read_u16_def read_u32_def read_u64_def read_le_def read_bytes_def split: if_splits)

lemma read_no_panic [no_panic_intros]:
  "no_panic (read_u16 c)" "no_panic (read_u32 c)" "no_panic (read_u64 c)" "no_panic (read_bytes n c)"
  by (auto simp: read_u16_def read_u32_def read_u64_def read_le_def read_bytes_def)

lemma read_no_fuel:
  "read_u16 c \<noteq> NoFuel" "read_u32 c \<noteq> NoFuel" "read_u64 c \<noteq> NoFuel" "read_bytes n c \<noteq> NoFuel"
  by (auto simp: read_u16_def read_u32_def read_u64_def read_le_def read_bytes_def)

end
