(* ===== verification/Rust_Strings.thy ===== *)
theory Rust_Strings
  imports Le_Bytes
begin

text \<open>
  What the program uses of Rust's strings: \<open>String::from_utf8_lossy\<close> on names read from disk, and
  \<open>trim_matches\<close>, \<open>split\<close>, \<open>join\<close>, \<open>replace\<close> on paths. A string is its list of scalar values.
\<close>

section \<open>Decoding UTF-8\<close>

definition continuation :: "u8 \<Rightarrow> bool" where
  "continuation b \<longleftrightarrow> 0x80 \<le> unat b \<and> unat b \<le> 0xBF"

text \<open>The byte at a position, \<open>0\<close> past the end (\<open>safe_get\<close> of the standard library's decoder).\<close>

definition safe_get :: "bytes \<Rightarrow> nat \<Rightarrow> u8" where
  "safe_get bs i = (if i < length bs then bs ! i else 0)"

definition REPLACEMENT :: nat where
  "REPLACEMENT = 0xFFFD"

definition second_ok3 :: "nat \<Rightarrow> nat \<Rightarrow> bool" where
  "second_ok3 b c \<longleftrightarrow>
     (b = 0xE0 \<and> 0xA0 \<le> c \<and> c \<le> 0xBF) \<or> (0xE1 \<le> b \<and> b \<le> 0xEC \<and> 0x80 \<le> c \<and> c \<le> 0xBF) \<or>
     (b = 0xED \<and> 0x80 \<le> c \<and> c \<le> 0x9F) \<or> (0xEE \<le> b \<and> b \<le> 0xEF \<and> 0x80 \<le> c \<and> c \<le> 0xBF)"

definition second_ok4 :: "nat \<Rightarrow> nat \<Rightarrow> bool" where
  "second_ok4 b c \<longleftrightarrow>
     (b = 0xF0 \<and> 0x90 \<le> c \<and> c \<le> 0xBF) \<or> (0xF1 \<le> b \<and> b \<le> 0xF3 \<and> 0x80 \<le> c \<and> c \<le> 0xBF) \<or>
     (b = 0xF4 \<and> 0x80 \<le> c \<and> c \<le> 0x8F)"

text \<open>
  One step on a lead byte and the bytes after it: the scalar value, and how many of the bytes
  after the lead byte it takes. A malformed sequence gives U+FFFD and takes the bytes that could
  have begun a character.
\<close>

definition utf8_step :: "u8 \<Rightarrow> bytes \<Rightarrow> nat \<times> nat" where
  "utf8_step b rest =
     (let b0 = unat b; b1 = unat (safe_get rest 0); b2 = unat (safe_get rest 1); b3 = unat (safe_get rest 2) in
      if b0 < 0x80 then (b0, 0)
      else if 0xC2 \<le> b0 \<and> b0 \<le> 0xDF then
        (if \<not> continuation (safe_get rest 0) then (REPLACEMENT, 0)
         else ((b0 - 0xC0) * 64 + (b1 - 0x80), 1))
      else if 0xE0 \<le> b0 \<and> b0 \<le> 0xEF then
        (if \<not> second_ok3 b0 b1 then (REPLACEMENT, 0)
         else if \<not> continuation (safe_get rest 1) then (REPLACEMENT, 1)
         else ((b0 - 0xE0) * 4096 + (b1 - 0x80) * 64 + (b2 - 0x80), 2))
      else if 0xF0 \<le> b0 \<and> b0 \<le> 0xF4 then
        (if \<not> second_ok4 b0 b1 then (REPLACEMENT, 0)
         else if \<not> continuation (safe_get rest 1) then (REPLACEMENT, 1)
         else if \<not> continuation (safe_get rest 2) then (REPLACEMENT, 2)
         else ((b0 - 0xF0) * 262144 + (b1 - 0x80) * 4096 + (b2 - 0x80) * 64 + (b3 - 0x80), 3))
      else (REPLACEMENT, 0))"

fun from_utf8_lossy :: "bytes \<Rightarrow> rstr" where
  "from_utf8_lossy [] = []"
| "from_utf8_lossy (b # rest) =
     (case utf8_step b rest of (c, k) \<Rightarrow> c # from_utf8_lossy (drop k rest))"

definition is_scalar :: "nat \<Rightarrow> bool" where
  "is_scalar c \<longleftrightarrow> c < 0xD800 \<or> (0xE000 \<le> c \<and> c < 0x110000)"

lemma scalar_replacement [simp]: "is_scalar REPLACEMENT"
  by (simp add: is_scalar_def REPLACEMENT_def)

lemma scalar2: "0xC2 \<le> b \<Longrightarrow> b \<le> 0xDF \<Longrightarrow> c \<le> 63 \<Longrightarrow> is_scalar ((b - 0xC0) * 64 + c)"
  by (auto simp: is_scalar_def)

lemma scalar3:
  "second_ok3 b c \<Longrightarrow> d \<le> 63 \<Longrightarrow> is_scalar ((b - 0xE0) * 4096 + (c - 0x80) * 64 + d)"
  unfolding second_ok3_def is_scalar_def by linarith

lemma scalar4:
  "second_ok4 b c \<Longrightarrow> d \<le> 63 \<Longrightarrow> e \<le> 63 \<Longrightarrow>
   is_scalar ((b - 0xF0) * 262144 + (c - 0x80) * 4096 + d * 64 + e)"
  unfolding second_ok4_def is_scalar_def by linarith

lemma continuation_payload: "continuation b \<Longrightarrow> unat b - 0x80 \<le> 63"
  unfolding continuation_def by arith

lemma utf8_step_scalar: "is_scalar (fst (utf8_step b rest))"
  using scalar2 [of "unat b" "unat (safe_get rest 0) - 0x80"]
    scalar3 [of "unat b" "unat (safe_get rest 0)" "unat (safe_get rest 1) - 0x80"]
    scalar4 [of "unat b" "unat (safe_get rest 0)" "unat (safe_get rest 1) - 0x80" "unat (safe_get rest 2) - 0x80"]
    continuation_payload [of "safe_get rest 0"] continuation_payload [of "safe_get rest 1"]
    continuation_payload [of "safe_get rest 2"]
  unfolding utf8_step_def Let_def by (simp add: is_scalar_def [of "unat b"] del: One_nat_def)

lemma from_utf8_lossy_scalars: "list_all is_scalar (from_utf8_lossy bs)"
proof (induction bs rule: from_utf8_lossy.induct)
  case 1
  then show ?case by simp
next
  case (2 b rest)
  then show ?case
    using utf8_step_scalar [of b rest] by (auto split: prod.splits)
qed

lemma from_utf8_lossy_ascii:
  "\<forall>b \<in> set bs. unat b < 128 \<Longrightarrow> from_utf8_lossy bs = map unat bs"
  by (induction bs) (auto simp: utf8_step_def Let_def)

text \<open>The UTF-8 form of a scalar value.\<close>

definition byte_of :: "nat \<Rightarrow> u8" where
  "byte_of n = word_of_nat n"

definition utf8_char :: "nat \<Rightarrow> bytes" where
  "utf8_char c =
     (if c < 0x80 then [byte_of c]
      else if c < 0x800 then [byte_of (0xC0 + c div 64), byte_of (0x80 + c mod 64)]
      else if c < 0x10000 then
        [byte_of (0xE0 + c div 4096), byte_of (0x80 + c div 64 mod 64), byte_of (0x80 + c mod 64)]
      else [byte_of (0xF0 + c div 262144), byte_of (0x80 + c div 4096 mod 64),
            byte_of (0x80 + c div 64 mod 64), byte_of (0x80 + c mod 64)])"

definition utf8 :: "rstr \<Rightarrow> bytes" where
  "utf8 s = concat (map utf8_char s)"

lemma unat_byte: "n < 256 \<Longrightarrow> unat (byte_of n) = n"
  by (simp add: byte_of_def unat_of_nat)

lemma utf8_step2:
  "0xC2 \<le> unat b \<Longrightarrow> unat b \<le> 0xDF \<Longrightarrow> continuation c \<Longrightarrow>
   utf8_step b (c # rest) = ((unat b - 0xC0) * 64 + (unat c - 0x80), 1)"
  by (simp add: utf8_step_def safe_get_def Let_def)

lemma utf8_step3:
  "0xE0 \<le> unat b \<Longrightarrow> unat b \<le> 0xEF \<Longrightarrow> second_ok3 (unat b) (unat c) \<Longrightarrow> continuation d \<Longrightarrow>
   utf8_step b (c # d # rest) = ((unat b - 0xE0) * 4096 + (unat c - 0x80) * 64 + (unat d - 0x80), 2)"
  by (simp add: utf8_step_def safe_get_def Let_def)

lemma utf8_step4:
  "0xF0 \<le> unat b \<Longrightarrow> unat b \<le> 0xF4 \<Longrightarrow> second_ok4 (unat b) (unat c) \<Longrightarrow> continuation d \<Longrightarrow>
   continuation e \<Longrightarrow>
   utf8_step b (c # d # e # rest) =
     ((unat b - 0xF0) * 262144 + (unat c - 0x80) * 4096 + (unat d - 0x80) * 64 + (unat e - 0x80), 3)"
  by (simp add: utf8_step_def safe_get_def Let_def)

lemma continuation_byte: "x < 64 \<Longrightarrow> continuation (byte_of (0x80 + x))"
  by (simp add: continuation_def unat_byte)

lemma utf8_char_step:
  assumes "is_scalar c"
  obtains b tail where "utf8_char c = b # tail" "utf8_step b (tail @ rest) = (c, length tail)"
proof -
  consider (one) "c < 0x80" | (two) "0x80 \<le> c" "c < 0x800" | (three) "0x800 \<le> c" "c < 0x10000"
    | (four) "0x10000 \<le> c" "c < 0x110000"
    using assms unfolding is_scalar_def by linarith
  then show ?thesis
  proof cases
    case one
    then show ?thesis
      by (intro that [of "byte_of c" "[]"]) (simp_all add: utf8_char_def utf8_step_def unat_byte Let_def)
  next
    case two
    define x y where "x = c div 64" and "y = c mod 64"
    have "x * 64 + y = c" and b: "2 \<le> x" "x < 32" "y < 64"
      using two unfolding x_def y_def by auto
    then have "utf8_step (byte_of (0xC0 + x)) ([byte_of (0x80 + y)] @ rest) = (c, 1)"
      by (simp add: utf8_step2 continuation_byte unat_byte)
    then show ?thesis
      using two by (intro that [of "byte_of (0xC0 + x)" "[byte_of (0x80 + y)]"])
        (simp_all add: utf8_char_def flip: x_def y_def)
  next
    case three
    define x y z where "x = c div 4096" and "y = c div 64 mod 64" and "z = c mod 64"
    have "c div 4096 = c div 64 div 64"
      by (simp flip: div_mult2_eq)
    then have c: "x * 4096 + y * 64 + z = c"
      unfolding x_def y_def z_def
      using div_mult_mod_eq [of c 64] div_mult_mod_eq [of "c div 64" 64] by linarith
    moreover have yz: "y < 64" "z < 64"
      by (simp_all add: y_def z_def)
    ultimately have b: "x < 16" "y < 64" "z < 64" "x = 0 \<Longrightarrow> 32 \<le> y" "x = 13 \<Longrightarrow> y < 32"
      using three assms unfolding is_scalar_def by linarith+
    have "second_ok3 (0xE0 + x) (0x80 + y)"
      using b unfolding second_ok3_def by linarith
    with b c have "utf8_step (byte_of (0xE0 + x)) ([byte_of (0x80 + y), byte_of (0x80 + z)] @ rest) = (c, 2)"
      by (simp add: utf8_step3 continuation_byte unat_byte)
    then show ?thesis
      using three by (intro that [of "byte_of (0xE0 + x)" "[byte_of (0x80 + y), byte_of (0x80 + z)]"])
        (simp_all add: utf8_char_def flip: x_def y_def z_def)
  next
    case four
    define x y z v where "x = c div 262144" and "y = c div 4096 mod 64"
      and "z = c div 64 mod 64" and "v = c mod 64"
    define q1 q2 where "q1 = c div 64" and "q2 = q1 div 64"
    have d: "c div 4096 = q2" "c div 262144 = q2 div 64"
      by (simp_all add: q1_def q2_def flip: div_mult2_eq)
    have "64 * q1 + v = c" "64 * q2 + z = q1" "64 * x + y = q2"
      unfolding v_def z_def x_def y_def d unfolding q2_def q1_def by (rule mult_div_mod_eq)+
    then have c: "x * 262144 + y * 4096 + z * 64 + v = c"
      by linarith
    moreover have yz: "y < 64" "z < 64" "v < 64"
      by (simp_all add: y_def z_def v_def)
    ultimately have b: "x < 5" "y < 64" "z < 64" "v < 64" "x = 0 \<Longrightarrow> 16 \<le> y" "x = 4 \<Longrightarrow> y < 16"
      using four by linarith+
    have "second_ok4 (0xF0 + x) (0x80 + y)"
      using b unfolding second_ok4_def by linarith
    with b c have "utf8_step (byte_of (0xF0 + x))
        ([byte_of (0x80 + y), byte_of (0x80 + z), byte_of (0x80 + v)] @ rest) = (c, 3)"
      by (simp add: utf8_step4 continuation_byte unat_byte)
    then show ?thesis
      using four by (intro that [of "byte_of (0xF0 + x)"
            "[byte_of (0x80 + y), byte_of (0x80 + z), byte_of (0x80 + v)]"])
        (simp_all add: utf8_char_def flip: x_def y_def z_def v_def)
  qed
qed

lemma from_utf8_lossy_char:
  assumes "is_scalar c"
  shows "from_utf8_lossy (utf8_char c @ rest) = c # from_utf8_lossy rest"
proof -
  obtain b tail where "utf8_char c = b # tail" "utf8_step b (tail @ rest) = (c, length tail)"
    using utf8_char_step [OF assms] by blast
  then show ?thesis by simp
qed

lemma byte_of_eq_0: "n < 256 \<Longrightarrow> byte_of n = 0 \<longleftrightarrow> n = 0"
  by (metis unat_byte unat_0 unat_eq_zero)

lemma utf8_char_nonzero:
  assumes "is_scalar c" and "c \<noteq> 0"
  shows "0 \<notin> set (utf8_char c)"
proof -
  have "c < 0x110000"
    using assms(1) by (auto simp: is_scalar_def)
  then have "c div 262144 < 5"
    by simp
  moreover have "c < 0x10000 \<Longrightarrow> c div 4096 < 16" "c < 0x800 \<Longrightarrow> c div 64 < 32"
    by simp_all
  ultimately show ?thesis
    using assms(2) byte_of_eq_0 [of c] byte_of_eq_0 [of "0xC0 + c div 64"] byte_of_eq_0 [of "0xE0 + c div 4096"]
      byte_of_eq_0 [of "0xF0 + c div 262144"] byte_of_eq_0 [of "0x80 + c mod 64"]
      byte_of_eq_0 [of "0x80 + c div 64 mod 64"] byte_of_eq_0 [of "0x80 + c div 4096 mod 64"]
    by (auto simp: utf8_char_def)
qed

text \<open>Decoding is the identity on well-formed UTF-8, and a decoded string encodes to itself.\<close>

lemma from_utf8_lossy_utf8: "list_all is_scalar s \<Longrightarrow> from_utf8_lossy (utf8 s) = s"
  by (induction s) (auto simp: utf8_def from_utf8_lossy_char)

text \<open>
  \<open>from_utf8_lossy\<close> always yields Unicode scalar values, and it is the identity on the UTF-8
  form of what it yields, so a name that was decoded once never changes again.
\<close>

theorem from_utf8_lossy_idempotent:
  "list_all is_scalar (from_utf8_lossy bs) \<and> from_utf8_lossy (utf8 (from_utf8_lossy bs)) = from_utf8_lossy bs"
  by (simp add: from_utf8_lossy_scalars from_utf8_lossy_utf8)

section \<open>Operations on paths\<close>

fun split_on :: "'a \<Rightarrow> 'a list \<Rightarrow> 'a list list" where
  "split_on c [] = [[]]"
| "split_on c (x # xs) =
     (if x = c then [] # split_on c xs
      else case split_on c xs of [] \<Rightarrow> [[x]] | p # ps \<Rightarrow> (x # p) # ps)"

definition trim_matches :: "'a \<Rightarrow> 'a list \<Rightarrow> 'a list" where
  "trim_matches c xs = rev (dropWhile (\<lambda>x. x = c) (rev (dropWhile (\<lambda>x. x = c) xs)))"

fun join :: "'a list \<Rightarrow> 'a list list \<Rightarrow> 'a list" where
  "join sep [] = []"
| "join sep [p] = p"
| "join sep (p # ps) = p @ sep @ join sep ps"

definition replace_char :: "'a \<Rightarrow> 'a \<Rightarrow> 'a list \<Rightarrow> 'a list" where
  "replace_char old new xs = map (\<lambda>x. if x = old then new else x) xs"

definition SLASH :: nat where "SLASH = 47"
definition BACKSLASH :: nat where "BACKSLASH = 92"

text \<open>The names on a path: \<open>path.split('/').filter(|s| !s.is_empty())\<close>.\<close>

definition path_components :: "rstr \<Rightarrow> rstr list" where
  "path_components path = filter (\<lambda>s. s \<noteq> []) (split_on SLASH path)"

lemma split_on_nonempty [simp]: "split_on c xs \<noteq> []"
  by (induction xs) (auto split: list.splits)

lemma split_on_append_sep: "split_on c (xs @ c # ys) = split_on c xs @ split_on c ys"
  by (induction xs) (auto split: list.splits simp: append_eq_Cons_conv)

lemma split_on_no_sep: "c \<notin> set xs \<Longrightarrow> split_on c xs = [xs]"
  by (induction xs) auto

lemma split_on_pieces: "p \<in> set (split_on c xs) \<Longrightarrow> c \<notin> set p"
  by (induction xs arbitrary: p) (auto split: list.splits if_splits)

lemma path_components_sep:
  "path_components (xs @ SLASH # ys) = path_components xs @ path_components ys"
  by (simp add: path_components_def split_on_append_sep)

lemma path_components_Nil [simp]: "path_components [] = []"
  by (simp add: path_components_def)

lemma path_components_slash_Cons [simp]: "path_components (SLASH # xs) = path_components xs"
  by (simp add: path_components_def)

lemma path_components_slash_snoc [simp]: "path_components (xs @ [SLASH]) = path_components xs"
  by (simp add: path_components_sep)

lemma path_components_name [simp]:
  "p \<noteq> [] \<Longrightarrow> SLASH \<notin> set p \<Longrightarrow> path_components p = [p]"
  by (simp add: path_components_def split_on_no_sep)

lemma path_components_dropWhile: "path_components (dropWhile (\<lambda>x. x = SLASH) xs) = path_components xs"
  by (induction xs) auto

lemma path_components_rev_dropWhile:
  "path_components (rev (dropWhile (\<lambda>x. x = SLASH) (rev xs))) = path_components xs"
  by (induction xs rule: rev_induct) auto

lemma path_components_trim [simp]: "path_components (trim_matches SLASH xs) = path_components xs"
  by (simp add: trim_matches_def path_components_rev_dropWhile path_components_dropWhile)

lemma path_components_names: "p \<in> set (path_components xs) \<Longrightarrow> p \<noteq> [] \<and> SLASH \<notin> set p"
  by (auto simp: path_components_def dest: split_on_pieces)

lemma path_components_eq_Nil: "path_components xs = [] \<longleftrightarrow> (\<forall>x \<in> set xs. x = SLASH)"
proof (induction xs)
  case (Cons x xs)
  show ?case
  proof (cases "x = SLASH")
    case False
    then have "path_components (x # xs) \<noteq> []"
      by (auto simp: path_components_def split: list.splits)
    with False show ?thesis by simp
  qed (simp add: Cons)
qed simp

lemma ball_dropWhile: "(\<forall>x \<in> set (dropWhile P xs). P x) \<longleftrightarrow> (\<forall>x \<in> set xs. P x)"
  by (induction xs) auto

lemma path_components_Nil_iff: "path_components xs = [] \<longleftrightarrow> trim_matches SLASH xs = []"
  unfolding path_components_eq_Nil trim_matches_def rev_is_Nil_conv dropWhile_eq_Nil_conv set_rev ball_dropWhile ..

end
