(* ===== verification/Host_Base.thy ===== *)
theory Host_Base
  imports Rust_Strings "HOL-Library.Signed_Division"
begin

text \<open>
  What the Windows side of the program shares: its error type and the translation of status codes
  (\<open>src/error.rs\<close>), the time and path conversions (\<open>src/utils.rs\<close>), and operations on a state that
  survives a failing call.
\<close>

section \<open>Errors\<close>

text \<open>An error of the \<open>windows\<close> crate: its \<open>HRESULT\<close> and message.\<close>

datatype windows_error = Windows_Error i32 rstr

datatype arfw_error =
    Error_Io io_error
  | Error_Windows windows_error
  | Error_Apfs rstr
  | Error_WinFsp rstr
  | Error_InvalidPath rstr
  | Error_NotFound rstr

text \<open>\<open>std::io::Error::other(e)\<close> for a Windows error.\<close>

fun io_other :: "windows_error \<Rightarrow> io_error" where
  "io_other (Windows_Error code msg) = Io_Error KindOther msg"

text \<open>The format \<open>{:08X}\<close>: eight upper-case hexadecimal digits.\<close>

definition hex_digit :: "nat \<Rightarrow> nat" where
  "hex_digit d = (if d < 10 then 48 + d else 55 + d)"

fun hex_digits :: "nat \<Rightarrow> nat \<Rightarrow> rstr" where
  "hex_digits 0 n = []"
| "hex_digits (Suc k) n = hex_digits k (n div 16) @ [hex_digit (n mod 16)]"

definition STATUS_OBJECT_NAME_NOT_FOUND :: i32 where "STATUS_OBJECT_NAME_NOT_FOUND = 0xC0000034"
definition STATUS_OBJECT_PATH_NOT_FOUND :: i32 where "STATUS_OBJECT_PATH_NOT_FOUND = 0xC000003A"
definition STATUS_ACCESS_DENIED :: i32 where "STATUS_ACCESS_DENIED = 0xC0000022"
definition STATUS_SHARING_VIOLATION :: i32 where "STATUS_SHARING_VIOLATION = 0xC0000043"
definition STATUS_END_OF_FILE :: i32 where "STATUS_END_OF_FILE = 0xC0000011"
definition STATUS_NOT_A_DIRECTORY :: i32 where "STATUS_NOT_A_DIRECTORY = 0xC0000103"

definition ntstatus_to_io_error :: "i32 \<Rightarrow> io_error" where
  "ntstatus_to_io_error status =
     (if status = STATUS_OBJECT_NAME_NOT_FOUND then Io_Error KindNotFound (lit ''Object name not found'')
      else if status = STATUS_OBJECT_PATH_NOT_FOUND then Io_Error KindNotFound (lit ''Path not found'')
      else if status = STATUS_ACCESS_DENIED then Io_Error KindPermissionDenied (lit ''Access denied'')
      else if status = STATUS_SHARING_VIOLATION then Io_Error KindInvalidInput (lit ''Sharing violation'')
      else Io_Error KindOther (lit ''NTSTATUS: 0x'' @ hex_digits 8 (unat status)))"

section \<open>Operations on a state\<close>

text \<open>
  An operation takes the state and returns its outcome with the new state; a failing call changes
  the state too, which the next call meets.
\<close>

type_synonym ('s, 'e, 'a) op = "'s \<Rightarrow> ('e, 'a) outcome \<times> 's"

definition return_op :: "'a \<Rightarrow> ('s, 'e, 'a) op" where
  "return_op x s = (Ok x, s)"

definition lift_op :: "('e, 'a) outcome \<Rightarrow> ('s, 'e, 'a) op" where
  "lift_op m s = (m, s)"

definition bind_op :: "('s, 'e, 'a) op \<Rightarrow> ('a \<Rightarrow> ('s, 'e, 'b) op) \<Rightarrow> ('s, 'e, 'b) op" where
  "bind_op m f s = (case m s of
       (Ok x, s') \<Rightarrow> f x s'
     | (Err e, s') \<Rightarrow> (Err e, s')
     | (Panic, s') \<Rightarrow> (Panic, s')
     | (NoFuel, s') \<Rightarrow> (NoFuel, s'))"

definition map_err_op :: "('e \<Rightarrow> 'f) \<Rightarrow> ('s, 'e, 'a) op \<Rightarrow> ('s, 'f, 'a) op" where
  "map_err_op g m s = (case m s of (r, s') \<Rightarrow> (map_err g r, s'))"

lemma op_simps [simp]:
  "return_op x s = (Ok x, s)" "lift_op r s = (r, s)"
  "m s = (Ok x, s') \<Longrightarrow> bind_op m f s = f x s'" "m s = (Err e, s') \<Longrightarrow> bind_op m f s = (Err e, s')"
  "m s = (Panic, s') \<Longrightarrow> bind_op m f s = (Panic, s')" "m s = (NoFuel, s') \<Longrightarrow> bind_op m f s = (NoFuel, s')"
  "m s = (r, s') \<Longrightarrow> map_err_op g m s = (map_err g r, s')"
  by (simp_all add: return_op_def lift_op_def bind_op_def map_err_op_def)

lemma bind_op_eq_Ok [outcome_iffs]:
  "bind_op m f s = (Ok y, t) \<longleftrightarrow> (\<exists>x s'. m s = (Ok x, s') \<and> f x s' = (Ok y, t))"
  by (auto simp: bind_op_def split: prod.splits outcome.splits)

lemma bind_op_eq_Err [outcome_iffs]:
  "bind_op m f s = (Err e, t) \<longleftrightarrow> m s = (Err e, t) \<or> (\<exists>x s'. m s = (Ok x, s') \<and> f x s' = (Err e, t))"
  by (auto simp: bind_op_def split: prod.splits outcome.splits)

lemma map_err_op_eq_Ok [outcome_iffs]: "map_err_op g m s = (Ok x, t) \<longleftrightarrow> m s = (Ok x, t)"
  by (auto simp: map_err_op_def outcome_iffs split: prod.splits)

section \<open>Times\<close>

text \<open>
  APFS counts nanoseconds since 1970, signed; Windows counts 100-nanosecond intervals since 1601.
  The division is Rust's on \<open>i64\<close>, which truncates towards zero, and the sum wraps.
\<close>

definition UNIX_EPOCH_FILETIME :: u64 where
  "UNIX_EPOCH_FILETIME = 116444736000000000"

definition apfs_time_to_filetime :: "i64 \<Rightarrow> u64" where
  "apfs_time_to_filetime apfs_time = UNIX_EPOCH_FILETIME + word_of_int (sint apfs_time sdiv 100)"

lemma sint_i64_range: "- (2 ^ 63) \<le> sint (w :: i64)" "sint (w :: i64) < 2 ^ 63"
  using sint_range_size [of w] by (simp_all add: word_size)

lemma sdiv_100_range:
  assumes "- (2 ^ 63) \<le> x" and "x < 2 ^ 63"
  shows "- 92233720368547758 \<le> x sdiv (100 :: int)" "x sdiv 100 \<le> 92233720368547758"
  using assms by (auto simp: signed_divide_int_def sgn_if)

text \<open>The sum never leaves the 64 bits, so that the two wraps cancel.\<close>

lemma filetime_value:
  "int (unat (apfs_time_to_filetime t)) = 116444736000000000 + sint t sdiv 100"
proof -
  have "0 \<le> 116444736000000000 + sint t sdiv 100" "116444736000000000 + sint t sdiv 100 < 2 ^ 64"
    using sdiv_100_range [OF sint_i64_range, of t] by simp_all
  moreover have "apfs_time_to_filetime t = word_of_int (116444736000000000 + sint t sdiv 100)"
    by (simp add: apfs_time_to_filetime_def UNIX_EPOCH_FILETIME_def)
  ultimately have "uint (apfs_time_to_filetime t) = 116444736000000000 + sint t sdiv 100"
    by (simp only: uint_word_of_int_eq) (rule take_bit_int_eq_self, simp_all)
  then show ?thesis
    by simp
qed

section \<open>UTF-16\<close>

text \<open>\<open>str::encode_utf16\<close> and \<open>OsStr::encode_wide\<close> of a \<open>str\<close>.\<close>

definition utf16_char :: "nat \<Rightarrow> u16 list" where
  "utf16_char c =
     (if c < 0x10000 then [word_of_nat c]
      else [word_of_nat (0xD800 + (c - 0x10000) div 1024), word_of_nat (0xDC00 + (c - 0x10000) mod 1024)])"

definition encode_utf16 :: "rstr \<Rightarrow> u16 list" where
  "encode_utf16 s = concat (map utf16_char s)"

definition high_surrogate :: "u16 \<Rightarrow> bool" where
  "high_surrogate u \<longleftrightarrow> 0xD800 \<le> u \<and> u < 0xDC00"

definition low_surrogate :: "u16 \<Rightarrow> bool" where
  "low_surrogate u \<longleftrightarrow> 0xDC00 \<le> u \<and> u < 0xE000"

text \<open>
  \<open>to_string_lossy\<close> of a sequence of UTF-16 units: a high surrogate followed by a low one is one
  scalar value, and every other surrogate is replaced by U+FFFD.
\<close>

fun from_utf16_lossy :: "u16 list \<Rightarrow> rstr" where
  "from_utf16_lossy [] = []"
| "from_utf16_lossy [u] = [if high_surrogate u \<or> low_surrogate u then REPLACEMENT else unat u]"
| "from_utf16_lossy (u # v # us) =
     (if high_surrogate u \<and> low_surrogate v
      then (0x10000 + (unat u - 0xD800) * 1024 + (unat v - 0xDC00)) # from_utf16_lossy us
      else (if high_surrogate u \<or> low_surrogate u then REPLACEMENT else unat u) # from_utf16_lossy (v # us))"

text \<open>\<open>utils.rs\<close>: paths to and from NUL-terminated UTF-16.\<close>

definition path_to_wide :: "rstr \<Rightarrow> u16 list" where
  "path_to_wide path = encode_utf16 path @ [0]"

definition wide_to_path :: "u16 list \<Rightarrow> rstr" where
  "wide_to_path wide = from_utf16_lossy (takeWhile (\<lambda>c. c \<noteq> 0) wide)"

section \<open>Paths survive the conversion\<close>

lemma unat_word_of_nat_u16: "n < 65536 \<Longrightarrow> unat (word_of_nat n :: u16) = n"
  by (simp add: unat_of_nat)

lemma scalar_utf16:
  assumes "is_scalar c"
  obtains (one) u where "utf16_char c = [u]" "unat u = c" "\<not> high_surrogate u" "\<not> low_surrogate u"
    | (two) u v where "utf16_char c = [u, v]" "high_surrogate u" "low_surrogate v"
        "0x10000 + (unat u - 0xD800) * 1024 + (unat v - 0xDC00) = c"
proof (cases "c < 0x10000")
  case True
  then have "unat (word_of_nat c :: u16) = c"
    by (simp add: unat_word_of_nat_u16)
  with True assms one [of "word_of_nat c"] show ?thesis
    by (auto simp: utf16_char_def high_surrogate_def low_surrogate_def word_less_nat_alt word_le_nat_alt
        is_scalar_def)
next
  case False
  define d where "d = c - 0x10000"
  have d: "c = 0x10000 + d" "d div 1024 < 1024"
    using False assms by (auto simp: d_def is_scalar_def)
  define u v where "u = (word_of_nat (0xD800 + d div 1024) :: u16)" and "v = (word_of_nat (0xDC00 + d mod 1024) :: u16)"
  have "unat u = 0xD800 + d div 1024" "unat v = 0xDC00 + d mod 1024"
    unfolding u_def v_def using d(2) by (intro unat_word_of_nat_u16; simp)+
  then show ?thesis
    using d False by (intro two [of u v])
      (simp_all add: utf16_char_def d_def [symmetric] u_def v_def high_surrogate_def
        low_surrogate_def word_less_nat_alt word_le_nat_alt)
qed

lemma from_utf16_Cons: "\<not> high_surrogate u \<Longrightarrow> \<not> low_surrogate u \<Longrightarrow>
    from_utf16_lossy (u # us) = unat u # from_utf16_lossy us"
  by (cases us) simp_all

lemma from_utf16_encode: "list_all is_scalar s \<Longrightarrow> from_utf16_lossy (encode_utf16 s) = s"
proof (induction s)
  case (Cons c s)
  then show ?case
    by (auto simp: encode_utf16_def from_utf16_Cons elim!: scalar_utf16 [of c])
qed (simp add: encode_utf16_def)

lemma utf16_nonzero:
  assumes "list_all is_scalar s" and "0 \<notin> set s"
  shows "0 \<notin> set (encode_utf16 s)"
proof
  assume "0 \<in> set (encode_utf16 s)"
  then obtain c where c: "c \<in> set s" "0 \<in> set (utf16_char c)"
    by (auto simp: encode_utf16_def)
  have "c \<noteq> 0"
    using c(1) assms(2) by metis
  moreover have "is_scalar c"
    using c(1) assms(1) by (simp add: list_all_iff)
  ultimately show False
    using c(2) by (elim scalar_utf16) (auto simp: high_surrogate_def low_surrogate_def)
qed

lemma wide_path_inverse:
  assumes "list_all is_scalar s" and "0 \<notin> set s"
  shows "wide_to_path (path_to_wide s) = s"
proof -
  have "takeWhile (\<lambda>c. c \<noteq> 0) (encode_utf16 s @ 0 # []) = encode_utf16 s"
    using utf16_nonzero [OF assms] by (subst takeWhile_tail) auto
  then show ?thesis
    using assms from_utf16_encode by (simp add: wide_to_path_def path_to_wide_def)
qed

end
