(* ===== verification/Fletcher.thy ===== *)
theory Fletcher
  imports Le_Bytes
begin

unbundle bit_operations_syntax

text \<open>
  \<open>vendor/apfs/src/fletcher.rs\<close>: the Fletcher-64 checksum that every APFS object carries, and
  its verification. The abstract specification works on lists of numbers, with the two sums in
  closed form modulo \<open>2 ^ 32 - 1\<close>.
\<close>

section \<open>The code\<close>

definition mod_val :: u64 where
  "mod_val = 0xFFFFFFFF"

text \<open>The \<open>for chunk in data.chunks_exact(4)\<close> loop: a trailing chunk of fewer bytes is dropped.\<close>

fun fletcher_loop :: "bytes \<Rightarrow> u64 \<Rightarrow> u64 \<Rightarrow> u64 \<times> u64" where
  "fletcher_loop (a # b # c # d # rest) sum1 sum2 =
     (let word = ucast (word_of_le [a, b, c, d] :: u32);
          sum1' = (sum1 + word) mod mod_val;
          sum2' = (sum2 + sum1') mod mod_val
      in fletcher_loop rest sum1' sum2')"
| "fletcher_loop _ sum1 sum2 = (sum1, sum2)"

definition fletcher64 :: "bytes \<Rightarrow> u64" where
  "fletcher64 data =
     (let (sum1, sum2) = fletcher_loop data 0 0;
          check1 = mod_val - ((sum1 + sum2) mod mod_val);
          check2 = mod_val - ((sum1 + check1) mod mod_val)
      in push_bit 32 check2 OR check1)"

definition verify_object :: "bytes \<Rightarrow> bool" where
  "verify_object block =
     (if length block < 8 then False
      else let stored = (word_of_le (take 8 block) :: u64);
               computed = fletcher64 (drop 8 block)
           in stored = computed)"

section \<open>Specification\<close>

definition M32 :: nat where
  "M32 = 2 ^ 32 - 1"

fun words32 :: "bytes \<Rightarrow> nat list" where
  "words32 (a # b # c # d # rest) = le_nat [a, b, c, d] # words32 rest"
| "words32 _ = []"

text \<open>The second sum weighs each word by its distance to the end of the data.\<close>

fun weighted_sum :: "nat list \<Rightarrow> nat" where
  "weighted_sum [] = 0"
| "weighted_sum (w # ws) = Suc (length ws) * w + weighted_sum ws"

definition spec_check1 :: "nat list \<Rightarrow> nat" where
  "spec_check1 ws = M32 - (sum_list ws + weighted_sum ws) mod M32"

definition spec_check2 :: "nat list \<Rightarrow> nat" where
  "spec_check2 ws = M32 - (sum_list ws + spec_check1 ws) mod M32"

lemma M32_value: "M32 = 4294967295"
  by (simp add: M32_def)

lemma words32_append:
  "length xs mod 4 = 0 \<Longrightarrow> words32 (xs @ ys) = words32 xs @ words32 ys"
proof (induction xs rule: words32.induct)
  case (1 a b c d rest)
  have "length (a # b # c # d # rest) mod 4 = length rest mod 4"
    by simp
  with 1 show ?case by simp
qed simp_all

lemma words32_single: "length w = 4 \<Longrightarrow> words32 w = [le_nat w]"
  by (cases w rule: words32.cases) simp_all

lemma unat_mod_val: "unat mod_val = M32"
  by (simp add: mod_val_def M32_value)

section \<open>The loop computes the sums\<close>

lemma unat_fletcher_step:
  assumes "unat s < M32" and "unat w < 2 ^ 32"
  shows "unat ((s + w) mod mod_val) = (unat s + unat w) mod M32"
  using assms
  by (simp add: unat_mod_distrib unat_mod_val unat_word_ariths M32_value)

lemma mod_sum_shift: "(a + b mod M32) mod M32 = (a + b) mod M32"
  by (simp add: mod_add_right_eq)

lemma fletcher_loop_sums:
  assumes "unat s1 < M32" and "unat s2 < M32"
  shows "unat (fst (fletcher_loop data s1 s2)) = (unat s1 + sum_list (words32 data)) mod M32
    \<and> unat (snd (fletcher_loop data s1 s2)) =
        (unat s2 + length (words32 data) * unat s1 + weighted_sum (words32 data)) mod M32"
  using assms
proof (induction data s1 s2 rule: fletcher_loop.induct)
  case (1 a b c d rest s1 s2)
  define w :: u64 where "w = ucast (word_of_le [a, b, c, d] :: u32)"
  define s1' where "s1' = (s1 + w) mod mod_val"
  define s2' where "s2' = (s2 + s1') mod mod_val"
  have w: "unat w = le_nat [a, b, c, d]"
    by (simp add: w_def unat_word_of_le_u32 del: le_nat.simps)
  then have w32: "unat w < 2 ^ 32"
    using le_nat_bound [of "[a, b, c, d]"] by simp
  have s1': "unat s1' = (unat s1 + le_nat [a, b, c, d]) mod M32"
    unfolding s1'_def using unat_fletcher_step [OF "1.prems"(1) w32] w by (simp del: le_nat.simps)
  then have s1'_less: "unat s1' < M32"
    by (simp add: M32_value)
  then have s2': "unat s2' = (unat s2 + unat s1') mod M32"
    unfolding s2'_def using unat_fletcher_step [OF "1.prems"(2)] by (simp add: M32_value)
  then have s2'_less: "unat s2' < M32"
    by (simp add: M32_value)
  note IH = "1.IH" [OF w_def s1'_def s2'_def s1'_less s2'_less]
  let ?v = "le_nat [a, b, c, d]" and ?ws = "words32 rest"
  have fst: "(unat s1' + sum_list ?ws) mod M32 = (unat s1 + (?v + sum_list ?ws)) mod M32"
    unfolding s1' by (simp add: mod_add_left_eq add.assoc del: le_nat.simps)
  have "(unat s2' + length ?ws * unat s1' + weighted_sum ?ws) mod M32 =
      (unat s2 + unat s1' + length ?ws * unat s1' + weighted_sum ?ws) mod M32"
    unfolding s2' by (metis (no_types) add.assoc mod_add_left_eq)
  also have "\<dots> = (Suc (length ?ws) * unat s1' + (unat s2 + weighted_sum ?ws)) mod M32"
    by (simp add: algebra_simps)
  also have "\<dots> = (Suc (length ?ws) * (unat s1 + ?v) + (unat s2 + weighted_sum ?ws)) mod M32"
    unfolding s1' by (metis (no_types) mod_add_left_eq mod_mult_right_eq)
  also have "\<dots> = (unat s2 + Suc (length ?ws) * unat s1 + (Suc (length ?ws) * ?v + weighted_sum ?ws)) mod M32"
    by (simp add: algebra_simps del: le_nat.simps)
  finally show ?case
    using IH fst by (simp add: w_def s1'_def s2'_def Let_def del: le_nat.simps)
qed (simp_all add: mod_less)

lemma fletcher_loop_start:
  "unat (fst (fletcher_loop data 0 0)) = sum_list (words32 data) mod M32"
  "unat (snd (fletcher_loop data 0 0)) = weighted_sum (words32 data) mod M32"
  using fletcher_loop_sums [of 0 0 data] by (simp_all add: M32_value)

section \<open>The checksum in closed form\<close>

lemma or_push_bit_32:
  assumes "unat (b :: u64) < 2 ^ 32"
  shows "push_bit 32 a OR b = push_bit 32 a + b"
proof -
  have "b = take_bit 32 b"
    using take_bit_nat_eq_self [OF assms] by (simp add: word_unat_eq_iff unsigned_take_bit_eq)
  then have "push_bit 32 a AND b = 0"
    by (metis (no_types, lifting) bit_and_iff bit_eq_iff bit_push_bit_iff bit_take_bit_iff bit_0_eq bot_apply linorder_not_le bot_bool_def)
  then show ?thesis
    by (simp add: disjunctive_add_eq_or)
qed

lemma spec_check_bounds:
  "0 < spec_check1 ws" "spec_check1 ws \<le> M32" "0 < spec_check2 ws" "spec_check2 ws \<le> M32"
  by (simp_all add: spec_check1_def spec_check2_def M32_value)

text \<open>A check value is the residue that brings its sum to a multiple of the modulus.\<close>

lemma neg_mod_unat:
  assumes "unat (x :: u64) < 2 ^ 63"
  shows "unat (mod_val - x mod mod_val) = M32 - unat x mod M32"
proof -
  have "unat (x mod mod_val) = unat x mod M32"
    by (simp add: unat_mod_distrib unat_mod_val)
  moreover have "unat x mod M32 \<le> M32"
    by (simp add: M32_value)
  ultimately show ?thesis
    by (simp add: unat_sub unat_mod_val word_le_nat_alt)
qed

lemma unat_fletcher_checks:
  fixes data :: bytes
  defines "s1 \<equiv> fst (fletcher_loop data 0 0)" and "s2 \<equiv> snd (fletcher_loop data 0 0)"
  defines "c1 \<equiv> mod_val - (s1 + s2) mod mod_val"
  shows "unat c1 = spec_check1 (words32 data)"
    and "unat (mod_val - (s1 + c1) mod mod_val) = spec_check2 (words32 data)"
proof -
  have s: "unat s1 = sum_list (words32 data) mod M32" "unat s2 = weighted_sum (words32 data) mod M32"
    unfolding s1_def s2_def by (rule fletcher_loop_start)+
  then have less: "unat s1 < M32" "unat s2 < M32"
    by (simp_all add: M32_value)
  then have add: "unat (s1 + s2) = unat s1 + unat s2"
    by (intro unat_add_no_wrap) (simp add: M32_value)
  then show c1: "unat c1 = spec_check1 (words32 data)"
    unfolding c1_def using less
    by (subst neg_mod_unat) (simp_all add: M32_value spec_check1_def s mod_simps)
  then have "unat c1 \<le> M32"
    using spec_check_bounds(2) by simp
  then have "unat (s1 + c1) = unat s1 + unat c1"
    using less by (intro unat_add_no_wrap) (simp add: M32_value)
  then show "unat (mod_val - (s1 + c1) mod mod_val) = spec_check2 (words32 data)"
    using less \<open>unat c1 \<le> M32\<close>
    by (subst neg_mod_unat) (simp_all add: M32_value spec_check2_def s c1 mod_simps)
qed

lemma fletcher64_value:
  "unat (fletcher64 data) = spec_check2 (words32 data) * 2 ^ 32 + spec_check1 (words32 data)"
proof -
  define s1 s2 where "s1 = fst (fletcher_loop data 0 0)" and "s2 = snd (fletcher_loop data 0 0)"
  define c1 where "c1 = mod_val - (s1 + s2) mod mod_val"
  define c2 where "c2 = mod_val - (s1 + c1) mod mod_val"
  have c: "unat c1 = spec_check1 (words32 data)" "unat c2 = spec_check2 (words32 data)"
    unfolding c1_def c2_def s1_def s2_def by (rule unat_fletcher_checks)+
  have "fletcher64 data = push_bit 32 c2 + c1"
    using spec_check_bounds(2) [of "words32 data"] c(1)
    by (simp add: fletcher64_def Let_def case_prod_unfold or_push_bit_32 M32_value
          flip: s1_def s2_def c1_def c2_def)
  moreover have "unat (push_bit 32 c2) = unat c2 * 2 ^ 32"
    using spec_check_bounds(4) [of "words32 data"] c(2)
    by (simp add: push_bit_eq_mult unat_word_ariths M32_value)
  ultimately show ?thesis
    using spec_check_bounds [of "words32 data"] c by (simp add: unat_word_ariths M32_value)
qed

text \<open>
  The checksum of any data is the pair of check words of the specification, the second one
  in the upper half: the two running sums are the plain and the position-weighted sum of the
  32-bit little-endian words modulo \<open>2 ^ 32 - 1\<close>, and no step of the 64-bit loop overflows.
\<close>

theorem fletcher64_closed_form:
  "unat (fletcher64 data) = spec_check2 (words32 data) * 2 ^ 32 + spec_check1 (words32 data)"
  by (rule fletcher64_value)

lemma fletcher64_eval:
  "fletcher64 data = word_of_nat (spec_check2 (words32 data) * 2 ^ 32 + spec_check1 (words32 data))"
  by (simp only: fletcher64_value [symmetric] of_nat_unat ucast_id)

section \<open>What the checksum guarantees\<close>

lemma spec_checks_cancel:
  "(sum_list ws + weighted_sum ws + spec_check1 ws) mod M32 = 0"
  "(sum_list ws + spec_check1 ws + spec_check2 ws) mod M32 = 0"
proof -
  have cancel: "(a + (m - a mod m)) mod m = 0" if "0 < m" for a m :: nat
  proof -
    have "a mod m < m"
      using that by simp
    then have "(a mod m + (m - a mod m)) mod m = 0"
      by simp
    then show ?thesis
      by (simp add: mod_add_left_eq)
  qed
  have "0 < M32"
    by (simp add: M32_value)
  from cancel [OF this] show "(sum_list ws + weighted_sum ws + spec_check1 ws) mod M32 = 0"
    "(sum_list ws + spec_check1 ws + spec_check2 ws) mod M32 = 0"
    by (simp_all add: spec_check1_def spec_check2_def)
qed

lemma weighted_sum_append:
  "weighted_sum (xs @ ys) = weighted_sum xs + length ys * sum_list xs + weighted_sum ys"
  by (induction xs) (auto simp: algebra_simps)

text \<open>
  The check words are the ones that bring both running sums back to zero: the loop run over
  the data followed by its two check words, low word first, ends in \<open>(0, 0)\<close>.
\<close>

theorem fletcher_self_check:
  assumes "length data mod 4 = 0"
  shows "fletcher_loop (data @ to_le 4 (unat (fletcher64 data) mod 2 ^ 32)
                             @ to_le 4 (unat (fletcher64 data) div 2 ^ 32)) 0 0 = (0, 0)"
proof -
  define ws where "ws = words32 data"
  note b = spec_check_bounds [of ws]
  have "unat (fletcher64 data) = spec_check2 ws * 2 ^ 32 + spec_check1 ws"
    unfolding ws_def by (rule fletcher64_value)
  then have low: "unat (fletcher64 data) mod 2 ^ 32 = spec_check1 ws"
    and high: "unat (fletcher64 data) div 2 ^ 32 = spec_check2 ws"
    using b by (simp_all add: M32_value)
  let ?all = "data @ to_le 4 (spec_check1 ws) @ to_le 4 (spec_check2 ws)"
  have all: "words32 ?all = ws @ [spec_check1 ws, spec_check2 ws]"
    using assms b
    by (simp add: words32_append words32_single ws_def [symmetric] M32_value del: to_le.simps)
  have "unat (fst (fletcher_loop ?all 0 0)) = (sum_list ws + spec_check1 ws + spec_check2 ws) mod M32"
    by (simp add: fletcher_loop_start all add.assoc)
  moreover have "unat (snd (fletcher_loop ?all 0 0)) =
      ((sum_list ws + weighted_sum ws + spec_check1 ws) + (sum_list ws + spec_check1 ws + spec_check2 ws)) mod M32"
    by (simp add: fletcher_loop_start all weighted_sum_append algebra_simps)
  ultimately have "unat (fst (fletcher_loop ?all 0 0)) = 0" "unat (snd (fletcher_loop ?all 0 0)) = 0"
    using spec_checks_cancel [of ws] by (simp_all only: mod_eq_0_iff_dvd dvd_add)
  then show ?thesis
    unfolding low high by (simp add: prod_eq_iff unat_eq_0)
qed

theorem fletcher_self_check_witness:
  "fletcher_loop ([1, 0, 0, 0, 2, 0, 0, 0] @ [248, 255, 255, 255] @ [4, 0, 0, 0]) 0 0 = (0, 0)"
  using fletcher_self_check [of "[1, 0, 0, 0, 2, 0, 0, 0]"]
  by (simp add: fletcher64_value spec_check1_def spec_check2_def M32_value to_le_4 del: fletcher_loop.simps)

text \<open>
  Storing the checksum of a body in front of it makes an object that verifies, for every
  body (the round trip of \<open>test_verify_object_valid\<close>).
\<close>

theorem verify_sealed_object:
  "verify_object (le64 (fletcher64 body) @ body)"
  by (simp add: verify_object_def)

lemma verify_object_sealed:
  assumes "length hdr = 8"
  shows "verify_object (hdr @ body) \<longleftrightarrow> word_of_le hdr = fletcher64 body"
  using assms by (simp add: verify_object_def)

text \<open>Equal checksums mean congruent sums: from the lower half the total, from the upper half the plain sum.\<close>

lemma fletcher64_eq_sums:
  assumes "fletcher64 d = fletcher64 d'"
  shows "sum_list (words32 d) mod M32 = sum_list (words32 d') mod M32"
proof -
  define ws ws' where "ws = words32 d" and "ws' = words32 d'"
  note b = spec_check_bounds [of ws] spec_check_bounds [of ws']
  have eq: "spec_check2 ws * 2 ^ 32 + spec_check1 ws = spec_check2 ws' * 2 ^ 32 + spec_check1 ws'"
    using assms fletcher64_value [of d] fletcher64_value [of d'] by (simp add: ws_def ws'_def)
  then have "(spec_check2 ws * 2 ^ 32 + spec_check1 ws) mod 2 ^ 32 = (spec_check2 ws' * 2 ^ 32 + spec_check1 ws') mod 2 ^ 32"
    by simp
  then have c1: "spec_check1 ws = spec_check1 ws'"
    using b by (simp add: M32_value)
  with eq have "spec_check2 ws = spec_check2 ws'"
    by simp
  moreover have "(x :: nat) mod M32 \<le> M32" for x
    by (simp add: M32_value)
  ultimately have "(sum_list ws + spec_check1 ws) mod M32 = (sum_list ws' + spec_check1 ws) mod M32"
    unfolding spec_check2_def c1 by (metis diff_diff_cancel)
  then show ?thesis
    unfolding ws_def ws'_def by (rule mod_add_cancel_right)
qed

text \<open>
  C24: any change of one aligned 32-bit word of a valid object is detected, unless it swaps the
  two representations of zero modulo \<open>2 ^ 32 - 1\<close>.
\<close>

theorem verify_detects_word_change:
  assumes valid: "verify_object (hdr @ pre @ w @ post)"
    and len: "length hdr = 8" "length pre mod 4 = 0" "length w = 4" "length w' = 4"
    and change: "le_nat w mod M32 \<noteq> le_nat w' mod M32"
  shows "\<not> verify_object (hdr @ pre @ w' @ post)"
proof
  assume "verify_object (hdr @ pre @ w' @ post)"
  with valid have "fletcher64 (pre @ w @ post) = fletcher64 (pre @ w' @ post)"
    using len by (simp add: verify_object_sealed)
  then have "sum_list (words32 (pre @ w @ post)) mod M32 = sum_list (words32 (pre @ w' @ post)) mod M32"
    by (rule fletcher64_eq_sums)
  then have "(le_nat w + (sum_list (words32 pre) + sum_list (words32 post))) mod M32 =
      (le_nat w' + (sum_list (words32 pre) + sum_list (words32 post))) mod M32"
    using len by (simp add: words32_append words32_single algebra_simps)
  with change show False
    using mod_add_cancel_right by blast
qed

theorem verify_detects_word_change_witness:
  "verify_object ([255, 255, 255, 255, 255, 255, 255, 255] @ [] @ [0, 0, 0, 0] @ [])
   \<and> \<not> verify_object ([255, 255, 255, 255, 255, 255, 255, 255] @ [] @ [1, 0, 0, 0] @ [])"
proof -
  have v: "verify_object ([255, 255, 255, 255, 255, 255, 255, 255] @ [] @ [0, 0, 0, 0] @ [])"
    by (simp add: verify_object_def word_of_le_def fletcher64_eval spec_check1_def spec_check2_def M32_value)
  show ?thesis
    using v verify_detects_word_change [OF v, of "[1, 0, 0, 0]"] by (simp add: M32_value)
qed

end
