(* ===== verification/Objects.thy ===== *)
theory Objects
  imports Fletcher
begin

text \<open>
  \<open>vendor/apfs/src/object.rs\<close>: the 32-byte header of every object and the two block readers.

  The crate is generic in a reader \<open>R: Read + Seek\<close>. Every access it makes is a \<open>seek\<close> to an
  absolute position followed by one \<open>read_exact\<close>, so a reader of a medium that does not change
  is two functions: what \<open>seek(SeekFrom::Start(o))\<close> returns, and what \<open>read_exact\<close> of \<open>n\<close> bytes
  returns right after it. \<open>Disk_Correct\<close> shows that the program's own stateful reader is one of these.
\<close>

section \<open>Readers\<close>

record reader =
  rd_seek :: "u64 \<Rightarrow> (io_error, unit) outcome"
  rd_read_exact :: "u64 \<Rightarrow> nat \<Rightarrow> (io_error, bytes) outcome"

definition seek_start :: "reader \<Rightarrow> u64 \<Rightarrow> unit apfs_result" where
  "seek_start rd offset = map_err Io (rd_seek rd offset)"

definition read_exact :: "reader \<Rightarrow> u64 \<Rightarrow> nat \<Rightarrow> bytes apfs_result" where
  "read_exact rd offset n = map_err Io (rd_read_exact rd offset n)"

text \<open>
  What \<open>Read\<close> and \<open>Seek\<close> promise: neither panics, and a successful \<open>read_exact\<close> has filled the
  whole buffer.
\<close>

definition reader_ok :: "reader \<Rightarrow> bool" where
  "reader_ok rd \<longleftrightarrow>
     (\<forall>o'. rd_seek rd o' \<noteq> Panic \<and> rd_seek rd o' \<noteq> NoFuel) \<and>
     (\<forall>o' n. rd_read_exact rd o' n \<noteq> Panic \<and> rd_read_exact rd o' n \<noteq> NoFuel) \<and>
     (\<forall>o' n bs. rd_read_exact rd o' n = Ok bs \<longrightarrow> length bs = n)"

text \<open>The reader over an image held in memory (\<open>Cursor<Vec<u8>>\<close>, or a file).\<close>

definition image_reader :: "bytes \<Rightarrow> reader" where
  "image_reader img =
     \<lparr>rd_seek = (\<lambda>_. Ok ()),
      rd_read_exact = (\<lambda>o' n. if unat o' + n \<le> length img then Ok (take n (drop (unat o') img))
                             else Err unexpected_eof)\<rparr>"

lemma image_reader_ok [simp]: "reader_ok (image_reader img)"
  by (auto simp: reader_ok_def image_reader_def)

lemma seek_start_no_panic [no_panic_intros]: "reader_ok rd \<Longrightarrow> no_panic (seek_start rd a)"
  by (simp add: seek_start_def reader_ok_def map_err_no_panic no_panic_def outcome_iffs)

lemma read_exact_no_panic [no_panic_intros]: "reader_ok rd \<Longrightarrow> no_panic (read_exact rd a n)"
  by (simp add: read_exact_def reader_ok_def map_err_no_panic no_panic_def outcome_iffs)

lemma read_exact_length: "reader_ok rd \<Longrightarrow> read_exact rd a n = Ok bs \<Longrightarrow> length bs = n"
  by (auto simp: read_exact_def reader_ok_def outcome_iffs)

lemma reader_no_fuel:
  "reader_ok rd \<Longrightarrow> seek_start rd a \<noteq> NoFuel" "reader_ok rd \<Longrightarrow> read_exact rd a n \<noteq> NoFuel"
  by (simp_all add: seek_start_def read_exact_def reader_ok_def outcome_iffs)

text \<open>
  A reader over an image: every seek and read inside it succeeds and the read returns its bytes;
  \<open>reads_upto\<close> asks it only of reads of at most \<open>lim\<close> bytes.
\<close>

definition reads_upto :: "nat \<Rightarrow> reader \<Rightarrow> bytes \<Rightarrow> bool" where
  "reads_upto lim rd img \<longleftrightarrow> (\<forall>pos n. n \<le> lim \<longrightarrow> unat pos + n \<le> length img \<longrightarrow>
     rd_seek rd pos = Ok () \<and> rd_read_exact rd pos n = Ok (take n (drop (unat pos) img)))"

definition reads_image :: "reader \<Rightarrow> bytes \<Rightarrow> bool" where
  "reads_image rd img \<longleftrightarrow> (\<forall>pos n. unat pos + n \<le> length img \<longrightarrow>
     rd_seek rd pos = Ok () \<and> rd_read_exact rd pos n = Ok (take n (drop (unat pos) img)))"

lemma image_reader_reads [simp]: "reads_image (image_reader img) img"
  by (simp add: reads_image_def image_reader_def)

lemma reads_image_upto [simp]: "reads_image rd img \<Longrightarrow> reads_upto lim rd img"
  by (simp add: reads_image_def reads_upto_def)

lemma reads_upto_at:
  "reads_upto lim rd img \<Longrightarrow> n \<le> lim \<Longrightarrow> unat pos + n \<le> length img \<Longrightarrow> rd_seek rd pos = Ok ()"
  "reads_upto lim rd img \<Longrightarrow> n \<le> lim \<Longrightarrow> unat pos + n \<le> length img \<Longrightarrow>
    rd_read_exact rd pos n = Ok (take n (drop (unat pos) img))"
  by (auto simp: reads_upto_def)

lemma reads_image_at:
  "reads_image rd img \<Longrightarrow> unat pos + n \<le> length img \<Longrightarrow> rd_seek rd pos = Ok ()"
  "reads_image rd img \<Longrightarrow> unat pos + n \<le> length img \<Longrightarrow> rd_read_exact rd pos n = Ok (take n (drop (unat pos) img))"
  by (auto simp: reads_image_def)

section \<open>Object headers\<close>

definition OBJECT_TYPE_NX_SUPERBLOCK :: u32 where "OBJECT_TYPE_NX_SUPERBLOCK = 0x01"
definition OBJ_PHYSICAL :: u32 where "OBJ_PHYSICAL = 0x00000000"
definition OBJ_STORAGE_TYPE_MASK :: u32 where "OBJ_STORAGE_TYPE_MASK = 0xC0000000"
definition OBJECT_TYPE_MASK :: u32 where "OBJECT_TYPE_MASK = 0x0000FFFF"

record object_header =
  oh_checksum :: u64
  oh_oid :: u64
  oh_xid :: u64
  oh_type_and_flags :: u32
  oh_subtype :: u32

definition OBJECT_HEADER_SIZE :: nat where
  "OBJECT_HEADER_SIZE = 32"

definition parse_object_header :: "bytes \<Rightarrow> object_header apfs_result" where
  "parse_object_header data =
     (if length data < OBJECT_HEADER_SIZE
      then Err (CorruptedData (lit ''object header too short: '' @ dec (length data) @ lit '' bytes''))
      else
        and_then (read_u64 data) (\<lambda>(checksum, c).
        and_then (read_u64 c) (\<lambda>(oid, c).
        and_then (read_u64 c) (\<lambda>(xid, c).
        and_then (read_u32 c) (\<lambda>(type_and_flags, c).
        and_then (read_u32 c) (\<lambda>(subtype, c).
          Ok \<lparr>oh_checksum = checksum, oh_oid = oid, oh_xid = xid,
              oh_type_and_flags = type_and_flags, oh_subtype = subtype\<rparr>))))))"

definition object_type :: "object_header \<Rightarrow> u32" where
  "object_type h = oh_type_and_flags h AND OBJECT_TYPE_MASK"

definition storage_type :: "object_header \<Rightarrow> u32" where
  "storage_type h = oh_type_and_flags h AND OBJ_STORAGE_TYPE_MASK"

definition is_physical :: "object_header \<Rightarrow> bool" where
  "is_physical h \<longleftrightarrow> storage_type h = OBJ_PHYSICAL"

section \<open>Block readers\<close>

definition read_object :: "reader \<Rightarrow> u64 \<Rightarrow> u32 \<Rightarrow> (object_header \<times> bytes) apfs_result" where
  "read_object rd block_number block_size =
     (let offset = block_number * ucast block_size in
        and_then (seek_start rd offset) (\<lambda>_.
        and_then (read_exact rd offset (unat block_size)) (\<lambda>block.
        if \<not> verify_object block then Err InvalidChecksum
        else and_then (parse_object_header block) (\<lambda>header. Ok (header, block)))))"

definition read_block :: "reader \<Rightarrow> u64 \<Rightarrow> u32 \<Rightarrow> bytes apfs_result" where
  "read_block rd block_number block_size =
     (let offset = block_number * ucast block_size in
        and_then (seek_start rd offset) (\<lambda>_.
        read_exact rd offset (unat block_size)))"

section \<open>Properties\<close>

lemma parse_object_header_at:
  "32 \<le> length data \<Longrightarrow>
   parse_object_header data =
     Ok \<lparr>oh_checksum = u64_at data 0, oh_oid = u64_at data 8, oh_xid = u64_at data 16,
         oh_type_and_flags = u32_at data 24, oh_subtype = u32_at data 28\<rparr>"
  by (simp add: parse_object_header_def OBJECT_HEADER_SIZE_def cursor_at)

lemma parse_object_header_no_panic [no_panic_intros]: "no_panic (parse_object_header data)"
  by (auto simp: parse_object_header_def intro!: no_panic_intros)

lemma parse_object_header_Ok_iff: "is_ok (parse_object_header data) \<longleftrightarrow> 32 \<le> length data"
  by (cases "32 \<le> length data")
    (simp_all add: parse_object_header_at, simp add: parse_object_header_def OBJECT_HEADER_SIZE_def)

text \<open>The on-disk form of a header, which the code only reads.\<close>

definition encode_object_header :: "object_header \<Rightarrow> bytes" where
  "encode_object_header h =
     le64 (oh_checksum h) @ le64 (oh_oid h) @ le64 (oh_xid h) @ le32 (oh_type_and_flags h) @ le32 (oh_subtype h)"

lemma length_encode_object_header [simp]: "length (encode_object_header h) = 32"
  by (simp add: encode_object_header_def)

text \<open>
  A header laid out in its on-disk form at the start of a block is read back field by field,
  whatever follows it.
\<close>

theorem object_header_roundtrip:
  "parse_object_header (encode_object_header h @ rest) = Ok h"
  by (simp add: parse_object_header_def OBJECT_HEADER_SIZE_def encode_object_header_def cursor_enc)

text \<open>The type and the storage bits of a header are independent parts of \<open>type_and_flags\<close>.\<close>

lemma object_type_bound: "unat (object_type h) < 2 ^ 16"
proof -
  have "object_type h = take_bit 16 (oh_type_and_flags h)"
    by (simp add: object_type_def OBJECT_TYPE_MASK_def take_bit_eq_mask mask_eq_exp_minus_1)
  then show ?thesis
    by (simp only: unsigned_take_bit_eq take_bit_nat_less_exp)
qed

lemma read_object_no_panic [no_panic_intros]: "reader_ok rd \<Longrightarrow> no_panic (read_object rd b bs)"
  by (auto simp: read_object_def Let_def intro!: no_panic_intros)

text \<open>
  \<open>read_object\<close> returns only blocks whose stored checksum is the checksum of the rest of the
  block, of the requested size, together with the header parsed from that very block.
\<close>

theorem read_object_verified:
  assumes "reader_ok rd" and "read_object rd b bs = Ok (h, block)"
  shows "verify_object block \<and> length block = unat bs \<and> parse_object_header block = Ok h
      \<and> read_block rd b bs = Ok block"
  using assms(2) read_exact_length [OF assms(1)]
  by (auto simp: read_object_def read_block_def Let_def outcome_iffs split: if_splits)

theorem read_object_verified_witness:
  "let block = le64 (fletcher64 (replicate 24 0)) @ replicate 24 0 in
     verify_object block \<and> length block = 32 \<and> read_block (image_reader block) 0 32 = Ok block"
proof -
  define block where "block = le64 (fletcher64 (replicate 24 0)) @ replicate 24 0"
  have len: "length block = 32" and verified: "verify_object block"
    by (simp_all add: block_def verify_object_sealed del: replicate.simps)
  obtain h where h: "parse_object_header block = Ok h"
    using parse_object_header_Ok_iff [of block] len by (auto simp: is_ok_iff)
  have "read_object (image_reader block) 0 32 = Ok (h, block)"
    using len verified h
    by (simp add: read_object_def seek_start_def read_exact_def image_reader_def Let_def)
  from read_object_verified [OF image_reader_ok this] show ?thesis
    using len by (simp add: block_def Let_def)
qed

lemma read_block_length: "reader_ok rd \<Longrightarrow> read_block rd b bs = Ok block \<Longrightarrow> length block = unat bs"
  by (auto simp: read_block_def Let_def outcome_iffs dest: read_exact_length)

lemma read_block_no_panic [no_panic_intros]: "reader_ok rd \<Longrightarrow> no_panic (read_block rd b bs)"
  by (auto simp: read_block_def Let_def intro!: no_panic_intros)

lemma read_block_no_fuel: "reader_ok rd \<Longrightarrow> read_block rd b bs \<noteq> NoFuel"
  by (auto simp: read_block_def Let_def outcome_iffs reader_no_fuel)

end
