(* ===== verification/Superblock.thy ===== *)
theory Superblock
  imports Objects Rust_Strings
begin

text \<open>
  \<open>vendor/apfs/src/superblock.rs\<close>: the container superblock (NXSB), the volume superblock
  (APSB), and the choice of the latest valid checkpoint.
\<close>

definition NX_MAGIC :: u32 where "NX_MAGIC = 0x4253584E"
definition APSB_MAGIC :: u32 where "APSB_MAGIC = 0x42535041"
definition NX_MAX_FILE_SYSTEMS :: nat where "NX_MAX_FILE_SYSTEMS = 100"

section \<open>Container superblock\<close>

record nx_superblock =
  nx_header :: object_header
  nx_magic :: u32
  nx_block_size :: u32
  nx_block_count :: u64
  nx_features :: u64
  nx_readonly_compatible_features :: u64
  nx_incompatible_features :: u64
  nx_uuid :: bytes
  nx_next_oid :: u64
  nx_next_xid :: u64
  nx_xp_desc_blocks :: u32
  nx_xp_data_blocks :: u32
  nx_xp_desc_base :: u64
  nx_xp_data_base :: u64
  nx_xp_desc_next :: u32
  nx_xp_data_next :: u32
  nx_xp_desc_index :: u32
  nx_xp_desc_len :: u32
  nx_xp_data_index :: u32
  nx_xp_data_len :: u32
  nx_spaceman_oid :: u64
  nx_omap_oid :: u64
  nx_reaper_oid :: u64
  nx_max_file_systems :: u32
  nx_fs_oids :: "u64 list"

text \<open>\<open>for _ in 0..n { v.push(cursor.read_u64()?) }\<close>\<close>

fun read_u64s :: "nat \<Rightarrow> cursor \<Rightarrow> (u64 list \<times> cursor) apfs_result" where
  "read_u64s 0 c = Ok ([], c)"
| "read_u64s (Suc n) c =
     and_then (read_u64 c) (\<lambda>(v, c').
     and_then (read_u64s n c') (\<lambda>(vs, c''). Ok (v # vs, c'')))"

definition parse_nx_superblock :: "bytes \<Rightarrow> nx_superblock apfs_result" where
  "parse_nx_superblock block =
     and_then (parse_object_header block) (\<lambda>header.
       and_then (read_u32 (drop OBJECT_HEADER_SIZE block)) (\<lambda>(magic, c).
       if magic \<noteq> NX_MAGIC then Err (InvalidMagic magic) else
       and_then (read_u32 c) (\<lambda>(block_size, c).
       and_then (read_u64 c) (\<lambda>(block_count, c).
       and_then (read_u64 c) (\<lambda>(features, c).
       and_then (read_u64 c) (\<lambda>(readonly_compatible_features, c).
       and_then (read_u64 c) (\<lambda>(incompatible_features, c).
       and_then (read_bytes 16 c) (\<lambda>(uuid, c).
       and_then (read_u64 c) (\<lambda>(next_oid, c).
       and_then (read_u64 c) (\<lambda>(next_xid, c).
       and_then (read_u32 c) (\<lambda>(xp_desc_blocks, c).
       and_then (read_u32 c) (\<lambda>(xp_data_blocks, c).
       and_then (read_u64 c) (\<lambda>(xp_desc_base, c).
       and_then (read_u64 c) (\<lambda>(xp_data_base, c).
       and_then (read_u32 c) (\<lambda>(xp_desc_next, c).
       and_then (read_u32 c) (\<lambda>(xp_data_next, c).
       and_then (read_u32 c) (\<lambda>(xp_desc_index, c).
       and_then (read_u32 c) (\<lambda>(xp_desc_len, c).
       and_then (read_u32 c) (\<lambda>(xp_data_index, c).
       and_then (read_u32 c) (\<lambda>(xp_data_len, c).
       and_then (read_u64 c) (\<lambda>(spaceman_oid, c).
       and_then (read_u64 c) (\<lambda>(omap_oid, c).
       and_then (read_u64 c) (\<lambda>(reaper_oid, c).
       and_then (read_u32 c) (\<lambda>(_, c).
       and_then (read_u32 c) (\<lambda>(max_file_systems, c).
       let fs_count = min (unat max_file_systems) NX_MAX_FILE_SYSTEMS in
       and_then (read_u64s fs_count c) (\<lambda>(fs_oids, c).
         Ok \<lparr>nx_header = header, nx_magic = magic, nx_block_size = block_size,
             nx_block_count = block_count, nx_features = features,
             nx_readonly_compatible_features = readonly_compatible_features,
             nx_incompatible_features = incompatible_features, nx_uuid = uuid,
             nx_next_oid = next_oid, nx_next_xid = next_xid, nx_xp_desc_blocks = xp_desc_blocks,
             nx_xp_data_blocks = xp_data_blocks, nx_xp_desc_base = xp_desc_base,
             nx_xp_data_base = xp_data_base, nx_xp_desc_next = xp_desc_next,
             nx_xp_data_next = xp_data_next, nx_xp_desc_index = xp_desc_index,
             nx_xp_desc_len = xp_desc_len, nx_xp_data_index = xp_data_index,
             nx_xp_data_len = xp_data_len, nx_spaceman_oid = spaceman_oid,
             nx_omap_oid = omap_oid, nx_reaper_oid = reaper_oid,
             nx_max_file_systems = max_file_systems, nx_fs_oids = fs_oids\<rparr>))))))))))))))))))))))))))"

section \<open>Volume superblock\<close>

record apfs_superblock =
  ap_header :: object_header
  ap_magic :: u32
  ap_fs_index :: u32
  ap_features :: u64
  ap_readonly_compatible_features :: u64
  ap_incompatible_features :: u64
  ap_unmount_time :: u64
  ap_fs_reserve_block_count :: u64
  ap_fs_quota_block_count :: u64
  ap_fs_alloc_count :: u64
  ap_root_tree_type :: u32
  ap_extentref_tree_type :: u32
  ap_snap_meta_tree_type :: u32
  ap_omap_oid :: u64
  ap_root_tree_oid :: u64
  ap_extentref_tree_oid :: u64
  ap_snap_meta_tree_oid :: u64
  ap_revert_to_xid :: u64
  ap_revert_to_sblock_oid :: u64
  ap_next_obj_id :: u64
  ap_num_files :: u64
  ap_num_directories :: u64
  ap_num_symlinks :: u64
  ap_num_other_fsobjects :: u64
  ap_num_snapshots :: u64
  ap_total_blocks_alloced :: u64
  ap_total_blocks_freed :: u64
  ap_uuid :: bytes
  ap_last_mod_time :: u64
  ap_fs_flags :: u64
  ap_volume_name :: rstr

text \<open>The bytes before the first NUL, all of them when there is none.\<close>

definition until_nul :: "bytes \<Rightarrow> bytes" where
  "until_nul bs = takeWhile (\<lambda>b. b \<noteq> 0) bs"

text \<open>
  The code reads the eight 48-byte entries of \<open>modified_by\<close> in a loop and drops them; here they
  are one read of 384 bytes.
\<close>

definition parse_apfs_superblock :: "bytes \<Rightarrow> apfs_superblock apfs_result" where
  "parse_apfs_superblock block =
     and_then (parse_object_header block) (\<lambda>header.
       and_then (read_u32 (drop OBJECT_HEADER_SIZE block)) (\<lambda>(magic, c).
       if magic \<noteq> APSB_MAGIC then Err (InvalidMagic magic) else
       and_then (read_u32 c) (\<lambda>(fs_index, c).
       and_then (read_u64 c) (\<lambda>(features, c).
       and_then (read_u64 c) (\<lambda>(readonly_compatible_features, c).
       and_then (read_u64 c) (\<lambda>(incompatible_features, c).
       and_then (read_u64 c) (\<lambda>(unmount_time, c).
       and_then (read_u64 c) (\<lambda>(fs_reserve_block_count, c).
       and_then (read_u64 c) (\<lambda>(fs_quota_block_count, c).
       and_then (read_u64 c) (\<lambda>(fs_alloc_count, c).
       and_then (read_bytes 20 c) (\<lambda>(_, c).
       and_then (read_u32 c) (\<lambda>(root_tree_type, c).
       and_then (read_u32 c) (\<lambda>(extentref_tree_type, c).
       and_then (read_u32 c) (\<lambda>(snap_meta_tree_type, c).
       and_then (read_u64 c) (\<lambda>(omap_oid, c).
       and_then (read_u64 c) (\<lambda>(root_tree_oid, c).
       and_then (read_u64 c) (\<lambda>(extentref_tree_oid, c).
       and_then (read_u64 c) (\<lambda>(snap_meta_tree_oid, c).
       and_then (read_u64 c) (\<lambda>(revert_to_xid, c).
       and_then (read_u64 c) (\<lambda>(revert_to_sblock_oid, c).
       and_then (read_u64 c) (\<lambda>(next_obj_id, c).
       and_then (read_u64 c) (\<lambda>(num_files, c).
       and_then (read_u64 c) (\<lambda>(num_directories, c).
       and_then (read_u64 c) (\<lambda>(num_symlinks, c).
       and_then (read_u64 c) (\<lambda>(num_other_fsobjects, c).
       and_then (read_u64 c) (\<lambda>(num_snapshots, c).
       and_then (read_u64 c) (\<lambda>(total_blocks_alloced, c).
       and_then (read_u64 c) (\<lambda>(total_blocks_freed, c).
       and_then (read_bytes 16 c) (\<lambda>(uuid, c).
       and_then (read_u64 c) (\<lambda>(last_mod_time, c).
       and_then (read_u64 c) (\<lambda>(fs_flags, c).
       and_then (read_bytes 48 c) (\<lambda>(_, c).
       and_then (read_bytes 384 c) (\<lambda>(_, c).
       and_then (read_bytes 256 c) (\<lambda>(name_buf, c).
       let volume_name = from_utf8_lossy (until_nul name_buf) in
         Ok \<lparr>ap_header = header, ap_magic = magic, ap_fs_index = fs_index,
             ap_features = features,
             ap_readonly_compatible_features = readonly_compatible_features,
             ap_incompatible_features = incompatible_features, ap_unmount_time = unmount_time,
             ap_fs_reserve_block_count = fs_reserve_block_count,
             ap_fs_quota_block_count = fs_quota_block_count, ap_fs_alloc_count = fs_alloc_count,
             ap_root_tree_type = root_tree_type, ap_extentref_tree_type = extentref_tree_type,
             ap_snap_meta_tree_type = snap_meta_tree_type, ap_omap_oid = omap_oid,
             ap_root_tree_oid = root_tree_oid, ap_extentref_tree_oid = extentref_tree_oid,
             ap_snap_meta_tree_oid = snap_meta_tree_oid, ap_revert_to_xid = revert_to_xid,
             ap_revert_to_sblock_oid = revert_to_sblock_oid, ap_next_obj_id = next_obj_id,
             ap_num_files = num_files, ap_num_directories = num_directories,
             ap_num_symlinks = num_symlinks, ap_num_other_fsobjects = num_other_fsobjects,
             ap_num_snapshots = num_snapshots, ap_total_blocks_alloced = total_blocks_alloced,
             ap_total_blocks_freed = total_blocks_freed, ap_uuid = uuid,
             ap_last_mod_time = last_mod_time, ap_fs_flags = fs_flags,
             ap_volume_name = volume_name\<rparr>))))))))))))))))))))))))))))))))))"

section \<open>Checkpoints\<close>

text \<open>
  One candidate block of the checkpoint descriptor area: every \<open>continue\<close> of the loop body after
  the read is \<open>None\<close> here.
\<close>

definition checkpoint_candidate :: "bytes \<Rightarrow> nx_superblock option apfs_result" where
  "checkpoint_candidate block =
     (if \<not> verify_object block then Ok None
      else and_then (attempt (parse_object_header block)) (\<lambda>header.
        case header of None \<Rightarrow> Ok None
        | Some header \<Rightarrow>
            if object_type header \<noteq> OBJECT_TYPE_NX_SUPERBLOCK then Ok None
            else and_then (attempt (parse_nx_superblock block)) (\<lambda>candidate.
              case candidate of None \<Rightarrow> Ok None
              | Some candidate \<Rightarrow> if nx_magic candidate \<noteq> NX_MAGIC then Ok None else Ok (Some candidate))))"

definition nx_xid :: "nx_superblock \<Rightarrow> u64" where
  "nx_xid sb = oh_xid (nx_header sb)"

text \<open>The loop \<open>for i in 0..count\<close>, with \<open>n\<close> rounds left.\<close>

fun scan_checkpoints ::
    "reader \<Rightarrow> u32 \<Rightarrow> u64 \<Rightarrow> nat \<Rightarrow> u64 \<Rightarrow> nx_superblock option \<Rightarrow> u64 \<Rightarrow> nx_superblock option apfs_result" where
  "scan_checkpoints rd block_size base 0 i best best_xid = Ok best"
| "scan_checkpoints rd block_size base (Suc n) i best best_xid =
     (let block_num = base + i; offset = block_num * ucast block_size in
      and_then (seek_start rd offset) (\<lambda>_.
      and_then (attempt (read_exact rd offset (unat block_size))) (\<lambda>block.
      case block of None \<Rightarrow> scan_checkpoints rd block_size base n (i + 1) best best_xid
      | Some block \<Rightarrow>
          and_then (checkpoint_candidate block) (\<lambda>candidate.
          case candidate of None \<Rightarrow> scan_checkpoints rd block_size base n (i + 1) best best_xid
          | Some candidate \<Rightarrow>
              if nx_xid candidate > best_xid
              then scan_checkpoints rd block_size base n (i + 1) (Some candidate) (nx_xid candidate)
              else scan_checkpoints rd block_size base n (i + 1) best best_xid))))"

definition find_latest_nxsb :: "reader \<Rightarrow> nx_superblock \<Rightarrow> nx_superblock apfs_result" where
  "find_latest_nxsb rd nxsb =
     (let block_size = nx_block_size nxsb; base = nx_xp_desc_base nxsb; count = nx_xp_desc_blocks nxsb in
      and_then (scan_checkpoints rd block_size base (unat count) 0 None 0) (\<lambda>best.
      case best of
        Some sb \<Rightarrow> if nx_xid sb > nx_xid nxsb then Ok sb else Ok nxsb
      | None \<Rightarrow> Ok nxsb))"

definition read_nxsb :: "reader \<Rightarrow> nx_superblock apfs_result" where
  "read_nxsb rd =
     and_then (seek_start rd 0) (\<lambda>_.
     and_then (read_exact rd 0 4096) (\<lambda>block.
     if \<not> verify_object block then Err InvalidChecksum
     else and_then (parse_nx_superblock block) (\<lambda>nxsb.
       if nx_block_size nxsb \<noteq> 4096 then
         and_then (seek_start rd 0) (\<lambda>_.
         and_then (read_exact rd 0 (unat (nx_block_size nxsb))) (\<lambda>block.
         if \<not> verify_object block then Err InvalidChecksum
         else parse_nx_superblock block))
       else Ok nxsb)))"

section \<open>What the parsers return\<close>

lemma read_u64s_Ok:
  "read_u64s n (drop k bs) = Ok (vs, c) \<Longrightarrow>
   length vs = n \<and> k + 8 * n \<le> max k (length bs) \<and> (\<forall>i < n. vs ! i = u64_at bs (k + 8 * i))"
proof (induction n arbitrary: k vs c)
  case 0
  then show ?case by simp
next
  case (Suc n)
  then obtain ws where "read_u64s n (drop (k + 8) bs) = Ok (ws, c)" and vs: "vs = u64_at bs k # ws"
    and "k + 8 \<le> length bs"
    by (auto simp: outcome_iffs cursor_iffs split: prod.splits)
  with Suc.IH [of "k + 8" ws c] show ?case
    by (auto simp: nth_Cons' vs algebra_simps less_Suc_eq_0_disj)
qed

lemma read_u64s_no_panic [no_panic_intros]: "no_panic (read_u64s n c)"
  by (induction n arbitrary: c) (auto intro!: no_panic_intros split: prod.splits)

lemma parse_nx_superblock_no_panic [no_panic_intros]: "no_panic (parse_nx_superblock block)"
  unfolding parse_nx_superblock_def Let_def by (intro no_panic_intros)

lemma parse_apfs_superblock_no_panic [no_panic_intros]: "no_panic (parse_apfs_superblock block)"
  unfolding parse_apfs_superblock_def Let_def by (intro no_panic_intros)

lemma checkpoint_candidate_no_panic [no_panic_intros]: "no_panic (checkpoint_candidate block)"
  unfolding checkpoint_candidate_def by (intro no_panic_intros)

lemma scan_checkpoints_no_panic [no_panic_intros]:
  "reader_ok rd \<Longrightarrow> no_panic (scan_checkpoints rd bs base n i best bx)"
  by (induction n arbitrary: i best bx) (auto simp: Let_def intro!: no_panic_intros)

lemma find_latest_nxsb_no_panic [no_panic_intros]: "reader_ok rd \<Longrightarrow> no_panic (find_latest_nxsb rd nxsb)"
  unfolding find_latest_nxsb_def Let_def by (intro no_panic_intros)

lemma read_nxsb_no_panic [no_panic_intros]: "reader_ok rd \<Longrightarrow> no_panic (read_nxsb rd)"
  unfolding read_nxsb_def by (intro no_panic_intros)

text \<open>The fields of a parsed container superblock, by their offset in the block.\<close>

lemma parse_nx_superblock_fields:
  assumes "parse_nx_superblock block = Ok sb"
  shows "parse_object_header block = Ok (nx_header sb)" and "184 \<le> length block"
    and "nx_magic sb = NX_MAGIC" and "nx_block_size sb = u32_at block 36"
    and "nx_block_count sb = u64_at block 40" and "nx_xp_desc_blocks sb = u32_at block 104"
    and "nx_xp_desc_base sb = u64_at block 112" and "nx_omap_oid sb = u64_at block 160"
    and "length (nx_fs_oids sb) = min (unat (nx_max_file_systems sb)) NX_MAX_FILE_SYSTEMS"
    and "\<forall>i < length (nx_fs_oids sb). nx_fs_oids sb ! i = u64_at block (184 + 8 * i)"
  using assms
  by (auto simp: parse_nx_superblock_def OBJECT_HEADER_SIZE_def Let_def outcome_iffs cursor_iffs
      split: if_splits dest!: read_u64s_Ok)

section \<open>Round trip\<close>

text \<open>The on-disk form of a container superblock, which the code only reads.\<close>

definition encode_nx_superblock :: "nx_superblock \<Rightarrow> u32 \<Rightarrow> bytes" where
  "encode_nx_superblock sb test_type =
     encode_object_header (nx_header sb) @
     le32 (nx_magic sb) @ le32 (nx_block_size sb) @ le64 (nx_block_count sb) @
     le64 (nx_features sb) @ le64 (nx_readonly_compatible_features sb) @
     le64 (nx_incompatible_features sb) @ nx_uuid sb @ le64 (nx_next_oid sb) @
     le64 (nx_next_xid sb) @ le32 (nx_xp_desc_blocks sb) @
     le32 (nx_xp_data_blocks sb) @ le64 (nx_xp_desc_base sb) @
     le64 (nx_xp_data_base sb) @ le32 (nx_xp_desc_next sb) @
     le32 (nx_xp_data_next sb) @ le32 (nx_xp_desc_index sb) @
     le32 (nx_xp_desc_len sb) @ le32 (nx_xp_data_index sb) @ le32 (nx_xp_data_len sb) @
     le64 (nx_spaceman_oid sb) @ le64 (nx_omap_oid sb) @ le64 (nx_reaper_oid sb) @
     le32 test_type @ le32 (nx_max_file_systems sb) @ concat (map le64 (nx_fs_oids sb))"

lemma read_u64s_enc [cursor_enc]: "length vs = n \<Longrightarrow> read_u64s n (concat (map le64 vs) @ c) = Ok (vs, c)"
  by (induction vs arbitrary: n) (auto simp: cursor_enc)

lemma parse_nx_encode:
  assumes "nx_magic sb = NX_MAGIC" and "length (nx_uuid sb) = 16"
    and "length (nx_fs_oids sb) = min (unat (nx_max_file_systems sb)) NX_MAX_FILE_SYSTEMS"
  shows "parse_nx_superblock (encode_nx_superblock sb test_type @ rest) = Ok sb"
  using assms
  by (simp add: parse_nx_superblock_def OBJECT_HEADER_SIZE_def encode_nx_superblock_def cursor_enc
      parse_object_header_def encode_object_header_def)

text \<open>
  The container superblock parser inverts the on-disk layout: every field comes back, and the
  volume identifiers are exactly the first \<open>min max_file_systems 100\<close> entries of the table.
\<close>

theorem nx_superblock_roundtrip:
  assumes "nx_magic sb = NX_MAGIC" and "length (nx_uuid sb) = 16"
    and "length (nx_fs_oids sb) = min (unat (nx_max_file_systems sb)) NX_MAX_FILE_SYSTEMS"
  shows "parse_nx_superblock (encode_nx_superblock sb test_type @ rest) = Ok sb"
  using assms by (rule parse_nx_encode)

lemma until_nul_utf8: "list_all is_scalar s \<Longrightarrow> 0 \<notin> set s \<Longrightarrow> until_nul (utf8 s @ 0 # rest) = utf8 s"
  unfolding until_nul_def
  by (rule takeWhile_tail [THEN trans]) (use utf8_char_nonzero in \<open>force simp: utf8_def list_all_iff\<close>)+

text \<open>The on-disk form of a volume superblock; the parser skips the filled parts.\<close>

definition encode_apfs_superblock :: "apfs_superblock \<Rightarrow> bytes" where
  "encode_apfs_superblock sb =
     encode_object_header (ap_header sb) @ le32 (ap_magic sb) @ le32 (ap_fs_index sb) @
     le64 (ap_features sb) @ le64 (ap_readonly_compatible_features sb) @
     le64 (ap_incompatible_features sb) @ le64 (ap_unmount_time sb) @
     le64 (ap_fs_reserve_block_count sb) @ le64 (ap_fs_quota_block_count sb) @
     le64 (ap_fs_alloc_count sb) @ replicate 20 0 @ le32 (ap_root_tree_type sb) @
     le32 (ap_extentref_tree_type sb) @ le32 (ap_snap_meta_tree_type sb) @ le64 (ap_omap_oid sb) @
     le64 (ap_root_tree_oid sb) @ le64 (ap_extentref_tree_oid sb) @
     le64 (ap_snap_meta_tree_oid sb) @ le64 (ap_revert_to_xid sb) @
     le64 (ap_revert_to_sblock_oid sb) @ le64 (ap_next_obj_id sb) @ le64 (ap_num_files sb) @
     le64 (ap_num_directories sb) @ le64 (ap_num_symlinks sb) @
     le64 (ap_num_other_fsobjects sb) @ le64 (ap_num_snapshots sb) @
     le64 (ap_total_blocks_alloced sb) @ le64 (ap_total_blocks_freed sb) @ ap_uuid sb @
     le64 (ap_last_mod_time sb) @ le64 (ap_fs_flags sb) @ replicate 48 0 @ replicate 384 0 @
     (utf8 (ap_volume_name sb) @ 0 # replicate (255 - length (utf8 (ap_volume_name sb))) 0)"

lemma parse_apfs_encode:
  assumes "ap_magic sb = APSB_MAGIC" and "length (ap_uuid sb) = 16"
    and "list_all is_scalar (ap_volume_name sb)" and "0 \<notin> set (ap_volume_name sb)"
    and "length (utf8 (ap_volume_name sb)) < 256"
  shows "parse_apfs_superblock (encode_apfs_superblock sb @ rest) = Ok sb"
proof -
  define name_buf where
    "name_buf = utf8 (ap_volume_name sb) @ 0 # replicate (255 - length (utf8 (ap_volume_name sb))) 0"
  have "length name_buf = 256" "from_utf8_lossy (until_nul name_buf) = ap_volume_name sb"
    using assms until_nul_utf8 from_utf8_lossy_utf8 by (simp_all add: name_buf_def)
  then show ?thesis
    using assms(1,2) unfolding encode_apfs_superblock_def name_buf_def [symmetric]
    by (simp add: parse_apfs_superblock_def OBJECT_HEADER_SIZE_def cursor_enc
        parse_object_header_def encode_object_header_def del: replicate.simps)
qed

text \<open>
  The volume superblock parser inverts the on-disk layout, the volume name included: any name
  of Unicode scalar values without NUL that fits its 256 bytes comes back.
\<close>

theorem apfs_superblock_roundtrip:
  assumes "ap_magic sb = APSB_MAGIC" and "length (ap_uuid sb) = 16"
    and "list_all is_scalar (ap_volume_name sb)" and "0 \<notin> set (ap_volume_name sb)"
    and "length (utf8 (ap_volume_name sb)) < 256"
  shows "parse_apfs_superblock (encode_apfs_superblock sb @ rest) = Ok sb"
  using assms by (rule parse_apfs_encode)

definition sample_apsb :: apfs_superblock where
  "sample_apsb =
     \<lparr>ap_header = \<lparr>oh_checksum = 0, oh_oid = 1026, oh_xid = 9, oh_type_and_flags = 13, oh_subtype = 0\<rparr>,
      ap_magic = APSB_MAGIC, ap_fs_index = 0, ap_features = 2, ap_readonly_compatible_features = 0,
      ap_incompatible_features = 1, ap_unmount_time = 0, ap_fs_reserve_block_count = 0,
      ap_fs_quota_block_count = 0, ap_fs_alloc_count = 4, ap_root_tree_type = 2,
      ap_extentref_tree_type = 2, ap_snap_meta_tree_type = 2, ap_omap_oid = 5, ap_root_tree_oid = 1028,
      ap_extentref_tree_oid = 0, ap_snap_meta_tree_oid = 0, ap_revert_to_xid = 0,
      ap_revert_to_sblock_oid = 0, ap_next_obj_id = 19, ap_num_files = 2, ap_num_directories = 1,
      ap_num_symlinks = 0, ap_num_other_fsobjects = 0, ap_num_snapshots = 0,
      ap_total_blocks_alloced = 12, ap_total_blocks_freed = 0, ap_uuid = replicate 16 3,
      ap_last_mod_time = 77, ap_fs_flags = 1, ap_volume_name = [68, 233]\<rparr>"

lemma sample_apsb_name: "list_all is_scalar [68, 233]" "length (utf8 [68, 233]) = 3"
  by (simp_all add: is_scalar_def utf8_def utf8_char_def)

theorem apfs_superblock_roundtrip_witness:
  "parse_apfs_superblock (encode_apfs_superblock sample_apsb @ [1, 2]) = Ok sample_apsb"
  by (rule apfs_superblock_roundtrip) (simp_all add: sample_apsb_def sample_apsb_name is_scalar_def)

text \<open>A superblock of transaction \<open>xid\<close> with one volume, and its sealed 192-byte block.\<close>

definition sample_nx :: "u64 \<Rightarrow> u64 \<Rightarrow> nx_superblock" where
  "sample_nx checksum xid =
     \<lparr>nx_header = \<lparr>oh_checksum = checksum, oh_oid = 1, oh_xid = xid, oh_type_and_flags = 0x80000001, oh_subtype = 0\<rparr>,
      nx_magic = NX_MAGIC, nx_block_size = 192, nx_block_count = 10, nx_features = 0,
      nx_readonly_compatible_features = 0, nx_incompatible_features = 2, nx_uuid = replicate 16 7,
      nx_next_oid = 1030, nx_next_xid = xid + 1, nx_xp_desc_blocks = 1, nx_xp_data_blocks = 1,
      nx_xp_desc_base = 1, nx_xp_data_base = 2, nx_xp_desc_next = 0, nx_xp_data_next = 0,
      nx_xp_desc_index = 0, nx_xp_desc_len = 1, nx_xp_data_index = 0, nx_xp_data_len = 1,
      nx_spaceman_oid = 1024, nx_omap_oid = 3, nx_reaper_oid = 1025, nx_max_file_systems = 1,
      nx_fs_oids = [1026]\<rparr>"

definition sample_checksum :: "u64 \<Rightarrow> u64" where
  "sample_checksum xid = fletcher64 (drop 8 (encode_nx_superblock (sample_nx 0 xid) 0))"

definition sample_block :: "u64 \<Rightarrow> bytes" where
  "sample_block xid = encode_nx_superblock (sample_nx (sample_checksum xid) xid) 0"

lemma length_sample_block: "length (sample_block xid) = 192"
  by (simp add: sample_block_def encode_nx_superblock_def sample_nx_def)

lemma sample_block_verified: "verify_object (sample_block xid)"
proof -
  have "sample_block xid = le64 (sample_checksum xid) @ drop 8 (encode_nx_superblock (sample_nx 0 xid) 0)"
    by (simp add: sample_block_def encode_nx_superblock_def encode_object_header_def sample_nx_def)
  then show ?thesis
    by (simp add: verify_object_sealed sample_checksum_def)
qed

lemma parse_sample_block: "parse_nx_superblock (sample_block xid) = Ok (sample_nx (sample_checksum xid) xid)"
  using parse_nx_encode [of "sample_nx (sample_checksum xid) xid" 0 "[]"]
  by (simp add: sample_block_def sample_nx_def NX_MAX_FILE_SYSTEMS_def)

theorem nx_superblock_roundtrip_witness:
  "parse_nx_superblock (encode_nx_superblock (sample_nx 5 6) 0 @ [1, 2, 3]) = Ok (sample_nx 5 6)"
  by (rule nx_superblock_roundtrip) (simp_all add: sample_nx_def NX_MAX_FILE_SYSTEMS_def)

section \<open>The latest checkpoint\<close>

text \<open>Block \<open>b\<close> of the medium holds the valid superblock \<open>c\<close>.\<close>

definition candidate_at :: "reader \<Rightarrow> u32 \<Rightarrow> u64 \<Rightarrow> nx_superblock \<Rightarrow> bool" where
  "candidate_at rd block_size b c \<longleftrightarrow>
     (\<exists>block. read_block rd b block_size = Ok block \<and> verify_object block \<and>
        object_type (nx_header c) = OBJECT_TYPE_NX_SUPERBLOCK \<and> parse_nx_superblock block = Ok c)"

lemma checkpoint_candidate_Some:
  "checkpoint_candidate block = Ok (Some c) \<longleftrightarrow>
     verify_object block \<and> object_type (nx_header c) = OBJECT_TYPE_NX_SUPERBLOCK \<and> parse_nx_superblock block = Ok c"
  (is "?L \<longleftrightarrow> ?R")
proof
  assume ?L
  then show ?R
    using parse_nx_superblock_fields(1)
    by (fastforce simp: checkpoint_candidate_def outcome_iffs split: if_splits option.splits)
next
  assume ?R
  then show ?L
    using parse_nx_superblock_fields(1) [of block c] parse_nx_superblock_fields(3) [of block c]
    by (simp add: checkpoint_candidate_def)
qed

definition best_xid_of :: "nx_superblock option \<Rightarrow> u64" where
  "best_xid_of best = (case best of None \<Rightarrow> 0 | Some sb \<Rightarrow> nx_xid sb)"

lemma scan_checkpoints_step:
  assumes "scan_checkpoints rd bs base (Suc n) i best (best_xid_of best) = Ok res"
  obtains best' where "scan_checkpoints rd bs base n (i + 1) best' (best_xid_of best') = Ok res"
    and "best_xid_of best \<le> best_xid_of best'"
    and "best' = best \<or> (\<exists>c. best' = Some c \<and> candidate_at rd bs (base + i) c)"
    and "\<And>c. candidate_at rd bs (base + i) c \<Longrightarrow> nx_xid c \<le> best_xid_of best'"
proof -
  define off where "off = (base + i) * ucast bs"
  let ?read = "read_exact rd off (unat bs)"
  from assms have seek: "seek_start rd off = Ok ()"
    by (auto simp: Let_def outcome_iffs off_def)
  then have block: "read_block rd (base + i) bs = ?read"
    by (simp add: read_block_def off_def)
  show ?thesis
  proof (cases "\<exists>blk c. ?read = Ok blk \<and> checkpoint_candidate blk = Ok (Some c) \<and> nx_xid c > best_xid_of best")
    case True
    then obtain blk c where "?read = Ok blk" "checkpoint_candidate blk = Ok (Some c)" "nx_xid c > best_xid_of best"
      by blast
    with assms seek block show ?thesis
      by (intro that [of "Some c"])
        (auto simp: Let_def off_def [symmetric] best_xid_of_def candidate_at_def checkpoint_candidate_Some)
  next
    case False
    with assms seek have "scan_checkpoints rd bs base n (i + 1) best (best_xid_of best) = Ok res"
      by (auto simp: Let_def off_def [symmetric] outcome_iffs split: option.splits if_splits)
    with False block show ?thesis
      by (intro that [of best]) (auto simp: candidate_at_def checkpoint_candidate_Some not_less)
  qed
qed

lemma scan_checkpoints_best:
  assumes "scan_checkpoints rd bs base n i best (best_xid_of best) = Ok res"
  shows "best_xid_of best \<le> best_xid_of res
    \<and> (res = best \<or> (\<exists>j < n. \<exists>c. res = Some c \<and> candidate_at rd bs (base + i + of_nat j) c))
    \<and> (\<forall>j < n. \<forall>c. candidate_at rd bs (base + i + of_nat j) c \<longrightarrow> nx_xid c \<le> best_xid_of res)"
  using assms
proof (induction n arbitrary: i best)
  case 0
  then show ?case by simp
next
  case (Suc n)
  from Suc.prems obtain best' where
      run: "scan_checkpoints rd bs base n (i + 1) best' (best_xid_of best') = Ok res"
    and mono: "best_xid_of best \<le> best_xid_of best'"
    and orig: "best' = best \<or> (\<exists>c. best' = Some c \<and> candidate_at rd bs (base + i) c)"
    and here: "\<And>c. candidate_at rd bs (base + i) c \<Longrightarrow> nx_xid c \<le> best_xid_of best'"
    by (rule scan_checkpoints_step) blast
  note IH = Suc.IH [OF run]
  have shift: "base + (i + 1) + of_nat j = base + i + of_nat (Suc j)" for j
    by simp
  show ?case
  proof (intro conjI allI impI)
    show "best_xid_of best \<le> best_xid_of res"
      using IH mono by (blast intro: order_trans)
    show "res = best \<or> (\<exists>j < Suc n. \<exists>c. res = Some c \<and> candidate_at rd bs (base + i + of_nat j) c)"
    proof -
      consider "res = best'" | j c where "j < n" "res = Some c" "candidate_at rd bs (base + i + of_nat (Suc j)) c"
        using IH unfolding shift by blast
      then show ?thesis
      proof cases
        case 1
        with orig have "res = best \<or> (\<exists>c. res = Some c \<and> candidate_at rd bs (base + i + of_nat 0) c)"
          by simp
        then show ?thesis by blast
      next
        case 2
        then show ?thesis by (blast intro: Suc_mono)
      qed
    qed
    fix j c
    assume "j < Suc n" and c: "candidate_at rd bs (base + i + of_nat j) c"
    then show "nx_xid c \<le> best_xid_of res"
    proof (cases j)
      case 0
      with c have "nx_xid c \<le> best_xid_of best'"
        by (simp add: here)
      also have "\<dots> \<le> best_xid_of res"
        using IH by blast
      finally show ?thesis .
    next
      case (Suc k)
      with \<open>j < Suc n\<close> c IH show ?thesis
        unfolding shift by blast
    qed
  qed
qed

text \<open>
  C17: the superblock chosen by the checkpoint scan is the one from block 0 or a block of the
  descriptor area that verifies and parses as a container superblock, and no valid superblock of
  the area, nor the one from block 0, has a higher transaction identifier.
\<close>

theorem find_latest_nxsb_maximal:
  assumes "find_latest_nxsb rd nxsb = Ok sb"
  shows "(sb = nxsb \<or> (\<exists>j < unat (nx_xp_desc_blocks nxsb).
            candidate_at rd (nx_block_size nxsb) (nx_xp_desc_base nxsb + of_nat j) sb))
    \<and> nx_xid nxsb \<le> nx_xid sb
    \<and> (\<forall>j < unat (nx_xp_desc_blocks nxsb). \<forall>c.
          candidate_at rd (nx_block_size nxsb) (nx_xp_desc_base nxsb + of_nat j) c \<longrightarrow> nx_xid c \<le> nx_xid sb)"
proof -
  from assms obtain best where
      scan: "scan_checkpoints rd (nx_block_size nxsb) (nx_xp_desc_base nxsb)
        (unat (nx_xp_desc_blocks nxsb)) 0 None (best_xid_of None) = Ok best"
    and "(case best of Some sb \<Rightarrow> if nx_xid sb > nx_xid nxsb then Ok sb else Ok nxsb | None \<Rightarrow> Ok nxsb)
        = (Ok sb :: nx_superblock apfs_result)"
    by (simp add: find_latest_nxsb_def Let_def outcome_iffs best_xid_of_def) blast
  then have sb: "sb = (case best of Some b \<Rightarrow> if nx_xid b > nx_xid nxsb then b else nxsb | None \<Rightarrow> nxsb)"
    by (auto split: option.splits if_splits)
  from scan_checkpoints_best [OF scan] sb show ?thesis
    by (fastforce simp: best_xid_of_def not_less split: option.splits if_splits)
qed

theorem find_latest_nxsb_maximal_witness:
  "find_latest_nxsb \<lparr>rd_seek = \<lambda>_. Ok (), rd_read_exact = \<lambda>_ _. Ok (sample_block 9)\<rparr> (sample_nx 0 4)
     = Ok (sample_nx (sample_checksum 9) 9)
   \<and> nx_xid (sample_nx 0 4) \<le> nx_xid (sample_nx (sample_checksum 9) 9)"
proof -
  let ?rd = "\<lparr>rd_seek = \<lambda>_. Ok (), rd_read_exact = \<lambda>_ _. Ok (sample_block 9)\<rparr>"
  have "checkpoint_candidate (sample_block 9) = Ok (Some (sample_nx (sample_checksum 9) 9))"
    by (simp add: checkpoint_candidate_Some sample_block_verified parse_sample_block)
      (simp add: sample_nx_def object_type_def OBJECT_TYPE_MASK_def OBJECT_TYPE_NX_SUPERBLOCK_def)
  then have "find_latest_nxsb ?rd (sample_nx 0 4) = Ok (sample_nx (sample_checksum 9) 9)"
    by (simp add: find_latest_nxsb_def sample_nx_def nx_xid_def seek_start_def read_exact_def Let_def)
  with find_latest_nxsb_maximal [OF this] show ?thesis by blast
qed

text \<open>
  \<open>read_nxsb\<close> returns a superblock only from a block at offset 0 whose checksum verifies and
  whose magic is NXSB, and when the block size it names is not 4096 that block is a second read of
  exactly the size the first one named.
\<close>

theorem read_nxsb_verified:
  assumes "read_nxsb rd = Ok sb"
  shows "\<exists>n block. read_exact rd 0 n = Ok block \<and> verify_object block \<and> parse_nx_superblock block = Ok sb
    \<and> nx_magic sb = NX_MAGIC
    \<and> (n = 4096 \<or> (\<exists>first sb0. read_exact rd 0 4096 = Ok first \<and> verify_object first
          \<and> parse_nx_superblock first = Ok sb0 \<and> n = unat (nx_block_size sb0)))"
  using assms parse_nx_superblock_fields(3)
  by (fastforce simp: read_nxsb_def outcome_iffs split: if_splits)

theorem read_nxsb_verified_witness:
  "let rd = \<lparr>rd_seek = \<lambda>_. Ok (), rd_read_exact = \<lambda>_ _. Ok (sample_block 9)\<rparr> in
     \<exists>n block. read_exact rd 0 n = Ok block \<and> verify_object block
       \<and> parse_nx_superblock block = Ok (sample_nx (sample_checksum 9) 9)"
proof -
  let ?rd = "\<lparr>rd_seek = \<lambda>_. Ok (), rd_read_exact = \<lambda>_ _. Ok (sample_block 9)\<rparr>"
  have "read_nxsb ?rd = Ok (sample_nx (sample_checksum 9) 9)"
    by (simp add: read_nxsb_def seek_start_def read_exact_def sample_block_verified parse_sample_block)
  from read_nxsb_verified [OF this] show ?thesis
    by (auto simp: Let_def)
qed

end
