(* ===== verification/Btree.thy ===== *)
theory Btree
  imports Objects
begin

text \<open>
  \<open>vendor/apfs/src/btree.rs\<close>: B-tree nodes and the two traversals, lookup and scan. A traversal
  follows child pointers through \<open>resolve\<close>, which is the identity for a physical tree and an object
  map lookup for a virtual one (\<open>resolve_child_oid\<close> in \<open>Omap\<close>). The recursion of the code has no
  bound of its own: the model gives it fuel, one unit per level.
\<close>

section \<open>Orderings\<close>

datatype ordering = Less | Equal | Greater

instantiation ordering :: linorder
begin

fun ordering_rank :: "ordering \<Rightarrow> nat" where
  "ordering_rank Less = 0"
| "ordering_rank Equal = 1"
| "ordering_rank Greater = 2"

definition less_eq_ordering :: "ordering \<Rightarrow> ordering \<Rightarrow> bool" where
  "less_eq_ordering a b \<longleftrightarrow> ordering_rank a \<le> ordering_rank b"

definition less_ordering :: "ordering \<Rightarrow> ordering \<Rightarrow> bool" where
  "less_ordering a b \<longleftrightarrow> ordering_rank a < ordering_rank b"

instance
proof
  fix x y :: ordering
  show "x \<le> y \<Longrightarrow> y \<le> x \<Longrightarrow> x = y"
    by (cases x; cases y) (simp_all add: less_eq_ordering_def)
qed (auto simp: less_eq_ordering_def less_ordering_def)

end

lemma ordering_le_simps [simp]:
  "Less \<le> a" "a \<le> Greater" "a \<le> Less \<longleftrightarrow> a = Less" "Greater \<le> a \<longleftrightarrow> a = Greater"
  "a \<le> Equal \<longleftrightarrow> a \<noteq> Greater" "Equal \<le> a \<longleftrightarrow> a \<noteq> Less"
  by (cases a; simp add: less_eq_ordering_def)+

text \<open>\<open>Ord::cmp\<close>\<close>

definition cmp_ord :: "'a::linorder \<Rightarrow> 'a \<Rightarrow> ordering" where
  "cmp_ord a b = (if a < b then Less else if a = b then Equal else Greater)"

lemma cmp_ord_iffs [simp]:
  "cmp_ord a b = Less \<longleftrightarrow> a < b" "cmp_ord a b = Equal \<longleftrightarrow> a = b" "cmp_ord a b = Greater \<longleftrightarrow> b < a"
  by (auto simp: cmp_ord_def)

lemma cmp_ord_mono: "a \<le> b \<Longrightarrow> cmp_ord a c \<le> cmp_ord b c"
  by (auto simp: cmp_ord_def)

section \<open>Nodes\<close>

definition BTNODE_ROOT :: u16 where "BTNODE_ROOT = 0x0001"
definition BTNODE_LEAF :: u16 where "BTNODE_LEAF = 0x0002"
definition BTNODE_FIXED_KV_SIZE :: u16 where "BTNODE_FIXED_KV_SIZE = 0x0004"

record btree_node_header =
  nh_flags :: u16
  nh_level :: u16
  nh_nkeys :: u32
  nh_table_space_off :: u16
  nh_table_space_len :: u16
  nh_free_space_off :: u16
  nh_free_space_len :: u16
  nh_free_list_off :: u16
  nh_free_list_len :: u16
  nh_key_free_list_off :: u16
  nh_key_free_list_len :: u16
  nh_val_free_list_off :: u16
  nh_val_free_list_len :: u16

definition BTREE_NODE_HEADER_SIZE :: nat where "BTREE_NODE_HEADER_SIZE = 24"

definition parse_btree_node_header :: "bytes \<Rightarrow> btree_node_header apfs_result" where
  "parse_btree_node_header data =
     (if length data < BTREE_NODE_HEADER_SIZE then Err (InvalidBTree (lit ''btree node header too short''))
      else
        and_then (read_u16 data) (\<lambda>(btn_flags, c).
        and_then (read_u16 c) (\<lambda>(btn_level, c).
        and_then (read_u32 c) (\<lambda>(btn_nkeys, c).
        and_then (read_u16 c) (\<lambda>(table_space_off, c).
        and_then (read_u16 c) (\<lambda>(table_space_len, c).
        and_then (read_u16 c) (\<lambda>(free_space_off, c).
        and_then (read_u16 c) (\<lambda>(free_space_len, c).
        and_then (read_u16 c) (\<lambda>(free_list_off, c).
        and_then (read_u16 c) (\<lambda>(free_list_len, c).
        and_then (read_u16 c) (\<lambda>(key_free_list_off, c).
        and_then (read_u16 c) (\<lambda>(key_free_list_len, c).
        and_then (read_u16 c) (\<lambda>(val_free_list_off, c).
        and_then (read_u16 c) (\<lambda>(val_free_list_len, c).
          Ok \<lparr>nh_flags = btn_flags, nh_level = btn_level, nh_nkeys = btn_nkeys,
              nh_table_space_off = table_space_off, nh_table_space_len = table_space_len,
              nh_free_space_off = free_space_off, nh_free_space_len = free_space_len,
              nh_free_list_off = free_list_off, nh_free_list_len = free_list_len,
              nh_key_free_list_off = key_free_list_off, nh_key_free_list_len = key_free_list_len,
              nh_val_free_list_off = val_free_list_off, nh_val_free_list_len = val_free_list_len\<rparr>))))))))))))))"

definition is_leaf :: "btree_node_header \<Rightarrow> bool" where
  "is_leaf h \<longleftrightarrow> nh_flags h AND BTNODE_LEAF \<noteq> 0"

definition is_root :: "btree_node_header \<Rightarrow> bool" where
  "is_root h \<longleftrightarrow> nh_flags h AND BTNODE_ROOT \<noteq> 0"

definition is_fixed_kv :: "btree_node_header \<Rightarrow> bool" where
  "is_fixed_kv h \<longleftrightarrow> nh_flags h AND BTNODE_FIXED_KV_SIZE \<noteq> 0"

record btree_info_fixed =
  bf_flags :: u32
  bf_node_size :: u32
  bf_key_size :: u32
  bf_val_size :: u32

record btree_info =
  bi_fixed :: btree_info_fixed
  bi_longest_key :: u32
  bi_longest_val :: u32
  bi_key_count :: u64
  bi_node_count :: u64

definition BTREE_INFO_SIZE :: nat where "BTREE_INFO_SIZE = 40"

definition parse_btree_info :: "bytes \<Rightarrow> btree_info apfs_result" where
  "parse_btree_info data =
     (if length data < BTREE_INFO_SIZE then Err (InvalidBTree (lit ''btree info too short''))
      else
        and_then (read_u32 data) (\<lambda>(bt_flags, c).
        and_then (read_u32 c) (\<lambda>(bt_node_size, c).
        and_then (read_u32 c) (\<lambda>(bt_key_size, c).
        and_then (read_u32 c) (\<lambda>(bt_val_size, c).
        and_then (read_u32 c) (\<lambda>(bt_longest_key, c).
        and_then (read_u32 c) (\<lambda>(bt_longest_val, c).
        and_then (read_u64 c) (\<lambda>(bt_key_count, c).
        and_then (read_u64 c) (\<lambda>(bt_node_count, c).
          Ok \<lparr>bi_fixed = \<lparr>bf_flags = bt_flags, bf_node_size = bt_node_size,
                          bf_key_size = bt_key_size, bf_val_size = bt_val_size\<rparr>,
              bi_longest_key = bt_longest_key, bi_longest_val = bt_longest_val,
              bi_key_count = bt_key_count, bi_node_count = bt_node_count\<rparr>)))))))))"

record toc_entry =
  te_key_off :: u16
  te_key_len :: u16
  te_val_off :: u16
  te_val_len :: u16

record btree_node =
  bn_header :: object_header
  bn_node_header :: btree_node_header
  bn_toc :: "toc_entry list"
  bn_block_data :: bytes
  bn_key_area_off :: nat
  bn_val_area_end :: nat
  bn_info :: "btree_info option"

text \<open>The table of contents: \<open>n\<close> entries of 4 or 8 bytes.\<close>

fun read_toc :: "bool \<Rightarrow> nat \<Rightarrow> cursor \<Rightarrow> toc_entry list apfs_result" where
  "read_toc fixed_kv 0 c = Ok []"
| "read_toc fixed_kv (Suc n) c =
     (if fixed_kv then
        and_then (read_u16 c) (\<lambda>(key_off, c).
        and_then (read_u16 c) (\<lambda>(val_off, c).
        and_then (read_toc fixed_kv n c) (\<lambda>toc.
          Ok (\<lparr>te_key_off = key_off, te_key_len = 0, te_val_off = val_off, te_val_len = 0\<rparr> # toc))))
      else
        and_then (read_u16 c) (\<lambda>(key_off, c).
        and_then (read_u16 c) (\<lambda>(key_len, c).
        and_then (read_u16 c) (\<lambda>(val_off, c).
        and_then (read_u16 c) (\<lambda>(val_len, c).
        and_then (read_toc fixed_kv n c) (\<lambda>toc.
          Ok (\<lparr>te_key_off = key_off, te_key_len = key_len, te_val_off = val_off, te_val_len = val_len\<rparr> # toc)))))))"

definition parse_btree_node :: "bytes \<Rightarrow> btree_node apfs_result" where
  "parse_btree_node block =
     and_then (parse_object_header block) (\<lambda>header.
     and_then (slice_from block OBJECT_HEADER_SIZE) (\<lambda>after_header.
     and_then (parse_btree_node_header after_header) (\<lambda>node_header.
     let toc_start = OBJECT_HEADER_SIZE + BTREE_NODE_HEADER_SIZE + unat (nh_table_space_off node_header);
         fixed_kv = is_fixed_kv node_header;
         key_area_off = OBJECT_HEADER_SIZE + BTREE_NODE_HEADER_SIZE
           + unat (nh_table_space_off node_header) + unat (nh_table_space_len node_header) in
     and_then
       (if is_root node_header then
          let info_start = usize_sub (length block) BTREE_INFO_SIZE in
          and_then (slice_from block info_start) (\<lambda>tail.
          and_then (parse_btree_info tail) (\<lambda>info. Ok (Some info)))
        else Ok None) (\<lambda>info.
     let val_area_end =
       (if is_root node_header then usize_sub (length block) BTREE_INFO_SIZE else length block) in
     and_then (slice_from block toc_start) (\<lambda>c.
     and_then (read_toc fixed_kv (unat (nh_nkeys node_header)) c) (\<lambda>toc.
       Ok \<lparr>bn_header = header, bn_node_header = node_header, bn_toc = toc, bn_block_data = block,
           bn_key_area_off = key_area_off, bn_val_area_end = val_area_end, bn_info = info\<rparr>))))))"

definition node_key :: "btree_node \<Rightarrow> nat \<Rightarrow> u32 \<Rightarrow> bytes apfs_result" where
  "node_key node i fixed_key_size =
     and_then (index (bn_toc node) i) (\<lambda>entry.
     let start = bn_key_area_off node + unat (te_key_off entry);
         len = (if is_fixed_kv (bn_node_header node) then unat fixed_key_size else unat (te_key_len entry));
         end' = start + len in
     if end' > length (bn_block_data node) then
       Err (InvalidBTree (lit ''key out of bounds: start='' @ dec start @ lit '', len='' @ dec len
         @ lit '', block_size='' @ dec (length (bn_block_data node))))
     else subslice (bn_block_data node) start end')"

text \<open>
  The start of a value is counted backwards from the end of the value area: the subtraction wraps
  when the offset is larger than the area.
\<close>

definition node_value :: "btree_node \<Rightarrow> nat \<Rightarrow> u32 \<Rightarrow> bytes apfs_result" where
  "node_value node i fixed_val_size =
     and_then (index (bn_toc node) i) (\<lambda>entry.
     let len = (if \<not> is_leaf (bn_node_header node) then 8
                else if is_fixed_kv (bn_node_header node) then unat fixed_val_size
                else unat (te_val_len entry));
         val_off = unat (te_val_off entry);
         start = usize_sub (bn_val_area_end node) val_off;
         end' = usize_add start len in
     if end' > length (bn_block_data node) \<or> start < bn_key_area_off node then
       Err (InvalidBTree (lit ''value out of bounds: start='' @ dec start @ lit '', len='' @ dec len
         @ lit '', val_area_end='' @ dec (bn_val_area_end node)
         @ lit '', block_size='' @ dec (length (bn_block_data node))))
     else subslice (bn_block_data node) start end')"

definition child_oid :: "btree_node \<Rightarrow> nat \<Rightarrow> u64 apfs_result" where
  "child_oid node i =
     and_then (node_value node i 8) (\<lambda>val.
     if length val < 8 then Err (InvalidBTree (lit ''child oid too short''))
     else Ok (word_of_le (take 8 val)))"

section \<open>Traversals\<close>

record btree_params =
  bp_block_size :: u32
  bp_fixed_key_size :: u32
  bp_fixed_val_size :: u32

type_synonym resolver = "u64 \<Rightarrow> u64 apfs_result"
type_synonym entry = "bytes \<times> bytes"

text \<open>The sizes a root node names take precedence over the caller's, unless they are 0.\<close>

definition params_of :: "btree_node \<Rightarrow> u32 \<Rightarrow> u32 \<Rightarrow> u32 \<Rightarrow> btree_params" where
  "params_of node block_size fixed_key_size fixed_val_size =
     (let (fks, fvs) =
        (case bn_info node of
           Some info \<Rightarrow>
             (if bf_key_size (bi_fixed info) > 0 then bf_key_size (bi_fixed info) else fixed_key_size,
              if bf_val_size (bi_fixed info) > 0 then bf_val_size (bi_fixed info) else fixed_val_size)
         | None \<Rightarrow> (fixed_key_size, fixed_val_size))
      in \<lparr>bp_block_size = block_size, bp_fixed_key_size = fks, bp_fixed_val_size = fvs\<rparr>)"

definition nkeys :: "btree_node \<Rightarrow> nat" where
  "nkeys node = unat (nh_nkeys (bn_node_header node))"

text \<open>Follow the child pointer at index \<open>i\<close>: resolve it, read its block, parse it.\<close>

definition load_child :: "reader \<Rightarrow> resolver \<Rightarrow> btree_params \<Rightarrow> btree_node \<Rightarrow> nat \<Rightarrow> btree_node apfs_result" where
  "load_child rd resolve ps node i =
     and_then (child_oid node i) (\<lambda>oid.
     and_then (resolve oid) (\<lambda>child_block.
     and_then (read_block rd child_block (bp_block_size ps)) (\<lambda>child_data.
     parse_btree_node child_data)))"

text \<open>The loop over a leaf, and the loop that picks the child; both run over the key indices.\<close>

fun lookup_leaf :: "btree_params \<Rightarrow> (bytes \<Rightarrow> ordering) \<Rightarrow> btree_node \<Rightarrow> nat list \<Rightarrow> bytes option apfs_result" where
  "lookup_leaf ps compare_fn node [] = Ok None"
| "lookup_leaf ps compare_fn node (i # is) =
     and_then (node_key node i (bp_fixed_key_size ps)) (\<lambda>key.
     case compare_fn key of
       Equal \<Rightarrow> and_then (node_value node i (bp_fixed_val_size ps)) (\<lambda>val. Ok (Some val))
     | Greater \<Rightarrow> Ok None
     | Less \<Rightarrow> lookup_leaf ps compare_fn node is)"

fun find_child ::
    "btree_params \<Rightarrow> (bytes \<Rightarrow> ordering) \<Rightarrow> btree_node \<Rightarrow> nat list \<Rightarrow> nat option \<Rightarrow> nat option apfs_result" where
  "find_child ps compare_fn node [] child_idx = Ok child_idx"
| "find_child ps compare_fn node (i # is) child_idx =
     and_then (node_key node i (bp_fixed_key_size ps)) (\<lambda>key.
     case compare_fn key of
       Greater \<Rightarrow> Ok child_idx
     | _ \<Rightarrow> find_child ps compare_fn node is (Some i))"

fun btree_lookup_node ::
    "nat \<Rightarrow> reader \<Rightarrow> resolver \<Rightarrow> btree_params \<Rightarrow> (bytes \<Rightarrow> ordering) \<Rightarrow> btree_node \<Rightarrow> bytes option apfs_result" where
  "btree_lookup_node 0 rd resolve ps compare_fn node = NoFuel"
| "btree_lookup_node (Suc fuel) rd resolve ps compare_fn node =
     (if is_leaf (bn_node_header node) then lookup_leaf ps compare_fn node [0..<nkeys node]
      else
        and_then (find_child ps compare_fn node [0..<nkeys node] None) (\<lambda>child_idx.
        case child_idx of
          None \<Rightarrow> Ok None
        | Some i \<Rightarrow>
            and_then (load_child rd resolve ps node i) (\<lambda>child_node.
            btree_lookup_node fuel rd resolve ps compare_fn child_node)))"

definition btree_lookup_by ::
    "nat \<Rightarrow> reader \<Rightarrow> resolver \<Rightarrow> u64 \<Rightarrow> u32 \<Rightarrow> u32 \<Rightarrow> u32 \<Rightarrow> (bytes \<Rightarrow> ordering) \<Rightarrow> bytes option apfs_result" where
  "btree_lookup_by fuel rd resolve root_block block_size fixed_key_size fixed_val_size compare_fn =
     and_then (read_block rd root_block block_size) (\<lambda>block_data.
     and_then (parse_btree_node block_data) (\<lambda>node.
     btree_lookup_node fuel rd resolve (params_of node block_size fixed_key_size fixed_val_size) compare_fn node))"

text \<open>
  A scan returns the entries it pushes and whether scanning should go on.
\<close>

fun scan_leaf :: "btree_params \<Rightarrow> (bytes \<Rightarrow> bool option) \<Rightarrow> btree_node \<Rightarrow> nat list \<Rightarrow> (entry list \<times> bool) apfs_result" where
  "scan_leaf ps range_fn node [] = Ok ([], True)"
| "scan_leaf ps range_fn node (i # is) =
     and_then (node_key node i (bp_fixed_key_size ps)) (\<lambda>key.
     case range_fn key of
       Some True \<Rightarrow>
         and_then (node_value node i (bp_fixed_val_size ps)) (\<lambda>val.
         and_then (scan_leaf ps range_fn node is) (\<lambda>(results, go_on). Ok ((key, val) # results, go_on)))
     | Some False \<Rightarrow> scan_leaf ps range_fn node is
     | None \<Rightarrow> Ok ([], False))"

text \<open>The loop over the children of an inner node, with the traversal of one child as an argument.\<close>

fun scan_children ::
    "(btree_node \<Rightarrow> (entry list \<times> bool) apfs_result) \<Rightarrow> reader \<Rightarrow> resolver \<Rightarrow> btree_params \<Rightarrow> btree_node
     \<Rightarrow> nat list \<Rightarrow> (entry list \<times> bool) apfs_result" where
  "scan_children scan_node rd resolve ps node [] = Ok ([], True)"
| "scan_children scan_node rd resolve ps node (i # is) =
     and_then (load_child rd resolve ps node i) (\<lambda>child_node.
     and_then (scan_node child_node) (\<lambda>(results, go_on).
     if \<not> go_on then Ok (results, False)
     else
       and_then (scan_children scan_node rd resolve ps node is) (\<lambda>(results', go_on').
       Ok (results @ results', go_on'))))"

fun btree_scan_node ::
    "nat \<Rightarrow> reader \<Rightarrow> resolver \<Rightarrow> btree_params \<Rightarrow> (bytes \<Rightarrow> bool option) \<Rightarrow> btree_node
     \<Rightarrow> (entry list \<times> bool) apfs_result" where
  "btree_scan_node 0 rd resolve ps range_fn node = NoFuel"
| "btree_scan_node (Suc fuel) rd resolve ps range_fn node =
     (if is_leaf (bn_node_header node) then scan_leaf ps range_fn node [0..<nkeys node]
      else scan_children (btree_scan_node fuel rd resolve ps range_fn) rd resolve ps node [0..<nkeys node])"

definition btree_scan_by ::
    "nat \<Rightarrow> reader \<Rightarrow> resolver \<Rightarrow> u64 \<Rightarrow> u32 \<Rightarrow> u32 \<Rightarrow> u32 \<Rightarrow> (bytes \<Rightarrow> bool option) \<Rightarrow> entry list apfs_result" where
  "btree_scan_by fuel rd resolve root_block block_size fixed_key_size fixed_val_size range_fn =
     and_then (read_block rd root_block block_size) (\<lambda>block_data.
     and_then (parse_btree_node block_data) (\<lambda>node.
     and_then (btree_scan_node fuel rd resolve (params_of node block_size fixed_key_size fixed_val_size) range_fn node)
       (\<lambda>(results, _). Ok results)))"

section \<open>When parsing panics\<close>

lemma parse_btree_node_header_no_panic [no_panic_intros]: "no_panic (parse_btree_node_header data)"
  unfolding parse_btree_node_header_def by (intro no_panic_intros)

lemma parse_btree_info_no_panic [no_panic_intros]: "no_panic (parse_btree_info data)"
  unfolding parse_btree_info_def by (intro no_panic_intros)

lemma read_toc_no_panic [no_panic_intros]: "no_panic (read_toc fixed_kv n c)"
  by (induction n arbitrary: c) (auto intro!: no_panic_intros)

lemma parse_btree_node_header_at:
  "28 \<le> length data \<Longrightarrow>
   \<exists>h. parse_btree_node_header data = Ok h \<and> nh_flags h = u16_at data 0 \<and> nh_nkeys h = u32_at data 4
     \<and> nh_table_space_off h = u16_at data 8 \<and> nh_table_space_len h = u16_at data 10"
  by (simp add: parse_btree_node_header_def BTREE_NODE_HEADER_SIZE_def cursor_at)

text \<open>
  The reads of the node header take 28 bytes although its \<open>SIZE\<close> is 24: the last two fields lie in
  the table of contents.
\<close>

lemma parse_btree_node_header_length: "parse_btree_node_header data = Ok h \<Longrightarrow> 28 \<le> length data"
  by (auto simp: parse_btree_node_header_def outcome_iffs split: if_splits dest!: read_Ok_length)

theorem node_header_reads_past_size:
  "BTREE_NODE_HEADER_SIZE = 24 \<and>
   parse_btree_node_header (replicate 24 0) = Err (Io unexpected_eof)"
  by (simp add: BTREE_NODE_HEADER_SIZE_def parse_btree_node_header_def numeral_eq_Suc
      read_u16_def read_u32_def read_le_def read_bytes_def)

lemma parse_btree_info_at:
  "40 \<le> length data \<Longrightarrow> is_ok (parse_btree_info data)"
  by (simp add: parse_btree_info_def BTREE_INFO_SIZE_def cursor_at)

lemma slice_from_drop: "k \<le> length xs \<Longrightarrow> slice_from xs k = Ok (drop k xs)"
  by (simp add: slice_from_def)

lemma parse_btree_node_panics:
  "parse_btree_node block = Panic \<longleftrightarrow> 60 \<le> length block \<and> length block < 56 + unat (u16_at block 40)"
proof (cases "60 \<le> length block")
  case False
  then have "parse_btree_node_header (drop 32 block) \<noteq> Ok nh" for nh
    by (auto dest: parse_btree_node_header_length)
  then have "parse_btree_node block \<noteq> Panic"
    using parse_object_header_no_panic [of block] parse_btree_node_header_no_panic [of "drop 32 block"]
    by (auto simp: parse_btree_node_def OBJECT_HEADER_SIZE_def outcome_iffs no_panic_def
        slice_from_def parse_object_header_def split: if_splits)
  with False show ?thesis by simp
next
  case True
  from True obtain h where header: "parse_object_header block = Ok h"
    using parse_object_header_at [of block] by auto
  from True obtain nh where nh: "parse_btree_node_header (drop 32 block) = Ok nh"
    and off: "nh_table_space_off nh = u16_at block 40"
  proof -
    from True have "28 \<le> length (drop 32 block)"
      by simp
    from parse_btree_node_header_at [OF this] that show ?thesis
      by (auto simp: at_drop)
  qed
  from True obtain info where info: "parse_btree_info (drop (length block - 40) block) = Ok info"
    using parse_btree_info_at [of "drop (length block - 40) block"] by (auto simp: is_ok_iff)
  have toc: "read_toc k n c \<noteq> Panic" for k n c
    using read_toc_no_panic no_panicD by blast
  show ?thesis
    using True by (auto simp: parse_btree_node_def OBJECT_HEADER_SIZE_def BTREE_NODE_HEADER_SIZE_def
        BTREE_INFO_SIZE_def header nh info slice_from_drop Let_def outcome_iffs toc off)
      (auto simp: slice_from_def off split: if_splits)
qed

text \<open>
  C25: parsing a node panics exactly when the block holds what the headers read and names a table of
  contents that starts beyond its end; every other malformed node is an error value.
\<close>

theorem parse_btree_node_panic_iff:
  "parse_btree_node block = Panic \<longleftrightarrow> 60 \<le> length block \<and> length block < 56 + unat (u16_at block 40)"
  by (rule parse_btree_node_panics)

section \<open>Trees\<close>

text \<open>
  The abstract view of a tree on disk: leaves hold entries, inner nodes hold separator keys and
  subtrees. \<open>represents\<close> relates a parsed node to the tree it is the root of.
\<close>

datatype abs_tree = ALeaf "entry list" | ANode "(bytes \<times> abs_tree) list"

fun entries :: "abs_tree \<Rightarrow> entry list" where
  "entries (ALeaf es) = es"
| "entries (ANode cs) = concat (map (\<lambda>(k, t). entries t) cs)"

fun height :: "abs_tree \<Rightarrow> nat" where
  "height (ALeaf es) = 0"
| "height (ANode cs) = Suc (foldr max (map (\<lambda>(k, t). height t) cs) 0)"

inductive represents :: "reader \<Rightarrow> resolver \<Rightarrow> btree_params \<Rightarrow> btree_node \<Rightarrow> abs_tree \<Rightarrow> bool"
  for rd resolve ps where
  leaf: "is_leaf (bn_node_header node) \<Longrightarrow> nkeys node = length es \<Longrightarrow>
    (\<And>i. i < length es \<Longrightarrow> node_key node i (bp_fixed_key_size ps) = Ok (fst (es ! i))
        \<and> node_value node i (bp_fixed_val_size ps) = Ok (snd (es ! i))) \<Longrightarrow>
    represents rd resolve ps node (ALeaf es)"
| inner: "\<not> is_leaf (bn_node_header node) \<Longrightarrow> nkeys node = length cs \<Longrightarrow>
    (\<And>i. i < length cs \<Longrightarrow> node_key node i (bp_fixed_key_size ps) = Ok (fst (cs ! i))) \<Longrightarrow>
    (\<And>i. i < length cs \<Longrightarrow> \<exists>child. load_child rd resolve ps node i = Ok child
        \<and> represents rd resolve ps child (snd (cs ! i))) \<Longrightarrow>
    represents rd resolve ps node (ANode cs)"

inductive_cases represents_leafE: "represents rd resolve ps node (ALeaf es)"
inductive_cases represents_innerE: "represents rd resolve ps node (ANode cs)"

text \<open>The tree whose root is block \<open>root_block\<close>.\<close>

definition tree_at :: "reader \<Rightarrow> resolver \<Rightarrow> u64 \<Rightarrow> u32 \<Rightarrow> u32 \<Rightarrow> u32 \<Rightarrow> abs_tree \<Rightarrow> bool" where
  "tree_at rd resolve root_block block_size fks fvs t \<longleftrightarrow>
     (\<exists>block node. read_block rd root_block block_size = Ok block \<and> parse_btree_node block = Ok node
        \<and> represents rd resolve (params_of node block_size fks fvs) node t)"

lemma le_foldr_max: "x \<in> set xs \<Longrightarrow> (x :: nat) \<le> foldr max xs 0"
  by (induction xs) (auto simp: le_max_iff_disj)

lemma height_child: "(k, t) \<in> set cs \<Longrightarrow> height t < height (ANode cs)"
  by (auto intro!: le_imp_less_Suc le_foldr_max intro: rev_image_eqI)

section \<open>A scan collects a filtered prefix of the entries\<close>

definition scan_prefix :: "(bytes \<Rightarrow> bool option) \<Rightarrow> entry list \<Rightarrow> entry list" where
  "scan_prefix range_fn es = filter (\<lambda>(k, v). range_fn k = Some True) (takeWhile (\<lambda>(k, v). range_fn k \<noteq> None) es)"

definition goes_on :: "(bytes \<Rightarrow> bool option) \<Rightarrow> entry list \<Rightarrow> bool" where
  "goes_on range_fn es \<longleftrightarrow> (\<forall>(k, v) \<in> set es. range_fn k \<noteq> None)"

lemma scan_prefix_Nil [simp]: "scan_prefix range_fn [] = []" "goes_on range_fn []"
  by (simp_all add: scan_prefix_def goes_on_def)

lemma scan_prefix_append:
  "scan_prefix range_fn (xs @ ys) =
     scan_prefix range_fn xs @ (if goes_on range_fn xs then scan_prefix range_fn ys else [])"
  by (induction xs) (auto simp: scan_prefix_def goes_on_def)

lemma goes_on_append [simp]: "goes_on range_fn (xs @ ys) \<longleftrightarrow> goes_on range_fn xs \<and> goes_on range_fn ys"
  by (auto simp: goes_on_def)

lemma scan_leaf_entries:
  assumes "\<And>i. i \<in> set is \<Longrightarrow> node_key node i (bp_fixed_key_size ps) = Ok (fst (f i))
        \<and> node_value node i (bp_fixed_val_size ps) = Ok (snd (f i))"
  shows "scan_leaf ps range_fn node is =
    Ok (scan_prefix range_fn (map f is), goes_on range_fn (map f is))"
  using assms
proof (induction "is")
  case (Cons i "is")
  then show ?case
    by (cases "f i") (auto simp: scan_prefix_def goes_on_def split: option.splits bool.splits)
qed simp

lemma map_nth_upt: "map (\<lambda>i. xs ! i) [0..<length xs] = xs"
  by (rule map_nth)

lemma scan_children_entries:
  assumes "\<And>i. i \<in> set is \<Longrightarrow> \<exists>child. load_child rd resolve ps node i = Ok child
      \<and> scan_node child = Ok (scan_prefix range_fn (f i), goes_on range_fn (f i))"
  shows "scan_children scan_node rd resolve ps node is =
    Ok (scan_prefix range_fn (concat (map f is)), goes_on range_fn (concat (map f is)))"
  using assms
proof (induction "is")
  case (Cons i "is")
  then obtain child where "load_child rd resolve ps node i = Ok child"
    "scan_node child = Ok (scan_prefix range_fn (f i), goes_on range_fn (f i))"
    by auto
  with Cons show ?case
    by (simp add: scan_prefix_append)
qed simp

lemma btree_scan_node_entries:
  assumes "represents rd resolve ps node t" and "height t < fuel"
  shows "btree_scan_node fuel rd resolve ps range_fn node =
    Ok (scan_prefix range_fn (entries t), goes_on range_fn (entries t))"
  using assms
proof (induction arbitrary: fuel rule: represents.induct)
  case (leaf node es)
  then show ?case
    using scan_leaf_entries [of "[0..<length es]" node ps "\<lambda>i. es ! i" range_fn]
    by (cases fuel) (auto simp: map_nth)
next
  case (inner node cs)
  from inner.prems obtain fuel' where fuel: "fuel = Suc fuel'"
    by (cases fuel) auto
  have "\<exists>child. load_child rd resolve ps node i = Ok child \<and>
      btree_scan_node fuel' rd resolve ps range_fn child =
        Ok (scan_prefix range_fn (entries (snd (cs ! i))), goes_on range_fn (entries (snd (cs ! i))))"
    if "i < length cs" for i
  proof -
    have "(fst (cs ! i), snd (cs ! i)) \<in> set cs"
      using that by simp
    then have "height (snd (cs ! i)) < fuel'"
      using inner.prems fuel height_child by fastforce
    with inner.IH [OF that] show ?thesis by blast
  qed
  then have "scan_children (btree_scan_node fuel' rd resolve ps range_fn) rd resolve ps node [0..<length cs] =
      Ok (scan_prefix range_fn (concat (map (\<lambda>i. entries (snd (cs ! i))) [0..<length cs])),
          goes_on range_fn (concat (map (\<lambda>i. entries (snd (cs ! i))) [0..<length cs])))"
    by (intro scan_children_entries) auto
  moreover have "map (\<lambda>i. entries (snd (cs ! i))) [0..<length cs] = map (\<lambda>(k, t). entries t) cs"
    by (rule nth_equalityI) (auto simp: case_prod_unfold)
  ultimately show ?case
    using inner.hyps fuel by simp
qed

lemma btree_scan_by_entries:
  assumes "tree_at rd resolve root bs fks fvs t" and "height t < fuel"
  shows "btree_scan_by fuel rd resolve root bs fks fvs range_fn = Ok (scan_prefix range_fn (entries t))"
  using assms by (auto simp: tree_at_def btree_scan_by_def btree_scan_node_entries)

section \<open>A lookup finds an entry\<close>

text \<open>What the two loops of a lookup do on the entries and separators themselves.\<close>

fun leaf_find :: "(bytes \<Rightarrow> ordering) \<Rightarrow> entry list \<Rightarrow> bytes option" where
  "leaf_find compare_fn [] = None"
| "leaf_find compare_fn ((k, v) # es) =
     (case compare_fn k of Equal \<Rightarrow> Some v | Greater \<Rightarrow> None | Less \<Rightarrow> leaf_find compare_fn es)"

definition below :: "(bytes \<Rightarrow> ordering) \<Rightarrow> (bytes \<times> 'a) list \<Rightarrow> (bytes \<times> 'a) list" where
  "below compare_fn cs = takeWhile (\<lambda>(k, t). compare_fn k \<noteq> Greater) cs"

lemma below_subset: "c \<in> set (below compare_fn cs) \<Longrightarrow> c \<in> set cs"
  by (auto simp: below_def dest: set_takeWhileD)

lemma last_below_in: "below compare_fn cs \<noteq> [] \<Longrightarrow> last (below compare_fn cs) \<in> set cs"
  using below_subset last_in_set by fast

function tree_lookup :: "(bytes \<Rightarrow> ordering) \<Rightarrow> abs_tree \<Rightarrow> bytes option" where
  "tree_lookup compare_fn (ALeaf es) = leaf_find compare_fn es"
| "tree_lookup compare_fn (ANode cs) =
     (if below compare_fn cs = [] then None else tree_lookup compare_fn (snd (last (below compare_fn cs))))"
  by pat_completeness auto
termination
proof (relation "measure (\<lambda>(_, t). height t)")
  fix compare_fn and cs :: "(bytes \<times> abs_tree) list"
  assume "below compare_fn cs \<noteq> []"
  then have "(fst (last (below compare_fn cs)), snd (last (below compare_fn cs))) \<in> set cs"
    using last_below_in by simp
  from height_child [OF this]
  show "((compare_fn, snd (last (below compare_fn cs))), compare_fn, ANode cs) \<in> measure (\<lambda>(_, t). height t)"
    by (simp del: height.simps)
qed simp

lemma lookup_leaf_entries:
  assumes "\<And>i. i \<in> set is \<Longrightarrow> node_key node i (bp_fixed_key_size ps) = Ok (fst (f i))
        \<and> node_value node i (bp_fixed_val_size ps) = Ok (snd (f i))"
  shows "lookup_leaf ps compare_fn node is = Ok (leaf_find compare_fn (map f is))"
  using assms
proof (induction "is")
  case (Cons i "is")
  then show ?case
    by (cases "f i") (auto split: ordering.splits)
qed simp

lemma find_child_separators:
  assumes "\<And>i. i \<in> set is \<Longrightarrow> node_key node i (bp_fixed_key_size ps) = Ok (g i)"
  shows "find_child ps compare_fn node is acc =
    Ok (let xs = takeWhile (\<lambda>i. compare_fn (g i) \<noteq> Greater) is in if xs = [] then acc else Some (last xs))"
  using assms
proof (induction "is" arbitrary: acc)
  case (Cons i "is")
  then show ?case
    by (cases "compare_fn (g i)") (simp_all add: Let_def)
qed simp

lemma takeWhile_upt: "takeWhile P [0..<n] = [0..<length (takeWhile P [0..<n])]"
proof -
  have "takeWhile P [0..<n] = take (length (takeWhile P [0..<n])) [0..<n]"
    by (rule takeWhile_eq_take)
  moreover have "length (takeWhile P [0..<n]) \<le> n"
    using length_takeWhile_le [of P "[0..<n]"] by simp
  ultimately show ?thesis
    by (simp add: take_upt)
qed

lemma find_child_below:
  assumes "\<And>i. i < length cs \<Longrightarrow> node_key node i (bp_fixed_key_size ps) = Ok (fst (cs ! i))"
  shows "find_child ps compare_fn node [0..<length cs] None =
    Ok (if below compare_fn cs = [] then None else Some (length (below compare_fn cs) - 1))"
proof -
  define w where "w = takeWhile (\<lambda>i. compare_fn (fst (cs ! i)) \<noteq> Greater) [0..<length cs]"
  have "below compare_fn (map (\<lambda>i. cs ! i) [0..<length cs]) = map (\<lambda>i. cs ! i) w"
    by (simp add: below_def w_def takeWhile_map o_def case_prod_unfold del: map_nth)
  then have len: "length (below compare_fn cs) = length w"
    by (simp add: map_nth)
  have w: "w = [0..<length w]"
    unfolding w_def by (rule takeWhile_upt)
  have "find_child ps compare_fn node [0..<length cs] None = Ok (if w = [] then None else Some (last w))"
    using find_child_separators [of "[0..<length cs]" node ps "\<lambda>i. fst (cs ! i)" compare_fn None] assms
    by (simp add: w_def)
  moreover have "w \<noteq> [] \<Longrightarrow> last w = length w - 1"
    by (subst w) (simp add: last_upt)
  ultimately show ?thesis
    using len by auto
qed

lemma last_below_nth:
  assumes "below compare_fn cs \<noteq> []"
  shows "length (below compare_fn cs) - 1 < length cs"
    and "last (below compare_fn cs) = cs ! (length (below compare_fn cs) - 1)"
proof -
  have "length (below compare_fn cs) \<le> length cs"
    by (simp add: below_def length_takeWhile_le)
  then show "length (below compare_fn cs) - 1 < length cs"
    using assms by (cases "length (below compare_fn cs)") auto
  have "below compare_fn cs = take (length (below compare_fn cs)) cs"
    unfolding below_def by (rule takeWhile_eq_take)
  then show "last (below compare_fn cs) = cs ! (length (below compare_fn cs) - 1)"
    using assms by (metis diff_less last_conv_nth length_greater_0_conv nth_take zero_less_one)
qed

lemma btree_lookup_node_tree:
  assumes "represents rd resolve ps node t" and "height t < fuel"
  shows "btree_lookup_node fuel rd resolve ps compare_fn node = Ok (tree_lookup compare_fn t)"
  using assms
proof (induction arbitrary: fuel rule: represents.induct)
  case (leaf node es)
  then show ?case
    using lookup_leaf_entries [of "[0..<length es]" node ps "\<lambda>i. es ! i" compare_fn]
    by (cases fuel) (auto simp: map_nth)
next
  case (inner node cs)
  from inner.prems obtain fuel' where fuel: "fuel = Suc fuel'"
    by (cases fuel) auto
  let ?b = "below compare_fn cs"
  show ?case
  proof (cases "?b = []")
    case True
    with inner.hyps fuel show ?thesis
      by (simp add: find_child_below)
  next
    case False
    define i where "i = length ?b - 1"
    have i: "i < length cs" and last: "last ?b = cs ! i"
      unfolding i_def by (rule last_below_nth [OF False])+
    obtain child where child: "load_child rd resolve ps node i = Ok child"
      and IH: "\<And>fuel. height (snd (cs ! i)) < fuel \<Longrightarrow>
        btree_lookup_node fuel rd resolve ps compare_fn child = Ok (tree_lookup compare_fn (snd (cs ! i)))"
      using inner.IH [OF i] by blast
    have "(fst (cs ! i), snd (cs ! i)) \<in> set cs"
      using i by simp
    then have "height (snd (cs ! i)) < fuel'"
      using inner.prems fuel height_child by fastforce
    with False inner.hyps fuel child IH last show ?thesis
      by (simp add: find_child_below i_def)
  qed
qed

lemma btree_lookup_by_tree:
  assumes "tree_at rd resolve root bs fks fvs t" and "height t < fuel"
  shows "btree_lookup_by fuel rd resolve root bs fks fvs compare_fn = Ok (tree_lookup compare_fn t)"
  using assms by (auto simp: tree_at_def btree_lookup_by_def btree_lookup_node_tree)

section \<open>Search trees\<close>

text \<open>
  The shape a writer keeps: every separator is the first key of its subtree, and no subtree is
  empty. A tree is in search order for a comparison when its entries go from \<open>Less\<close> over \<open>Equal\<close>
  to \<open>Greater\<close>.
\<close>

fun wf_tree :: "abs_tree \<Rightarrow> bool" where
  "wf_tree (ALeaf es) \<longleftrightarrow> True"
| "wf_tree (ANode cs) \<longleftrightarrow>
     (\<forall>(k, t) \<in> set cs. entries t \<noteq> [] \<and> fst (hd (entries t)) = k \<and> wf_tree t)"

definition in_order :: "(bytes \<Rightarrow> ordering) \<Rightarrow> entry list \<Rightarrow> bool" where
  "in_order compare_fn es \<longleftrightarrow> sorted (map (\<lambda>(k, v). compare_fn k) es)"

definition matches :: "(bytes \<Rightarrow> ordering) \<Rightarrow> entry list \<Rightarrow> entry list" where
  "matches compare_fn es = filter (\<lambda>(k, v). compare_fn k = Equal) es"

lemma in_order_append:
  "in_order compare_fn (xs @ ys) \<longleftrightarrow> in_order compare_fn xs \<and> in_order compare_fn ys
     \<and> (\<forall>(k, v) \<in> set xs. \<forall>(k', v') \<in> set ys. compare_fn k \<le> compare_fn k')"
  by (auto simp: in_order_def sorted_append)

lemma in_order_hd:
  "in_order compare_fn es \<Longrightarrow> (k, v) \<in> set es \<Longrightarrow> compare_fn (fst (hd es)) \<le> compare_fn k"
  by (cases es) (auto simp: in_order_def)

lemma leaf_find_matches:
  "in_order compare_fn es \<Longrightarrow>
   leaf_find compare_fn es = (case matches compare_fn es of [] \<Rightarrow> None | (k, v) # _ \<Rightarrow> Some v)"
proof (induction es)
  case (Cons e es)
  obtain k v where e: "e = (k, v)" by (cases e)
  have "matches compare_fn es = []" if "compare_fn k = Greater"
    using Cons.prems that by (fastforce simp: e in_order_def matches_def filter_empty_conv)
  with Cons e show ?case
    by (auto simp: in_order_def matches_def split: ordering.split)
qed (simp add: matches_def)

text \<open>The subtree a lookup descends into holds a match whenever there is one.\<close>

lemma descend_keeps_match:
  assumes wf: "wf_tree (ANode cs)" and ord: "in_order compare_fn (entries (ANode cs))"
    and match: "(k, v) \<in> set (entries (ANode cs))" "compare_fn k = Equal"
  shows "below compare_fn cs \<noteq> []"
    and "\<exists>(k', v') \<in> set (entries (snd (last (below compare_fn cs)))). compare_fn k' = Equal"
proof -
  define zs where "zs = dropWhile (\<lambda>(k, t). compare_fn k \<noteq> Greater) cs"
  have cs: "cs = below compare_fn cs @ zs"
    by (simp add: below_def zs_def)
  let ?ent = "\<lambda>cs. concat (map (\<lambda>(k, t). entries t) cs)"
  have ent: "entries (ANode cs) = ?ent (below compare_fn cs) @ ?ent zs"
    by (subst cs) simp
  have zs: "compare_fn k' = Greater" if "(k', v') \<in> set (?ent zs)" for k' v'
  proof (cases zs)
    case (Cons z zs')
    obtain s t where z: "z = (s, t)" by (cases z)
    have "compare_fn s = Greater"
      using Cons z hd_dropWhile [of "\<lambda>(k, t). compare_fn k \<noteq> Greater" cs] by (simp add: zs_def)
    moreover have "(s, t) \<in> set cs"
      using Cons z set_dropWhileD [of "(s, t)" "\<lambda>(k, t). compare_fn k \<noteq> Greater" cs] by (simp add: zs_def)
    then have "entries t \<noteq> []" "fst (hd (entries t)) = s"
      using wf by auto
    ultimately have "compare_fn (fst (hd (?ent zs))) = Greater"
      using Cons z by (simp add: hd_append)
    moreover have "in_order compare_fn (?ent zs)"
      using ord ent by (simp add: in_order_append)
    ultimately show ?thesis
      using in_order_hd that by (metis ordering_le_simps(4))
  qed (use that in simp)
  have "(k, v) \<in> set (?ent (below compare_fn cs) @ ?ent zs)"
    using match(1) by (simp only: ent)
  moreover have "(k, v) \<notin> set (?ent zs)"
    using zs [of k v] match(2) by auto
  ultimately have in_below: "(k, v) \<in> set (?ent (below compare_fn cs))"
    by (simp only: set_append Un_iff simp_thms)
  then show nonempty: "below compare_fn cs \<noteq> []"
    by auto
  define s t where "s = fst (last (below compare_fn cs))" and "t = snd (last (below compare_fn cs))"
  have bel: "below compare_fn cs = butlast (below compare_fn cs) @ [(s, t)]"
    using nonempty by (simp add: s_def t_def)
  have ent': "?ent (below compare_fn cs) = ?ent (butlast (below compare_fn cs)) @ entries t"
    by (subst bel) simp
  have "(s, t) \<in> set cs"
    using last_below_in [OF nonempty] by (simp add: s_def t_def)
  then have t: "entries t \<noteq> []" "fst (hd (entries t)) = s"
    using wf by auto
  have s: "compare_fn s \<noteq> Greater"
    using last_in_set [OF nonempty] set_takeWhileD [of "(s, t)" "\<lambda>(k, t). compare_fn k \<noteq> Greater" cs]
    by (simp add: below_def s_def t_def case_prod_unfold)
  show "\<exists>(k', v') \<in> set (entries (snd (last (below compare_fn cs)))). compare_fn k' = Equal"
  proof (cases "(k, v) \<in> set (entries t)")
    case True
    then show ?thesis
      using match(2) t_def by blast
  next
    case False
    then have "(k, v) \<in> set (?ent (butlast (below compare_fn cs)))"
      using in_below ent' by auto
    moreover have "hd (entries t) \<in> set (entries t)"
      using t by simp
    moreover have "in_order compare_fn (?ent (butlast (below compare_fn cs)) @ entries t)"
      using ord ent ent' by (simp add: in_order_append)
    ultimately have "compare_fn k \<le> compare_fn (fst (hd (entries t)))"
      unfolding in_order_append by fastforce
    then have "compare_fn (fst (hd (entries t))) = Equal"
      using match(2) s t(2) by (cases "compare_fn s") auto
    then show ?thesis
      using \<open>hd (entries t) \<in> set (entries t)\<close> t_def by (fastforce simp: case_prod_unfold)
  qed
qed

lemma in_order_subtree:
  "in_order compare_fn (entries (ANode cs)) \<Longrightarrow> (k, t) \<in> set cs \<Longrightarrow> in_order compare_fn (entries t)"
  by (auto dest!: split_list simp: in_order_append)

lemma leaf_find_sound: "leaf_find compare_fn es = Some v \<Longrightarrow> \<exists>k. (k, v) \<in> set es \<and> compare_fn k = Equal"
  by (induction es) (auto split: ordering.splits)

lemma tree_lookup_sound:
  "tree_lookup compare_fn t = Some v \<Longrightarrow> \<exists>k. (k, v) \<in> set (entries t) \<and> compare_fn k = Equal"
proof (induction compare_fn t rule: tree_lookup.induct)
  case (1 compare_fn es)
  then show ?case
    using leaf_find_sound by fastforce
next
  case (2 compare_fn cs)
  then have "below compare_fn cs \<noteq> []"
    by (auto split: if_splits)
  with 2 obtain k where "(k, v) \<in> set (entries (snd (last (below compare_fn cs))))" "compare_fn k = Equal"
    by auto
  then show ?case
    using last_below_in [OF \<open>below compare_fn cs \<noteq> []\<close>] by (auto simp: case_prod_unfold)
qed

lemma tree_lookup_complete:
  "wf_tree t \<Longrightarrow> in_order compare_fn (entries t) \<Longrightarrow> (k, v) \<in> set (entries t) \<Longrightarrow> compare_fn k = Equal \<Longrightarrow>
   tree_lookup compare_fn t \<noteq> None"
proof (induction compare_fn t arbitrary: k v rule: tree_lookup.induct)
  case (1 compare_fn es)
  then have "(k, v) \<in> set (matches compare_fn es)"
    by (simp add: matches_def)
  with 1 show ?case
    by (auto simp: leaf_find_matches split: list.splits)
next
  case (2 compare_fn cs)
  let ?last = "last (below compare_fn cs)"
  note desc = descend_keeps_match [OF "2.prems"]
  obtain k' v' where "(k', v') \<in> set (entries (snd ?last))" "compare_fn k' = Equal"
    using desc(2) by blast
  moreover have "(fst ?last, snd ?last) \<in> set cs"
    using last_below_in [OF desc(1)] by simp
  then have "wf_tree (snd ?last)" "in_order compare_fn (entries (snd ?last))"
    using "2.prems"(1,2) in_order_subtree by (auto simp del: entries.simps)
  ultimately show ?case
    using "2.IH" desc(1) by simp
qed

text \<open>With at most one match a lookup returns exactly it.\<close>

lemma tree_lookup_unique:
  assumes "wf_tree t" and "in_order compare_fn (entries t)" and "length (matches compare_fn (entries t)) \<le> 1"
  shows "tree_lookup compare_fn t = (case matches compare_fn (entries t) of [] \<Rightarrow> None | (k, v) # _ \<Rightarrow> Some v)"
proof (cases "matches compare_fn (entries t)")
  case Nil
  then show ?thesis
    using tree_lookup_sound [of compare_fn t]
    by (cases "tree_lookup compare_fn t") (auto simp: matches_def filter_empty_conv)
next
  case (Cons e es)
  obtain k v where e: "e = (k, v)" by (cases e)
  with Cons assms(3) have single: "matches compare_fn (entries t) = [(k, v)]"
    by simp
  then have "(k, v) \<in> set (matches compare_fn (entries t))"
    by simp
  then have "(k, v) \<in> set (entries t)" "compare_fn k = Equal"
    by (auto simp: matches_def)
  then obtain w where w: "tree_lookup compare_fn t = Some w"
    using tree_lookup_complete [OF assms(1,2)] by blast
  then obtain k' where "(k', w) \<in> set (matches compare_fn (entries t))"
    using tree_lookup_sound by (fastforce simp: matches_def)
  with single w show ?thesis by simp
qed

section \<open>Interfaces of the traversals\<close>

text \<open>
  A client of a lookup gives a comparison of a node key with its search key, a client of a scan a
  three-way test. Both promise the same: keys have a rank in a linear order, and the function
  tells where the rank of a key lies relative to the rank searched for.
\<close>

definition hits :: "(bytes \<Rightarrow> 'r::linorder) \<Rightarrow> 'r \<Rightarrow> entry list \<Rightarrow> entry list" where
  "hits rank target es = filter (\<lambda>(k, v). rank k = target) es"

definition ascending :: "(bytes \<Rightarrow> 'r::linorder) \<Rightarrow> entry list \<Rightarrow> bool" where
  "ascending rank es \<longleftrightarrow> sorted (map (\<lambda>(k, v). rank k) es)"

locale ranked_compare =
  fixes rank :: "bytes \<Rightarrow> 'r::linorder" and target :: 'r and compare_fn :: "bytes \<Rightarrow> ordering"
  assumes compare_fn_rank: "compare_fn k = cmp_ord (rank k) target"
begin

lemma in_order_ascending: "ascending rank es \<Longrightarrow> in_order compare_fn es"
  unfolding ascending_def in_order_def
  by (induction es) (auto simp: compare_fn_rank intro: cmp_ord_mono)

lemma matches_hits: "matches compare_fn es = hits rank target es"
  by (simp add: matches_def hits_def compare_fn_rank)

lemma lookup_finds:
  assumes "tree_at rd resolve root bs fks fvs t" and "height t < fuel"
    and "wf_tree t" and "ascending rank (entries t)" and "length (hits rank target (entries t)) \<le> 1"
  shows "btree_lookup_by fuel rd resolve root bs fks fvs compare_fn =
    Ok (case hits rank target (entries t) of [] \<Rightarrow> None | (k, v) # _ \<Rightarrow> Some v)"
  using assms by (simp add: btree_lookup_by_tree tree_lookup_unique in_order_ascending matches_hits)

lemma lookup_sound_complete:
  assumes "tree_at rd resolve root bs fks fvs t" and "height t < fuel"
    and "wf_tree t" and "ascending rank (entries t)"
  shows "\<exists>res. btree_lookup_by fuel rd resolve root bs fks fvs compare_fn = Ok res
    \<and> (res = None \<longleftrightarrow> hits rank target (entries t) = [])
    \<and> (\<forall>v. res = Some v \<longrightarrow> v \<in> snd ` set (hits rank target (entries t)))"
proof -
  have complete: "tree_lookup compare_fn t \<noteq> None" if ne: "hits rank target (entries t) \<noteq> []"
  proof -
    obtain k v where "(k, v) \<in> set (entries t)" "rank k = target"
      using ne by (auto simp: hits_def filter_empty_conv)
    then show ?thesis
      using assms tree_lookup_complete [of t compare_fn k v] in_order_ascending by (simp add: compare_fn_rank)
  qed
  have sound: "v \<in> snd ` set (hits rank target (entries t))" if "tree_lookup compare_fn t = Some v" for v
    using tree_lookup_sound [OF that] by (force simp: hits_def compare_fn_rank)
  show ?thesis
    using complete sound assms
    by (cases "tree_lookup compare_fn t") (fastforce simp: btree_lookup_by_tree)+
qed

end

locale ranked_range =
  fixes rank :: "bytes \<Rightarrow> 'r::linorder" and target :: 'r and range_fn :: "bytes \<Rightarrow> bool option"
  assumes range_fn_rank:
    "range_fn k = (if rank k < target then Some False else if rank k = target then Some True else None)"
begin

lemma scan_prefix_hits: "ascending rank es \<Longrightarrow> scan_prefix range_fn es = hits rank target es"
proof (induction es)
  case Nil
  then show ?case by (simp add: hits_def)
next
  case (Cons e es)
  obtain k v where e: "e = (k, v)" by (cases e)
  have IH: "scan_prefix range_fn es = hits rank target es"
    using Cons by (simp add: ascending_def)
  have "hits rank target es = []" if "target < rank k"
    using Cons.prems that by (fastforce simp: e hits_def ascending_def filter_empty_conv)
  with IH show ?case
    by (auto simp: e scan_prefix_def hits_def range_fn_rank)
qed

lemma scan_collects:
  assumes "tree_at rd resolve root bs fks fvs t" and "height t < fuel" and "ascending rank (entries t)"
  shows "btree_scan_by fuel rd resolve root bs fks fvs range_fn = Ok (hits rank target (entries t))"
  using assms by (simp add: btree_scan_by_entries scan_prefix_hits)

end

text \<open>A client that uses both with the same order: when the lookup fails, so does the scan.\<close>

locale ranked_search = ranked_compare rank target compare_fn + ranked_range rank target range_fn
  for rank :: "bytes \<Rightarrow> 'r::linorder" and target compare_fn range_fn
begin

lemma fallback_empty:
  assumes "tree_at rd resolve root bs fks fvs t" and "height t < fuel"
    and "wf_tree t" and "ascending rank (entries t)"
    and "btree_lookup_by fuel rd resolve root bs fks fvs compare_fn = Ok None"
  shows "btree_scan_by fuel rd resolve root bs fks fvs range_fn = Ok []"
  using lookup_sound_complete [OF assms(1-4)] scan_collects [OF assms(1,2,4)] assms(5) by auto

end

end
