(* ===== verification/Btree_Codec.thy ===== *)
theory Btree_Codec
  imports Btree_Fuel
begin

text \<open>
  The on-disk form of a B-tree node, which the code only reads: the table of contents and the keys
  grow up from the node header, the values grow down from the end of the block (or from the
  \<open>btree_info\<close> tail of a root). Parsing such a block gives back its entries, so a tree of such
  blocks represents the tree it was written from.
\<close>

section \<open>Encoding\<close>

fun encode_toc :: "bool \<Rightarrow> nat \<Rightarrow> nat \<Rightarrow> entry list \<Rightarrow> bytes" where
  "encode_toc fixed koff voff [] = []"
| "encode_toc fixed koff voff ((k, v) # es) =
     le16 (of_nat koff) @ (if fixed then [] else le16 (of_nat (length k))) @
     le16 (of_nat (voff + length v)) @ (if fixed then [] else le16 (of_nat (length v))) @
     encode_toc fixed (koff + length k) (voff + length v) es"

record node_shape =
  ns_leaf :: bool
  ns_root :: bool
  ns_fixed :: bool
  ns_key_size :: u32
  ns_val_size :: u32

definition flags_of :: "node_shape \<Rightarrow> u16" where
  "flags_of s = (if ns_root s then 1 else 0) + (if ns_leaf s then 2 else 0) + (if ns_fixed s then 4 else 0)"

definition toc_len :: "node_shape \<Rightarrow> nat \<Rightarrow> nat" where
  "toc_len s n = (if ns_fixed s then 4 * n else 8 * n)"

definition info_len :: "node_shape \<Rightarrow> nat" where
  "info_len s = (if ns_root s then 40 else 0)"

definition encode_info :: "node_shape \<Rightarrow> bytes" where
  "encode_info s = (if ns_root s then le32 0 @ le32 0 @ le32 (ns_key_size s) @ le32 (ns_val_size s) @
     le32 0 @ le32 0 @ le64 0 @ le64 0 else [])"

definition used :: "node_shape \<Rightarrow> entry list \<Rightarrow> nat" where
  "used s es = 56 + toc_len s (length es) + length (concat (map fst es)) + length (concat (map snd es)) + info_len s"

text \<open>The last 4 of the 12 bytes after the table's bounds are the only fields the code does not name.\<close>

definition encode_node :: "object_header \<Rightarrow> node_shape \<Rightarrow> nat \<Rightarrow> entry list \<Rightarrow> bytes" where
  "encode_node h s block_size es =
     encode_object_header h @ le16 (flags_of s) @ le16 0 @ le32 (of_nat (length es)) @
     le16 0 @ le16 (of_nat (toc_len s (length es))) @ replicate 12 0 @
     encode_toc (ns_fixed s) 0 0 es @ concat (map fst es) @ replicate (block_size - used s es) 0 @
     concat (rev (map snd es)) @ encode_info s"

definition node_fits :: "node_shape \<Rightarrow> nat \<Rightarrow> entry list \<Rightarrow> bool" where
  "node_fits s block_size es \<longleftrightarrow> used s es \<le> block_size \<and> 60 \<le> block_size \<and> block_size < 65536 \<and>
     (ns_fixed s \<longrightarrow> (\<forall>(k, v) \<in> set es. length k = unat (ns_key_size s) \<and> length v = unat (ns_val_size s))) \<and>
     (\<not> ns_leaf s \<longrightarrow> (\<forall>(k, v) \<in> set es. length v = 8))"

section \<open>Lengths and pieces\<close>

lemma length_encode_toc [simp]:
  "length (encode_toc fixed koff voff es) = (if fixed then 4 * length es else 8 * length es)"
  by (induction fixed koff voff es rule: encode_toc.induct) auto

lemma length_encode_info [simp]: "length (encode_info s) = info_len s"
  by (simp add: encode_info_def info_len_def)

lemma length_concat_rev [simp]: "length (concat (rev xs)) = length (concat xs)"
  by (induction xs) auto

lemma length_encode_node [simp]: "used s es \<le> block_size \<Longrightarrow> length (encode_node h s block_size es) = block_size"
  by (simp add: encode_node_def used_def toc_len_def del: length_concat)

lemma flags_of_iffs:
  "flags_of s AND 2 \<noteq> 0 \<longleftrightarrow> ns_leaf s" "flags_of s AND 1 \<noteq> 0 \<longleftrightarrow> ns_root s"
  "flags_of s AND 4 \<noteq> 0 \<longleftrightarrow> ns_fixed s"
  by (cases "ns_leaf s"; cases "ns_root s"; cases "ns_fixed s"; simp add: flags_of_def)+

lemma at_append:
  "length xs = k \<Longrightarrow> u16_at (xs @ le16 v @ ys) k = v"
  "length xs = k \<Longrightarrow> u32_at (xs @ le32 w @ ys) k = w"
  "length xs = k \<Longrightarrow> u64_at (xs @ le64 x @ ys) k = x"
  by (simp_all add: u16_at_def u32_at_def u64_at_def)

lemma take_drop_middle: "length xs = k \<Longrightarrow> length ys = n \<Longrightarrow> take n (drop k (xs @ ys @ zs)) = ys"
  by simp

lemma concat_split:
  assumes "i < length xs"
  shows "concat xs = concat (take i xs) @ xs ! i @ concat (drop (Suc i) xs)"
proof -
  have "xs = take i xs @ xs ! i # drop (Suc i) xs"
    using assms by (rule id_take_nth_drop)
  then show ?thesis
    by (metis concat.simps(2) concat_append)
qed

lemma concat_rev_split:
  assumes "i < length xs"
  shows "concat (rev xs) = concat (rev (drop (Suc i) xs)) @ xs ! i @ concat (rev (take i xs))"
proof -
  have "rev xs = rev (drop (Suc i) xs) @ xs ! i # rev (take i xs)"
    using id_take_nth_drop [OF assms] by (metis append_assoc append_Cons append_Nil rev.simps(2) rev_append)
  then show ?thesis
    by (metis concat.simps(2) concat_append)
qed

section \<open>The table of contents\<close>

definition toc_entry_of :: "bool \<Rightarrow> entry list \<Rightarrow> nat \<Rightarrow> nat \<Rightarrow> nat \<Rightarrow> toc_entry" where
  "toc_entry_of fixed es koff voff i =
     \<lparr>te_key_off = of_nat (koff + length (concat (map fst (take i es)))),
      te_key_len = (if fixed then 0 else of_nat (length (fst (es ! i)))),
      te_val_off = of_nat (voff + length (concat (map snd (take (Suc i) es)))),
      te_val_len = (if fixed then 0 else of_nat (length (snd (es ! i))))\<rparr>"

lemma read_encode_toc:
  "read_toc fixed (length es) (encode_toc fixed koff voff es @ rest) =
     Ok (map (toc_entry_of fixed es koff voff) [0..<length es])"
proof (induction fixed koff voff es rule: encode_toc.induct)
  case (2 fixed koff voff k v es)
  have step: "map (toc_entry_of fixed ((k, v) # es) koff voff) [0..<length ((k, v) # es)] =
      \<lparr>te_key_off = of_nat koff, te_key_len = (if fixed then 0 else of_nat (length k)),
       te_val_off = of_nat (voff + length v), te_val_len = (if fixed then 0 else of_nat (length v))\<rparr> #
      map (toc_entry_of fixed es (koff + length k) (voff + length v)) [0..<length es]"
    by (simp add: upt_rec [of 0] map_Suc_upt [symmetric] del: upt_Suc)
      (simp add: toc_entry_of_def add.assoc)
  show ?case
    unfolding step using 2 by (cases fixed) (simp_all add: cursor_enc)
qed simp

section \<open>Parsing an encoded node\<close>

lemma parse_encoded_header:
  assumes "node_fits s bs es"
  obtains nh where "parse_btree_node_header (drop 32 (encode_node h s bs es)) = Ok nh"
    and "nh_flags nh = flags_of s" and "unat (nh_nkeys nh) = length es"
    and "nh_table_space_off nh = 0" and "unat (nh_table_space_len nh) = toc_len s (length es)"
proof -
  define block where "block = encode_node h s bs es"
  have fits: "used s es \<le> bs" "60 \<le> bs" "bs < 65536"
    using assms by (simp_all add: node_fits_def)
  then have len: "length block = bs"
    by (simp add: block_def)
  have small: "toc_len s (length es) < 65536" "length es < 65536"
    using fits by (auto simp: used_def toc_len_def split: if_splits)
  have "u16_at block 32 = flags_of s" "u32_at block 36 = of_nat (length es)" "u16_at block 40 = 0"
    "u16_at block 42 = of_nat (toc_len s (length es))"
    unfolding block_def encode_node_def
    using at_append(1) [of "encode_object_header h" 32]
      at_append(2) [of "encode_object_header h @ le16 (flags_of s) @ le16 0" 36]
      at_append(1) [of "encode_object_header h @ le16 (flags_of s) @ le16 0 @ le32 (of_nat (length es))" 40]
      at_append(1) [of "encode_object_header h @ le16 (flags_of s) @ le16 0 @ le32 (of_nat (length es)) @ le16 0" 42]
    by simp_all
  moreover have "28 \<le> length (drop 32 block)"
    using len fits by simp
  ultimately obtain nh where "parse_btree_node_header (drop 32 block) = Ok nh" "nh_flags nh = flags_of s"
    "nh_nkeys nh = of_nat (length es)" "nh_table_space_off nh = 0"
    "nh_table_space_len nh = of_nat (toc_len s (length es))"
    using parse_btree_node_header_at [of "drop 32 block"] by (auto simp: at_drop)
  then show ?thesis
    using small by (intro that [of nh]) (simp_all add: block_def unat_of_nat)
qed

text \<open>What the parser makes of an encoded node.\<close>

definition parsed_as :: "btree_node \<Rightarrow> node_shape \<Rightarrow> nat \<Rightarrow> bytes \<Rightarrow> entry list \<Rightarrow> bool" where
  "parsed_as node s bs block es \<longleftrightarrow>
     (is_leaf (bn_node_header node) \<longleftrightarrow> ns_leaf s) \<and> (is_fixed_kv (bn_node_header node) \<longleftrightarrow> ns_fixed s) \<and>
     nkeys node = length es \<and> bn_toc node = map (toc_entry_of (ns_fixed s) es 0 0) [0..<length es] \<and>
     bn_block_data node = block \<and> bn_key_area_off node = 56 + toc_len s (length es) \<and>
     bn_val_area_end node = bs - info_len s \<and>
     map_option (\<lambda>info. (bf_key_size (bi_fixed info), bf_val_size (bi_fixed info))) (bn_info node) =
       (if ns_root s then Some (ns_key_size s, ns_val_size s) else None)"

lemma parse_encode_node:
  assumes fits: "node_fits s bs es"
  obtains node where "parse_btree_node (encode_node h s bs es) = Ok node"
    and "parsed_as node s bs (encode_node h s bs es) es"
proof -
  define block where "block = encode_node h s bs es"
  have le: "used s es \<le> bs" "60 \<le> bs"
    using fits by (simp_all add: node_fits_def)
  then have len: "length block = bs"
    by (simp add: block_def)
  obtain hd where hd: "parse_object_header block = Ok hd"
    using parse_object_header_at [of block] len le by auto
  obtain nh where nh: "parse_btree_node_header (drop 32 block) = Ok nh" "nh_flags nh = flags_of s"
    "unat (nh_nkeys nh) = length es" "nh_table_space_off nh = 0"
    "unat (nh_table_space_len nh) = toc_len s (length es)"
    using parse_encoded_header [OF fits] unfolding block_def by metis
  have flags: "is_leaf nh \<longleftrightarrow> ns_leaf s" "is_root nh \<longleftrightarrow> ns_root s" "is_fixed_kv nh \<longleftrightarrow> ns_fixed s"
    by (simp_all add: is_leaf_def is_root_def is_fixed_kv_def BTNODE_LEAF_def BTNODE_ROOT_def
        BTNODE_FIXED_KV_SIZE_def nh flags_of_iffs)
  define rest where "rest = concat (map fst es) @ replicate (bs - used s es) 0 @ concat (rev (map snd es)) @ encode_info s"
  have toc: "drop 56 block = encode_toc (ns_fixed s) 0 0 es @ rest"
    by (simp add: block_def encode_node_def rest_def)
  have info: "drop (bs - 40) block = encode_info s" "40 \<le> bs" if "ns_root s"
  proof -
    obtain front where front: "block = front @ encode_info s"
      by (simp add: block_def encode_node_def)
    with len that show "drop (bs - 40) block = encode_info s"
      by (auto simp: info_len_def)
    show "40 \<le> bs" using le by simp
  qed
  show ?thesis
  proof (cases "ns_root s")
    case True
    then have "\<exists>info. parse_btree_info (encode_info s) = Ok info \<and> bf_key_size (bi_fixed info) = ns_key_size s
        \<and> bf_val_size (bi_fixed info) = ns_val_size s"
      using read_enc(3) [of 0 "[]"]
      by (simp add: encode_info_def parse_btree_info_def BTREE_INFO_SIZE_def cursor_enc)
    then obtain info' where info': "parse_btree_info (encode_info s) = Ok info'"
      "bf_key_size (bi_fixed info') = ns_key_size s" "bf_val_size (bi_fixed info') = ns_val_size s"
      by blast
    show ?thesis
      using hd nh flags toc True info info' len le that
      by (simp add: block_def [symmetric] parse_btree_node_def slice_from_def OBJECT_HEADER_SIZE_def
          BTREE_NODE_HEADER_SIZE_def BTREE_INFO_SIZE_def Let_def read_encode_toc parsed_as_def nkeys_def
          info_len_def)
  next
    case False
    then show ?thesis
      using hd nh flags toc len le that
      by (simp add: block_def [symmetric] parse_btree_node_def slice_from_def OBJECT_HEADER_SIZE_def
          BTREE_NODE_HEADER_SIZE_def BTREE_INFO_SIZE_def Let_def read_encode_toc parsed_as_def nkeys_def
          info_len_def)
  qed
qed

section \<open>Keys and values of an encoded node\<close>

lemma unat_u16_small: "n < 65536 \<Longrightarrow> unat (of_nat n :: u16) = n"
  by (simp add: unat_of_nat)

lemma length_concat_take_le: "length (concat (map f (take i es))) \<le> length (concat (map f es))"
  by (metis append_take_drop_id concat_append le_add1 length_append map_append)

lemma length_nth_le_concat: "i < length es \<Longrightarrow> length (f (es ! i)) \<le> length (concat (map f es))"
  using concat_split [of i "map f es"] by simp

lemma subslice_middle:
  "length xs = a \<Longrightarrow> length ys = n \<Longrightarrow> b = a + n \<Longrightarrow> subslice (xs @ ys @ zs) a b = Ok ys"
  by (simp add: subslice_def)

lemma fits_bounds:
  assumes "node_fits s bs es" and "i < length es"
  shows "length (concat (map fst (take i es))) < 65536" and "length (fst (es ! i)) < 65536"
    and "length (concat (map snd (take i es))) + length (snd (es ! i)) < 65536" and "length (snd (es ! i)) < 65536"
proof -
  have b: "length (concat (map fst es)) < 65536" "length (concat (map snd es)) < 65536"
    using assms(1) by (auto simp: node_fits_def used_def)
  show "length (concat (map fst (take i es))) < 65536"
    using b(1) length_concat_take_le by (rule le_less_trans [rotated])
  show "length (fst (es ! i)) < 65536"
    using b(1) length_nth_le_concat [OF assms(2)] by (rule le_less_trans [rotated])
  show "length (snd (es ! i)) < 65536"
    using b(2) length_nth_le_concat [OF assms(2)] by (rule le_less_trans [rotated])
  have "length (concat (map snd (take (Suc i) es))) < 65536"
    using b(2) length_concat_take_le by (rule le_less_trans [rotated])
  then show "length (concat (map snd (take i es))) + length (snd (es ! i)) < 65536"
    using assms(2) by (simp add: take_Suc_conv_app_nth)
qed

lemma encoded_key:
  assumes node: "parsed_as node s bs (encode_node h s bs es) es" and fits: "node_fits s bs es"
    and i: "i < length es" and ks: "ns_fixed s \<Longrightarrow> ks = ns_key_size s"
  shows "node_key node i ks = Ok (fst (es ! i))"
proof -
  let ?k = "fst (es ! i)"
  define off where "off = 56 + toc_len s (length es) + length (concat (map fst (take i es)))"
  define front where "front = encode_object_header h @ le16 (flags_of s) @ le16 0 @ le32 (of_nat (length es)) @
     le16 0 @ le16 (of_nat (toc_len s (length es))) @ replicate 12 0 @ encode_toc (ns_fixed s) 0 0 es @
     concat (map fst (take i es))"
  obtain post where block: "encode_node h s bs es = front @ ?k @ post"
    using concat_split [of i "map fst es"] i
    by (simp add: encode_node_def front_def take_map)
  have front: "length front = off"
    by (simp add: front_def off_def toc_len_def)
  have "length (encode_node h s bs es) = bs"
    using fits by (simp add: node_fits_def)
  then have inside: "off + length ?k \<le> length (encode_node h s bs es)"
    using front by (simp add: block)
  have len: "(if ns_fixed s then unat ks else length ?k) = length ?k"
  proof (cases "ns_fixed s")
    case True
    then show ?thesis
      using ks fits nth_mem [OF i] by (auto simp: node_fits_def)
  qed simp
  have "subslice (encode_node h s bs es) off (off + length ?k) = (Ok ?k :: bytes apfs_result)"
    unfolding block by (rule subslice_middle) (simp_all add: front)
  moreover have "unat (te_key_off (toc_entry_of (ns_fixed s) es 0 0 i)) = length (concat (map fst (take i es)))"
    using fits_bounds(1) [OF fits i] by (simp add: toc_entry_of_def unat_u16_small)
  moreover have "(if ns_fixed s then unat ks else unat (te_key_len (toc_entry_of (ns_fixed s) es 0 0 i))) = length ?k"
    using len fits_bounds(2) [OF fits i] by (auto simp: toc_entry_of_def unat_u16_small)
  ultimately show ?thesis
    using node i inside
    by (simp add: node_key_def parsed_as_def index_def Let_def off_def not_less split del: if_split)
qed

lemma encoded_value:
  assumes node: "parsed_as node s bs (encode_node h s bs es) es" and fits: "node_fits s bs es"
    and i: "i < length es" and vs: "ns_fixed s \<Longrightarrow> ns_leaf s \<Longrightarrow> vs = ns_val_size s"
  shows "node_value node i vs = Ok (snd (es ! i))"
proof -
  let ?v = "snd (es ! i)"
  let ?voff = "length (concat (map snd (take i es))) + length ?v"
  define off where "off = bs - info_len s - ?voff"
  define front where "front = encode_object_header h @ le16 (flags_of s) @ le16 0 @ le32 (of_nat (length es)) @
     le16 0 @ le16 (of_nat (toc_len s (length es))) @ replicate 12 0 @ encode_toc (ns_fixed s) 0 0 es @
     concat (map fst es) @ replicate (bs - used s es) 0 @ concat (rev (map snd (drop (Suc i) es)))"
  have block: "encode_node h s bs es = front @ ?v @ concat (rev (map snd (take i es))) @ encode_info s"
    using concat_rev_split [of i "map snd es"] i
    by (simp add: encode_node_def front_def take_map drop_map)
  have len: "length (encode_node h s bs es) = bs"
    using fits by (simp add: node_fits_def)
  have front: "length front + ?voff + info_len s = bs"
    using arg_cong [OF block, of length] len by simp
  then have off: "length front = off"
    by (simp add: off_def)
  have area: "56 + toc_len s (length es) \<le> off"
    unfolding off [symmetric] by (simp add: front_def toc_len_def)
  have vlen: "(if \<not> ns_leaf s then 8 else if ns_fixed s then unat vs else length ?v) = length ?v"
    using vs fits nth_mem [OF i] by (fastforce simp: node_fits_def)
  have bounds: "off + length ?v \<le> bs" "?voff \<le> bs - info_len s" "bs < 65536"
    using front fits by (simp_all add: off_def node_fits_def)
  have "subslice (encode_node h s bs es) off (off + length ?v) = (Ok ?v :: bytes apfs_result)"
    unfolding block by (rule subslice_middle) (simp_all add: off)
  moreover have "usize_sub (bs - info_len s) ?voff = off" "usize_add off (length ?v) = off + length ?v"
    using bounds by (simp_all add: off_def usize_add_def usize_max_def)
  moreover have "unat (of_nat ?voff :: u16) = ?voff"
    using fits_bounds(3) [OF fits i] by (rule unat_u16_small)
  moreover have "te_val_off (toc_entry_of (ns_fixed s) es 0 0 i) = of_nat ?voff"
    using i by (simp add: toc_entry_of_def take_Suc_conv_app_nth del: of_nat_add)
  moreover have "(if \<not> ns_leaf s then 8 else if is_fixed_kv (bn_node_header node) then unat vs
      else unat (te_val_len (toc_entry_of (ns_fixed s) es 0 0 i))) = length ?v"
    using node vlen fits_bounds(4) [OF fits i] by (auto simp: parsed_as_def toc_entry_of_def unat_u16_small)
  ultimately show ?thesis
    using node i len area bounds
    by (simp add: node_value_def parsed_as_def index_def Let_def not_less
        split del: if_split del: of_nat_add)
qed

text \<open>
  C21: a node written in the on-disk form, leaf or inner, root or not, with keys and values of fixed
  or of variable size, is parsed back to exactly its entries, whatever its header: \<open>nkeys\<close> counts
  them and \<open>key(i)\<close> and \<open>value(i)\<close> return the bytes of the \<open>i\<close>-th one.
\<close>

theorem btree_node_roundtrip:
  assumes "node_fits s bs es"
  shows "\<exists>node. parse_btree_node (encode_node h s bs es) = Ok node \<and> nkeys node = length es
    \<and> (is_leaf (bn_node_header node) \<longleftrightarrow> ns_leaf s)
    \<and> (\<forall>i < length es. node_key node i (ns_key_size s) = Ok (fst (es ! i))
          \<and> node_value node i (ns_val_size s) = Ok (snd (es ! i)))"
proof -
  obtain node where "parse_btree_node (encode_node h s bs es) = Ok node"
    and node: "parsed_as node s bs (encode_node h s bs es) es"
    using parse_encode_node [OF assms] by blast
  then show ?thesis
    using encoded_key [OF node assms] encoded_value [OF node assms] by (auto simp: parsed_as_def)
qed

section \<open>Trees of encoded nodes\<close>

lemma load_encoded_child:
  assumes node: "parsed_as node s bs (encode_node h s bs es) es" and fits: "node_fits s bs es"
    and inner: "\<not> ns_leaf s" and i: "i < length es" and oid: "snd (es ! i) = le64 oid"
  shows "load_child rd resolve ps node i =
    and_then (resolve oid) (\<lambda>b. and_then (read_block rd b (bp_block_size ps)) parse_btree_node)"
proof -
  have "node_value node i 8 = Ok (le64 oid)"
    using encoded_value [OF node fits i, of 8] inner oid by simp
  then have "child_oid node i = Ok oid"
    by (simp add: child_oid_def)
  then show ?thesis
    by (simp add: load_child_def)
qed

text \<open>The block with number \<open>b\<close> holds a node of the tree.\<close>

definition node_at :: "reader \<Rightarrow> resolver \<Rightarrow> btree_params \<Rightarrow> u64 \<Rightarrow> abs_tree \<Rightarrow> bool" where
  "node_at rd resolve ps b t \<longleftrightarrow>
     (\<exists>block node. read_block rd b (bp_block_size ps) = Ok block \<and> parse_btree_node block = Ok node
        \<and> represents rd resolve ps node t)"

definition sizes_agree :: "node_shape \<Rightarrow> btree_params \<Rightarrow> bool" where
  "sizes_agree s ps \<longleftrightarrow> (ns_fixed s \<longrightarrow> bp_fixed_key_size ps = ns_key_size s \<and>
     (ns_leaf s \<longrightarrow> bp_fixed_val_size ps = ns_val_size s))"

lemma node_at_leaf:
  assumes "read_block rd b (bp_block_size ps) = Ok (encode_node h s bs es)" and fits: "node_fits s bs es"
    and "ns_leaf s" and "sizes_agree s ps"
  shows "node_at rd resolve ps b (ALeaf es)"
proof -
  obtain node where "parse_btree_node (encode_node h s bs es) = Ok node"
    and node: "parsed_as node s bs (encode_node h s bs es) es"
    using parse_encode_node [OF fits] by blast
  moreover have "represents rd resolve ps node (ALeaf es)"
    using assms node encoded_key [OF node fits] encoded_value [OF node fits]
    by (auto intro!: represents.leaf simp: parsed_as_def sizes_agree_def)
  ultimately show ?thesis
    using assms by (auto simp: node_at_def)
qed

text \<open>An inner node lists a separator and a child identifier per subtree.\<close>

lemma node_at_inner:
  assumes "read_block rd b (bp_block_size ps) = Ok (encode_node h s bs (map (\<lambda>(k, oid, t). (k, le64 oid)) cs))"
    and fits: "node_fits s bs (map (\<lambda>(k, oid, t). (k, le64 oid)) cs)"
    and "\<not> ns_leaf s" and "sizes_agree s ps"
    and children: "\<And>k oid t. (k, oid, t) \<in> set cs \<Longrightarrow> \<exists>b. resolve oid = Ok b \<and> node_at rd resolve ps b t"
  shows "node_at rd resolve ps b (ANode (map (\<lambda>(k, oid, t). (k, t)) cs))"
proof -
  let ?es = "map (\<lambda>(k, oid, t). (k, le64 oid)) cs"
  obtain node where parse: "parse_btree_node (encode_node h s bs ?es) = Ok node"
    and node: "parsed_as node s bs (encode_node h s bs ?es) ?es"
    using parse_encode_node [OF fits] by blast
  have "\<exists>child. load_child rd resolve ps node i = Ok child \<and> represents rd resolve ps child (snd (snd (cs ! i)))"
    if i: "i < length cs" for i
  proof -
    obtain k oid t where c: "cs ! i = (k, oid, t)"
      by (cases "cs ! i")
    then have "(k, oid, t) \<in> set cs"
      using i nth_mem by metis
    then obtain b' where "resolve oid = Ok b'" "node_at rd resolve ps b' t"
      using children by blast
    then show ?thesis
      using load_encoded_child [OF node fits, of i oid] i c \<open>\<not> ns_leaf s\<close> by (auto simp: node_at_def)
  qed
  then have "represents rd resolve ps node (ANode (map (\<lambda>(k, oid, t). (k, t)) cs))"
    using assms node encoded_key [OF node fits]
    by (intro represents.inner) (auto simp: parsed_as_def sizes_agree_def case_prod_unfold)
  then show ?thesis
    using assms parse by (auto simp: node_at_def)
qed

text \<open>The root names the sizes itself when it is marked as one.\<close>

definition root_params :: "node_shape \<Rightarrow> u32 \<Rightarrow> u32 \<Rightarrow> u32 \<Rightarrow> btree_params" where
  "root_params s block_size fks fvs =
     \<lparr>bp_block_size = block_size,
      bp_fixed_key_size = (if ns_root s \<and> ns_key_size s > 0 then ns_key_size s else fks),
      bp_fixed_val_size = (if ns_root s \<and> ns_val_size s > 0 then ns_val_size s else fvs)\<rparr>"

lemma params_of_parsed:
  "parsed_as node s bs block es \<Longrightarrow> params_of node block_size fks fvs = root_params s block_size fks fvs"
  by (auto simp: parsed_as_def params_of_def root_params_def split: option.splits if_splits)

lemma tree_at_encoded:
  assumes "read_block rd root block_size = Ok (encode_node h s bs es)" and fits: "node_fits s bs es"
    and "node_at rd resolve (root_params s block_size fks fvs) root t"
  shows "tree_at rd resolve root block_size fks fvs t"
proof -
  obtain node where "parse_btree_node (encode_node h s bs es) = Ok node"
    and node: "parsed_as node s bs (encode_node h s bs es) es"
    using parse_encode_node [OF fits] by blast
  then show ?thesis
    using assms params_of_parsed [OF node] by (auto simp: node_at_def tree_at_def root_params_def)
qed

section \<open>Images\<close>

text \<open>A medium of whole blocks: reading block \<open>i\<close> returns it.\<close>

lemma take_drop_concat_blocks:
  "(\<And>b. b \<in> set bs \<Longrightarrow> length b = n) \<Longrightarrow> i < length bs \<Longrightarrow> take n (drop (i * n) (concat bs)) = bs ! i"
proof (induction bs arbitrary: i)
  case (Cons b bs)
  then show ?case
    by (cases i) auto
qed simp

lemma length_concat_blocks: "(\<And>b. b \<in> set bs \<Longrightarrow> length b = n) \<Longrightarrow> length (concat bs) = length bs * n"
  by (induction bs) auto

lemma read_block_image:
  assumes "\<And>b. b \<in> set bs \<Longrightarrow> length b = unat n" and "unat i < length bs" and "length bs < 2 ^ 32"
  shows "read_block (image_reader (concat bs)) i n = Ok (bs ! unat i)"
proof -
  have "unat i * unat n < 2 ^ 32 * 2 ^ 32"
    using assms(2,3) by (intro mult_strict_mono) auto
  then have off: "unat (i * ucast n) = unat i * unat n"
    by (subst unat_mult_no_wrap) simp_all
  have "unat i * unat n + unat n \<le> length bs * unat n"
    using assms(2) by (metis Suc_leI add.commute mult_Suc mult_le_mono1)
  then show ?thesis
    using assms take_drop_concat_blocks [of bs "unat n" "unat i"] length_concat_blocks [of bs "unat n"]
    by (simp add: read_block_def seek_start_def read_exact_def image_reader_def off)
qed

end
