(* ===== verification/Btree_Correct.thy ===== *)
theory Btree_Correct
  imports Btree_Codec
begin

text \<open>
  What the B-tree code promises its clients, stated on the code's own functions: lookup and scan
  refine the list of entries of the tree on disk, fuel never changes an answer, and exactly which
  malformed nodes make the code panic or recurse without end. The examples are trees written with
  \<open>encode_node\<close>.
\<close>

section \<open>A sample tree\<close>

definition sample_header :: object_header where
  "sample_header = \<lparr>oh_checksum = 0, oh_oid = 1, oh_xid = 1, oh_type_and_flags = 2, oh_subtype = 0\<rparr>"

definition var_leaf :: node_shape where
  "var_leaf = \<lparr>ns_leaf = True, ns_root = False, ns_fixed = False, ns_key_size = 0, ns_val_size = 0\<rparr>"

definition var_root :: node_shape where
  "var_root = \<lparr>ns_leaf = False, ns_root = True, ns_fixed = False, ns_key_size = 0, ns_val_size = 0\<rparr>"

text \<open>Block 0 is the root, blocks 1 and 2 are its leaves.\<close>

definition small_blocks :: "bytes list" where
  "small_blocks =
     [encode_node sample_header var_root 160 [([1], le64 1), ([3], le64 2)],
      encode_node sample_header var_leaf 160 [([1], [10]), ([2], [20])],
      encode_node sample_header var_leaf 160 [([3], [30]), ([4, 4], [40])]]"

definition small_reader :: reader where
  "small_reader = image_reader (concat small_blocks)"

definition small_tree :: abs_tree where
  "small_tree = ANode [([1], ALeaf [([1], [10]), ([2], [20])]), ([3], ALeaf [([3], [30]), ([4, 4], [40])])]"

lemmas shape_defs = var_leaf_def var_root_def node_fits_def used_def toc_len_def info_len_def sizes_agree_def

lemma read_small_blocks:
  "i < 3 \<Longrightarrow> read_block small_reader i 160 = Ok (small_blocks ! unat i)"
  unfolding small_reader_def
  by (rule read_block_image) (auto simp: small_blocks_def shape_defs word_less_nat_alt)

lemma small_tree_at: "tree_at small_reader Ok 0 160 0 0 small_tree"
proof -
  let ?ps = "root_params var_root 160 0 0"
  have leaf1: "node_at small_reader Ok ?ps 1 (ALeaf [([1], [10]), ([2], [20])])"
    by (rule node_at_leaf [where s = var_leaf and h = sample_header and bs = 160])
      (simp_all add: root_params_def read_small_blocks small_blocks_def shape_defs)
  have leaf2: "node_at small_reader Ok ?ps 2 (ALeaf [([3], [30]), ([4, 4], [40])])"
    by (rule node_at_leaf [where s = var_leaf and h = sample_header and bs = 160])
      (simp_all add: root_params_def read_small_blocks small_blocks_def shape_defs)
  have "node_at small_reader Ok ?ps 0 (ANode (map (\<lambda>(k, oid, t). (k, t))
      [([1], 1 :: u64, ALeaf [([1], [10]), ([2], [20])]), ([3], 2, ALeaf [([3], [30]), ([4, 4], [40])])]))"
    by (rule node_at_inner [where s = var_root and h = sample_header and bs = 160])
      (use leaf1 leaf2 in \<open>auto simp: root_params_def read_small_blocks small_blocks_def shape_defs\<close>)
  then show ?thesis
    by (intro tree_at_encoded [where s = var_root and h = sample_header and bs = 160
          and es = "[([1], le64 1), ([3], le64 2)]"])
      (simp_all add: read_small_blocks small_blocks_def shape_defs small_tree_def)
qed

definition first_byte_vs :: "u8 \<Rightarrow> bytes \<Rightarrow> ordering" where
  "first_byte_vs b k = cmp_ord (hd k) b"

theorem btree_node_roundtrip_witness:
  "\<exists>node. parse_btree_node (encode_node sample_header var_leaf 128 [([1], [10]), ([2, 7], [20])]) = Ok node
     \<and> nkeys node = 2 \<and> node_key node 1 0 = Ok [2, 7] \<and> node_value node 1 0 = Ok [20]"
  using btree_node_roundtrip [of var_leaf 128 "[([1], [10]), ([2, 7], [20])]" sample_header]
  by (auto simp: shape_defs)

section \<open>Lookup and scan\<close>

text \<open>
  C13: on a tree whose entries are in the order of the comparison, \<open>btree_lookup\<close> returns the value
  of a matching entry exactly when there is one; with fuel above the height of the tree it always
  returns, without an error.
\<close>

theorem btree_lookup_correct:
  assumes "tree_at rd resolve root bs fks fvs t" and "height t < fuel"
    and "wf_tree t" and "in_order compare_fn (entries t)"
  shows "\<exists>res. btree_lookup_by fuel rd resolve root bs fks fvs compare_fn = Ok res
    \<and> (res = None \<longleftrightarrow> matches compare_fn (entries t) = [])
    \<and> (\<forall>v. res = Some v \<longrightarrow> v \<in> snd ` set (matches compare_fn (entries t)))"
proof -
  have "tree_lookup compare_fn t = None \<longleftrightarrow> matches compare_fn (entries t) = []"
    using tree_lookup_sound [of compare_fn t] tree_lookup_complete [OF assms(3,4)]
    by (cases "tree_lookup compare_fn t") (fastforce simp: matches_def filter_empty_conv)+
  moreover have "v \<in> snd ` set (matches compare_fn (entries t))" if "tree_lookup compare_fn t = Some v" for v
    using tree_lookup_sound [OF that] by (force simp: matches_def)
  ultimately show ?thesis
    using btree_lookup_by_tree [OF assms(1,2)] by auto
qed

theorem btree_lookup_correct_witness:
  "btree_lookup_by 2 small_reader Ok 0 160 0 0 (first_byte_vs 3) = Ok (Some [30])"
proof -
  have "\<exists>res. btree_lookup_by 2 small_reader Ok 0 160 0 0 (first_byte_vs 3) = Ok res
    \<and> (res = None \<longleftrightarrow> matches (first_byte_vs 3) (entries small_tree) = [])
    \<and> (\<forall>v. res = Some v \<longrightarrow> v \<in> snd ` set (matches (first_byte_vs 3) (entries small_tree)))"
    by (rule btree_lookup_correct [OF small_tree_at])
      (simp_all add: small_tree_def in_order_def first_byte_vs_def cmp_ord_def)
  then show ?thesis
    by (auto simp: small_tree_def matches_def first_byte_vs_def cmp_ord_def)
qed

text \<open>
  C14: \<open>btree_scan\<close> returns, in key order across all leaves, exactly the entries marked
  \<open>Some(true)\<close> before the first key marked \<open>None\<close>, on every tree that can be read.
\<close>

theorem btree_scan_correct:
  assumes "tree_at rd resolve root bs fks fvs t" and "height t < fuel"
  shows "btree_scan_by fuel rd resolve root bs fks fvs range_fn =
    Ok (filter (\<lambda>(k, v). range_fn k = Some True) (takeWhile (\<lambda>(k, v). range_fn k \<noteq> None) (entries t)))"
  using btree_scan_by_entries [OF assms, of range_fn] by (simp add: scan_prefix_def)

theorem btree_scan_correct_witness:
  "btree_scan_by 2 small_reader Ok 0 160 0 0 (\<lambda>k. if k = [4, 4] then None else Some (k \<noteq> [1])) =
     Ok [([2], [20]), ([3], [30])]"
proof -
  have "btree_scan_by 2 small_reader Ok 0 160 0 0 (\<lambda>k. if k = [4, 4] then None else Some (k \<noteq> [1])) =
    Ok (filter (\<lambda>(k, v). (if k = [4, 4] then None else Some (k \<noteq> [1])) = Some True)
      (takeWhile (\<lambda>(k, v). (if k = [4, 4] then None else Some (k \<noteq> [1])) \<noteq> None) (entries small_tree)))"
    by (rule btree_scan_correct [OF small_tree_at]) (simp add: small_tree_def)
  then show ?thesis
    by (simp add: small_tree_def ex_bool_eq all_bool_eq)
qed

section \<open>Fuel\<close>

text \<open>
  The fuel of the model only decides whether a traversal ends: a lookup and a scan that end
  have the same outcome with any larger fuel, whatever the blocks hold.
\<close>

theorem btree_fuel_irrelevant:
  assumes "fuel \<le> fuel'"
  shows "(btree_lookup_by fuel rd resolve root bs fks fvs compare_fn = NoFuel
      \<or> btree_lookup_by fuel' rd resolve root bs fks fvs compare_fn
        = btree_lookup_by fuel rd resolve root bs fks fvs compare_fn)
    \<and> (btree_scan_by fuel rd resolve root bs fks fvs range_fn = NoFuel
      \<or> btree_scan_by fuel' rd resolve root bs fks fvs range_fn
        = btree_scan_by fuel rd resolve root bs fks fvs range_fn)"
  using btree_lookup_by_fuel [of resolve resolve fuel fuel', OF fuel_le_refl assms]
    btree_scan_by_fuel [of resolve resolve fuel fuel', OF fuel_le_refl assms]
  by (metis fuel_le_def)

theorem btree_fuel_irrelevant_witness:
  "btree_lookup_by 9 small_reader Ok 0 160 0 0 (first_byte_vs 3)
     = btree_lookup_by 2 small_reader Ok 0 160 0 0 (first_byte_vs 3)"
proof -
  have "btree_lookup_by 2 small_reader Ok 0 160 0 0 (first_byte_vs 3) \<noteq> NoFuel"
    by (subst btree_lookup_by_tree [OF small_tree_at]) (simp_all add: small_tree_def)
  with btree_fuel_irrelevant [of 2 9 small_reader Ok 0 160 0 0 "first_byte_vs 3"] show ?thesis
    by simp
qed

text \<open>
  C27: the code has no bound on its recursion: when every block the reader returns is the same inner
  node whose first key is not above the search key, a lookup never ends, with any fuel.
\<close>

theorem btree_lookup_cycle_diverges:
  assumes "\<And>b. read_block rd b bs = Ok block" and "parse_btree_node block = Ok node"
    and "\<not> is_leaf (bn_node_header node)" and "child_oid node i = Ok oid" and "resolve oid = Ok b'"
    and "find_child (params_of node bs fks fvs) compare_fn node [0..<nkeys node] None = Ok (Some i)"
  shows "btree_lookup_by fuel rd resolve root bs fks fvs compare_fn = NoFuel"
proof -
  have "load_child rd resolve (params_of node bs fks fvs) node i = Ok node"
    using assms by (simp add: load_child_def params_of_def Let_def split: option.split)
  then have "btree_lookup_node fuel rd resolve (params_of node bs fks fvs) compare_fn node = NoFuel"
    by (induction fuel) (use assms in simp_all)
  with assms show ?thesis
    by (simp add: btree_lookup_by_def)
qed

definition loop_block :: bytes where
  "loop_block = encode_node sample_header \<lparr>ns_leaf = False, ns_root = False, ns_fixed = False, ns_key_size = 0, ns_val_size = 0\<rparr>
     80 [([1], le64 7)]"

theorem btree_lookup_cycle_diverges_witness:
  "btree_lookup_by 1000 \<lparr>rd_seek = \<lambda>_. Ok (), rd_read_exact = \<lambda>_ _. Ok loop_block\<rparr> Ok 0 80 0 0 (first_byte_vs 3) = NoFuel"
proof -
  let ?s = "\<lparr>ns_leaf = False, ns_root = False, ns_fixed = False, ns_key_size = 0, ns_val_size = 0\<rparr>"
  have fits: "node_fits ?s 80 [([1], le64 7)]"
    by (simp add: shape_defs)
  obtain node where parse: "parse_btree_node loop_block = Ok node"
    and node: "parsed_as node ?s 80 loop_block [([1], le64 7)]"
    using parse_encode_node [OF fits] unfolding loop_block_def by metis
  have "node_value node 0 8 = Ok (le64 7)"
    using encoded_value [OF node [unfolded loop_block_def] fits, of 0 8] by simp
  then have child: "child_oid node 0 = Ok 7"
    by (simp add: child_oid_def)
  have key: "node_key node 0 k = Ok [1]" for k
    using encoded_key [OF node [unfolded loop_block_def] fits, of 0] by simp
  have "nkeys node = 1"
    using node by (simp add: parsed_as_def)
  then have "find_child (params_of node 80 0 0) (first_byte_vs 3) node [0..<nkeys node] None = Ok (Some 0)"
    using key by (simp add: first_byte_vs_def cmp_ord_def)
  then show ?thesis
    using node parse child
    by (intro btree_lookup_cycle_diverges [of _ _ loop_block node 0 7 Ok 7])
      (simp_all add: parsed_as_def read_block_def seek_start_def read_exact_def)
qed

section \<open>When a value panics\<close>

lemma parse_btree_node_shape:
  assumes "parse_btree_node block = Ok node"
  shows "bn_block_data node = block" and "bn_val_area_end node \<le> length block"
    and "bn_key_area_off node < 2 ^ 18" and "60 \<le> length block"
proof -
  have len: "60 \<le> length block"
    using assms by (auto simp: parse_btree_node_def OBJECT_HEADER_SIZE_def outcome_iffs
        dest!: parse_btree_node_header_length)
  then show "60 \<le> length block" .
  show "bn_block_data node = block"
    using assms by (auto simp: parse_btree_node_def Let_def outcome_iffs)
  show "bn_val_area_end node \<le> length block"
    using assms len by (auto simp: parse_btree_node_def Let_def outcome_iffs BTREE_INFO_SIZE_def)
  have "56 + unat (a :: u16) + unat (b :: u16) < 2 ^ 18" for a b
    using unat_less_pow16 [of a] unat_less_pow16 [of b] by (simp del: unat_less_pow16)
  then show "bn_key_area_off node < 2 ^ 18"
    using assms by (auto simp: parse_btree_node_def Let_def outcome_iffs OBJECT_HEADER_SIZE_def
        BTREE_NODE_HEADER_SIZE_def simp del: unat_less_pow16)
qed

text \<open>The length of the value that \<open>value(i)\<close> computes.\<close>

definition value_len :: "btree_node \<Rightarrow> nat \<Rightarrow> u32 \<Rightarrow> nat" where
  "value_len node i fixed_val_size =
     (if \<not> is_leaf (bn_node_header node) then 8
      else if is_fixed_kv (bn_node_header node) then unat fixed_val_size
      else unat (te_val_len (bn_toc node ! i)))"

text \<open>
  C26: reading a value of a parsed node panics exactly when its offset lies before the value area
  by no more than its length and the wrapped end lies in the block: the bounds check of the code
  passes there although the start is beyond the end. Every other bad offset is an error value.
\<close>

theorem node_value_panic_iff:
  assumes "parse_btree_node block = Ok node" and "length block < 2 ^ 32" and "i < length (bn_toc node)"
  shows "node_value node i fvs = Panic \<longleftrightarrow>
    bn_val_area_end node < unat (te_val_off (bn_toc node ! i)) \<and>
    unat (te_val_off (bn_toc node ! i)) \<le> bn_val_area_end node + value_len node i fvs \<and>
    bn_val_area_end node + value_len node i fvs - unat (te_val_off (bn_toc node ! i)) \<le> length block"
proof -
  define vae off len where "vae = bn_val_area_end node" and "off = unat (te_val_off (bn_toc node ! i))"
    and "len = value_len node i fvs"
  have shape: "bn_block_data node = block" "vae \<le> length block" "bn_key_area_off node < 2 ^ 18"
    using parse_btree_node_shape [OF assms(1)] by (simp_all add: vae_def)
  have off: "off < 2 ^ 16"
    by (simp add: off_def)
  have "unat (te_val_len (bn_toc node ! i)) < 2 ^ 32"
    by (rule less_trans [OF unat_less_pow16]) simp
  then have len: "len < 2 ^ 32"
    by (simp add: len_def value_len_def)
  have "node_value node i fvs = Panic \<longleftrightarrow>
      (let start = usize_sub vae off; end' = usize_add start len in
        end' \<le> length block \<and> bn_key_area_off node \<le> start \<and> end' < start)"
    using assms(3) shape
    by (auto simp: node_value_def index_def Let_def subslice_def not_less vae_def off_def len_def value_len_def)
  also have "\<dots> \<longleftrightarrow> vae < off \<and> off \<le> vae + len \<and> vae + len - off \<le> length block"
  proof (cases "off \<le> vae")
    case True
    then have "usize_sub vae off = vae - off" "usize_add (vae - off) len = vae - off + len"
      using shape assms(2) len by (simp_all add: usize_add_def usize_max_def)
    with True show ?thesis by (auto simp: Let_def)
  next
    case False
    then have start: "usize_sub vae off = vae + usize_max - off"
      by (simp add: usize_sub_def)
    have "bn_key_area_off node \<le> vae + usize_max - off"
      using off shape(3) by (simp add: usize_max_def)
    moreover have "usize_add (vae + usize_max - off) len =
        (if off \<le> vae + len then vae + len - off else vae + usize_max - off + len)"
      using False off len shape(2) assms(2) by (auto simp: usize_add_def usize_max_def mod_if)
    ultimately show ?thesis
      using False off shape(2) assms(2) len start by (auto simp: Let_def usize_max_def)
  qed
  finally show ?thesis
    by (simp add: vae_def off_def len_def)
qed

definition bad_value_block :: bytes where
  "bad_value_block = encode_object_header sample_header @ le16 2 @ le16 0 @ le32 1 @ le16 0 @ le16 8 @ replicate 12 0 @
     le16 0 @ le16 0 @ le16 65 @ le16 2"

theorem node_value_panic_iff_witness:
  "\<exists>node. parse_btree_node bad_value_block = Ok node \<and> node_value node 0 0 = Panic"
proof -
  let ?nh = "drop 32 bad_value_block"
  have len: "length bad_value_block = 64"
    by (simp add: bad_value_block_def)
  have "u16_at ?nh 0 = 2" "u32_at ?nh 4 = 1" "u16_at ?nh 8 = 0"
    using at_append(1) [of "[]" 0] at_append(2) [of "le16 2 @ le16 0" 4]
      at_append(1) [of "le16 2 @ le16 0 @ le32 1" 8]
    by (simp_all add: bad_value_block_def)
  moreover have "28 \<le> length ?nh"
    by (simp add: len)
  ultimately obtain nh where nh: "parse_btree_node_header ?nh = Ok nh" "nh_flags nh = 2" "nh_nkeys nh = 1"
    "nh_table_space_off nh = 0"
    using parse_btree_node_header_at [of ?nh] by auto
  obtain hd where hd: "parse_object_header bad_value_block = Ok hd"
    using parse_object_header_at [of bad_value_block] len by auto
  have "drop 56 bad_value_block = le16 0 @ le16 0 @ le16 65 @ le16 2 @ []"
    by (simp add: bad_value_block_def)
  then have toc: "read_toc False (Suc 0) (drop 56 bad_value_block) =
      Ok [\<lparr>te_key_off = 0, te_key_len = 0, te_val_off = 65, te_val_len = 2\<rparr>]"
    by (simp only: read_toc.simps if_False) (simp add: cursor_enc del: append_Nil2)
  have flags: "is_leaf nh" "\<not> is_root nh" "\<not> is_fixed_kv nh"
    by (simp_all add: nh is_leaf_def is_root_def is_fixed_kv_def BTNODE_LEAF_def BTNODE_ROOT_def BTNODE_FIXED_KV_SIZE_def)
  obtain node where parse: "parse_btree_node bad_value_block = Ok node"
    and node: "bn_val_area_end node = 64" "bn_node_header node = nh"
      "bn_toc node = [\<lparr>te_key_off = 0, te_key_len = 0, te_val_off = 65, te_val_len = 2\<rparr>]"
    using hd nh toc len flags
    by (simp add: parse_btree_node_def slice_from_def OBJECT_HEADER_SIZE_def BTREE_NODE_HEADER_SIZE_def Let_def)
  have "node_value node 0 0 = Panic"
    by (subst node_value_panic_iff [OF parse]) (simp_all add: len node value_len_def flags)
  with parse show ?thesis by blast
qed

end
