(* ===== verification/Omap.thy ===== *)
theory Omap
  imports Btree_Correct "HOL-Library.Option_ord"
begin

text \<open>
  \<open>vendor/apfs/src/omap.rs\<close>, and the part of \<open>btree.rs\<close> that depends on it: the object map, which
  takes a virtual object identifier to a physical block, and the traversals of virtual trees whose
  child pointers go through it. An object map tree is itself physical, so the mutual recursion of the
  two files has depth one.
\<close>

definition OMAP_KEY_SIZE :: u32 where "OMAP_KEY_SIZE = 16"
definition OMAP_VAL_SIZE :: u32 where "OMAP_VAL_SIZE = 16"

definition read_omap_tree_root :: "reader \<Rightarrow> u64 \<Rightarrow> u32 \<Rightarrow> u64 apfs_result" where
  "read_omap_tree_root rd omap_block block_size =
     and_then (read_block rd omap_block block_size) (\<lambda>block_data.
     and_then (slice_from block_data OBJECT_HEADER_SIZE) (\<lambda>c.
     and_then (read_u32 c) (\<lambda>(om_flags, c).
     and_then (read_u32 c) (\<lambda>(om_snap_count, c).
     and_then (read_u32 c) (\<lambda>(om_tree_type, c).
     and_then (read_u32 c) (\<lambda>(om_snap_tree_type, c).
     and_then (read_u64 c) (\<lambda>(om_tree_oid, c).
       Ok om_tree_oid)))))))"

definition parse_omap_val :: "bytes \<Rightarrow> u64 apfs_result" where
  "parse_omap_val val =
     (if length val < 16 then Err (InvalidBTree (lit ''omap value too short''))
      else Ok (u64_at val 8))"

definition omap_compare :: "u64 \<Rightarrow> bytes \<Rightarrow> ordering" where
  "omap_compare target_oid key =
     (if length key < 16 then Less else cmp_ord (u64_at key 0) target_oid)"

definition omap_range :: "u64 \<Rightarrow> bytes \<Rightarrow> bool option" where
  "omap_range target_oid key =
     (if length key < 16 then Some False
      else let key_oid = u64_at key 0 in
        if key_oid < target_oid then Some False
        else if key_oid = target_oid then Some True
        else None)"

text \<open>The loop that keeps the mapping with the highest transaction; \<open>>=\<close> lets a later one win.\<close>

fun best_mapping :: "entry list \<Rightarrow> u64 \<Rightarrow> u64 \<Rightarrow> u64 apfs_result" where
  "best_mapping [] best_xid best_paddr = Ok best_paddr"
| "best_mapping ((key, val) # es) best_xid best_paddr =
     (if length key \<ge> 16 \<and> u64_at key 8 \<ge> best_xid then
        and_then (parse_omap_val val) (\<lambda>paddr. best_mapping es (u64_at key 8) paddr)
      else best_mapping es best_xid best_paddr)"

definition omap_not_found :: "u64 \<Rightarrow> apfs_error" where
  "omap_not_found oid = CorruptedData (lit ''OMAP lookup failed: OID '' @ dec (unat oid) @ lit '' not found'')"

definition omap_lookup :: "nat \<Rightarrow> reader \<Rightarrow> u64 \<Rightarrow> u32 \<Rightarrow> u64 \<Rightarrow> u64 apfs_result" where
  "omap_lookup fuel rd omap_tree_root block_size target_oid =
     and_then (btree_lookup_by fuel rd Ok omap_tree_root block_size OMAP_KEY_SIZE OMAP_VAL_SIZE
         (omap_compare target_oid)) (\<lambda>result.
     case result of
       Some val \<Rightarrow> parse_omap_val val
     | None \<Rightarrow>
         and_then (btree_scan_by fuel rd Ok omap_tree_root block_size OMAP_KEY_SIZE OMAP_VAL_SIZE
             (omap_range target_oid)) (\<lambda>entries.
         if entries = [] then Err (omap_not_found target_oid)
         else
           and_then (best_mapping entries 0 0) (\<lambda>best_paddr.
           if best_paddr = 0 then
             Err (CorruptedData (lit ''OMAP lookup: OID '' @ dec (unat target_oid) @ lit '' resolved to paddr 0''))
           else Ok best_paddr)))"

section \<open>Virtual trees\<close>

definition resolve_child_oid :: "nat \<Rightarrow> reader \<Rightarrow> u64 \<Rightarrow> u32 \<Rightarrow> u64 option \<Rightarrow> u64 apfs_result" where
  "resolve_child_oid fuel rd oid block_size omap_root =
     (case omap_root of
        Some omap \<Rightarrow> omap_lookup fuel rd omap block_size oid
      | None \<Rightarrow> Ok oid)"

definition resolver_of :: "nat \<Rightarrow> reader \<Rightarrow> u32 \<Rightarrow> u64 option \<Rightarrow> resolver" where
  "resolver_of fuel rd block_size omap_root = (\<lambda>oid. resolve_child_oid fuel rd oid block_size omap_root)"

definition btree_lookup ::
    "nat \<Rightarrow> reader \<Rightarrow> u64 \<Rightarrow> u32 \<Rightarrow> u32 \<Rightarrow> u32 \<Rightarrow> (bytes \<Rightarrow> ordering) \<Rightarrow> u64 option \<Rightarrow> bytes option apfs_result" where
  "btree_lookup fuel rd root_block block_size fixed_key_size fixed_val_size compare_fn omap_root =
     btree_lookup_by fuel rd (resolver_of fuel rd block_size omap_root) root_block block_size
       fixed_key_size fixed_val_size compare_fn"

definition btree_scan ::
    "nat \<Rightarrow> reader \<Rightarrow> u64 \<Rightarrow> u32 \<Rightarrow> u32 \<Rightarrow> u32 \<Rightarrow> (bytes \<Rightarrow> bool option) \<Rightarrow> u64 option \<Rightarrow> entry list apfs_result" where
  "btree_scan fuel rd root_block block_size fixed_key_size fixed_val_size range_fn omap_root =
     btree_scan_by fuel rd (resolver_of fuel rd block_size omap_root) root_block block_size
       fixed_key_size fixed_val_size range_fn"

text \<open>The object map calls the traversals with no object map of its own.\<close>

lemma resolver_physical [simp]: "resolver_of fuel rd bs None = Ok"
  by (simp add: resolver_of_def resolve_child_oid_def)

lemma btree_lookup_physical: "btree_lookup fuel rd root bs fks fvs f None = btree_lookup_by fuel rd Ok root bs fks fvs f"
  by (simp add: btree_lookup_def)

lemma btree_scan_physical: "btree_scan fuel rd root bs fks fvs f None = btree_scan_by fuel rd Ok root bs fks fvs f"
  by (simp add: btree_scan_def)

lemma omap_lookup_fuel:
  assumes "fuel \<le> fuel'"
  shows "fuel_le (omap_lookup fuel rd root bs oid) (omap_lookup fuel' rd root bs oid)"
  unfolding omap_lookup_def
  by (auto intro!: fuel_le_and_then btree_lookup_by_fuel btree_scan_by_fuel assms split: option.split)

lemma resolver_of_fuel: "fuel \<le> fuel' \<Longrightarrow> fuel_le (resolver_of fuel rd bs om oid) (resolver_of fuel' rd bs om oid)"
  by (auto simp: resolver_of_def resolve_child_oid_def omap_lookup_fuel split: option.split)

lemma btree_lookup_fuel:
  "fuel \<le> fuel' \<Longrightarrow> fuel_le (btree_lookup fuel rd root bs fks fvs f om) (btree_lookup fuel' rd root bs fks fvs f om)"
  unfolding btree_lookup_def by (intro btree_lookup_by_fuel resolver_of_fuel)

lemma btree_scan_fuel:
  "fuel \<le> fuel' \<Longrightarrow> fuel_le (btree_scan fuel rd root bs fks fvs f om) (btree_scan fuel' rd root bs fks fvs f om)"
  unfolding btree_scan_def by (intro btree_scan_by_fuel resolver_of_fuel)

section \<open>The object map as a map\<close>

text \<open>Keys too short to hold an identifier sort before all others: they have the rank \<open>None\<close>.\<close>

definition omap_rank :: "bytes \<Rightarrow> u64 option" where
  "omap_rank key = (if length key < 16 then None else Some (u64_at key 0))"

interpretation omap_search: ranked_search omap_rank "Some oid" "omap_compare oid" "omap_range oid"
  for oid
  by unfold_locales (auto simp: omap_rank_def omap_compare_def omap_range_def cmp_ord_def Let_def)

text \<open>A well-formed object map: full-sized entries in the order of their identifiers.\<close>

definition omap_at :: "reader \<Rightarrow> u64 \<Rightarrow> u32 \<Rightarrow> abs_tree \<Rightarrow> bool" where
  "omap_at rd root bs t \<longleftrightarrow>
     tree_at rd Ok root bs OMAP_KEY_SIZE OMAP_VAL_SIZE t \<and> wf_tree t \<and> ascending omap_rank (entries t) \<and>
     (\<forall>(k, v) \<in> set (entries t). 16 \<le> length k \<and> 16 \<le> length v)"

definition mappings :: "abs_tree \<Rightarrow> u64 \<Rightarrow> entry list" where
  "mappings t oid = hits omap_rank (Some oid) (entries t)"

lemma mappings_eq: "mappings t oid = filter (\<lambda>(k, v). 16 \<le> length k \<and> u64_at k 0 = oid) (entries t)"
  by (auto simp: mappings_def hits_def omap_rank_def intro!: filter_cong split: if_splits)

lemma omap_lookup_outcome:
  assumes "omap_at rd root bs t" and "height t < fuel"
  shows "omap_lookup fuel rd root bs oid =
    (case tree_lookup (omap_compare oid) t of None \<Rightarrow> Err (omap_not_found oid) | Some v \<Rightarrow> Ok (u64_at v 8))"
proof -
  have t: "tree_at rd Ok root bs OMAP_KEY_SIZE OMAP_VAL_SIZE t" "wf_tree t" "ascending omap_rank (entries t)"
    using assms(1) by (simp_all add: omap_at_def)
  note direct = btree_lookup_by_tree [OF t(1) assms(2), of "omap_compare oid"]
  show ?thesis
  proof (cases "tree_lookup (omap_compare oid) t")
    case None
    then have "btree_scan_by fuel rd Ok root bs OMAP_KEY_SIZE OMAP_VAL_SIZE (omap_range oid) = Ok []"
      using direct by (intro omap_search.fallback_empty [OF t(1) assms(2) t(2,3)]) simp
    with None direct show ?thesis
      by (simp add: omap_lookup_def)
  next
    case (Some v)
    then have "16 \<le> length v"
      using tree_lookup_sound assms(1) by (fastforce simp: omap_at_def)
    with Some direct show ?thesis
      by (simp add: omap_lookup_def parse_omap_val_def)
  qed
qed

lemma tree_lookup_mappings:
  assumes "omap_at rd root bs t"
  shows "tree_lookup (omap_compare oid) t = None \<longleftrightarrow> mappings t oid = []"
    and "tree_lookup (omap_compare oid) t = Some v \<Longrightarrow> v \<in> snd ` set (mappings t oid)"
proof -
  have t: "wf_tree t" "in_order (omap_compare oid) (entries t)"
    using assms omap_search.in_order_ascending by (simp_all add: omap_at_def)
  show "tree_lookup (omap_compare oid) t = Some v \<Longrightarrow> v \<in> snd ` set (mappings t oid)" for v
    using tree_lookup_sound [of "omap_compare oid" t v]
    by (force simp: mappings_def simp flip: omap_search.matches_hits simp: matches_def)
  then show "tree_lookup (omap_compare oid) t = None \<longleftrightarrow> mappings t oid = []"
    using tree_lookup_complete [OF t]
    by (cases "tree_lookup (omap_compare oid) t")
      (fastforce simp: mappings_def matches_def filter_empty_conv simp flip: omap_search.matches_hits)+
qed

text \<open>What an object map means when no identifier is mapped twice: a partial function.\<close>

definition omap_abs :: "abs_tree \<Rightarrow> u64 \<Rightarrow> u64 option" where
  "omap_abs t oid = map_of (map (\<lambda>(k, v). (u64_at k 0, u64_at v 8)) (entries t)) oid"

lemma map_of_single:
  assumes "filter (\<lambda>(k, v). k = x) xs = [e]"
  shows "map_of xs x = Some (snd e)"
  using assms
proof (induction xs)
  case (Cons p xs)
  then show ?case
    by (cases p) (auto simp: filter_empty_conv split: if_splits)
qed simp

lemma omap_abs_mappings:
  assumes "omap_at rd root bs t"
  shows "mappings t oid = [] \<longleftrightarrow> omap_abs t oid = None"
    and "mappings t oid = [(k, v)] \<Longrightarrow> omap_abs t oid = Some (u64_at v 8)"
proof -
  have m: "mappings t oid = filter (\<lambda>(k, v). u64_at k 0 = oid) (entries t)"
    unfolding mappings_eq using assms by (auto simp: omap_at_def intro!: filter_cong)
  show "mappings t oid = [] \<longleftrightarrow> omap_abs t oid = None"
    by (auto simp: m omap_abs_def map_of_eq_None_iff filter_empty_conv image_iff)
  have "filter (\<lambda>(k, v). k = oid) (map (\<lambda>(k, v). (u64_at k 0, u64_at v 8)) (entries t)) =
      map (\<lambda>(k, v). (u64_at k 0, u64_at v 8)) (mappings t oid)"
    by (simp add: m filter_map o_def case_prod_unfold)
  then show "mappings t oid = [(k, v)] \<Longrightarrow> omap_abs t oid = Some (u64_at v 8)"
    unfolding omap_abs_def by (subst map_of_single) auto
qed

section \<open>Properties\<close>

text \<open>
  C23: on a well-formed object map with at most one mapping of the identifier, \<open>omap_lookup\<close> computes
  the partial function the tree stands for: the mapped block, or the "not found" error; the scan
  it falls back to is then always empty.
\<close>

theorem omap_lookup_correct:
  assumes "omap_at rd root bs t" and "height t < fuel" and "length (mappings t oid) \<le> 1"
  shows "omap_lookup fuel rd root bs oid = ok_or (omap_abs t oid) (omap_not_found oid)"
proof (cases "mappings t oid")
  case Nil
  then have "tree_lookup (omap_compare oid) t = None" "omap_abs t oid = None"
    using tree_lookup_mappings(1) [OF assms(1)] omap_abs_mappings(1) [OF assms(1)] by blast+
  then show ?thesis
    using omap_lookup_outcome [OF assms(1,2), of oid] by simp
next
  case (Cons e es)
  then obtain k v where single: "mappings t oid = [(k, v)]"
    using assms(3) by (cases e) auto
  then obtain w where w: "tree_lookup (omap_compare oid) t = Some w"
    using tree_lookup_mappings(1) [OF assms(1)] by (cases "tree_lookup (omap_compare oid) t") auto
  with tree_lookup_mappings(2) [OF assms(1) w] single have "w = v"
    by simp
  with w single show ?thesis
    using omap_lookup_outcome [OF assms(1,2)] omap_abs_mappings(2) [OF assms(1)] by simp
qed

text \<open>
  With several mappings of one identifier in a leaf, in the order of their transactions as the
  format demands, \<open>omap_lookup\<close> returns the first, that is the oldest one; the code that would pick
  the highest transaction is never reached.
\<close>

theorem omap_lookup_takes_first:
  assumes "omap_at rd root bs (ALeaf es)" and "0 < fuel" and "mappings (ALeaf es) oid = (k, v) # rest"
  shows "omap_lookup fuel rd root bs oid = Ok (u64_at v 8)"
proof -
  have "in_order (omap_compare oid) es"
    using assms(1) omap_search.in_order_ascending by (fastforce simp: omap_at_def)
  then have "leaf_find (omap_compare oid) es = Some v"
    using assms(3) by (simp add: leaf_find_matches omap_search.matches_hits mappings_def)
  then show ?thesis
    using omap_lookup_outcome [OF assms(1)] assms(2) by simp
qed

section \<open>A sample object map\<close>

definition omap_root_shape :: node_shape where
  "omap_root_shape = \<lparr>ns_leaf = True, ns_root = True, ns_fixed = True, ns_key_size = 16, ns_val_size = 16\<rparr>"

definition omap_entry :: "u64 \<Rightarrow> u64 \<Rightarrow> u64 \<Rightarrow> entry" where
  "omap_entry oid xid paddr = (le64 oid @ le64 xid, le32 0 @ le32 4096 @ le64 paddr)"

lemma omap_entry_at [simp]:
  "u64_at (le64 a @ le64 b) 0 = a" "u64_at (le64 a @ le64 b) 8 = b" "u64_at (le32 c @ le32 d @ le64 b) 8 = b"
  by (simp_all add: u64_at_def)

text \<open>An object map in a single block holds the given entries.\<close>

lemma omap_at_leaf:
  assumes "read_block rd root bs = Ok (encode_node h omap_root_shape n es)" and "node_fits omap_root_shape n es"
    and "ascending omap_rank es"
  shows "omap_at rd root bs (ALeaf es)"
proof -
  have "tree_at rd Ok root bs OMAP_KEY_SIZE OMAP_VAL_SIZE (ALeaf es)"
    using assms(1,2) by (intro tree_at_encoded [where es = es] node_at_leaf)
      (auto simp: root_params_def omap_root_shape_def sizes_agree_def)
  moreover have "\<forall>(k, v) \<in> set es. 16 \<le> length k \<and> 16 \<le> length v"
    using assms(2) by (auto simp: node_fits_def omap_root_shape_def)
  ultimately show ?thesis
    using assms(3) by (simp add: omap_at_def)
qed

definition sample_omap_entries :: "entry list" where
  "sample_omap_entries = [omap_entry 1026 5 10, omap_entry 1028 3 20, omap_entry 1028 7 21]"

definition sample_omap_reader :: reader where
  "sample_omap_reader = image_reader (encode_node sample_header omap_root_shape 256 sample_omap_entries)"

lemma sample_omap_at: "omap_at sample_omap_reader 0 256 (ALeaf sample_omap_entries)"
proof (rule omap_at_leaf)
  have fits: "node_fits omap_root_shape 256 sample_omap_entries"
    by (simp add: shape_defs omap_root_shape_def sample_omap_entries_def omap_entry_def)
  then show "node_fits omap_root_shape 256 sample_omap_entries" .
  show "read_block sample_omap_reader 0 256 = Ok (encode_node sample_header omap_root_shape 256 sample_omap_entries)"
    using fits by (simp add: sample_omap_reader_def read_block_def seek_start_def read_exact_def image_reader_def
        node_fits_def)
  show "ascending omap_rank sample_omap_entries"
    by (simp add: ascending_def sample_omap_entries_def omap_entry_def omap_rank_def)
qed

theorem omap_lookup_correct_witness:
  "omap_lookup 1 sample_omap_reader 0 256 1026 = Ok 10
   \<and> omap_lookup 1 sample_omap_reader 0 256 1027 = Err (omap_not_found 1027)"
  using omap_lookup_correct [OF sample_omap_at, of 1 1026] omap_lookup_correct [OF sample_omap_at, of 1 1027]
  by (simp add: mappings_eq omap_abs_def sample_omap_entries_def omap_entry_def)

theorem omap_lookup_takes_first_witness:
  "omap_lookup 1 sample_omap_reader 0 256 1028 = Ok 20"
  using omap_lookup_takes_first [OF sample_omap_at, of 1 1028 "le64 1028 @ le64 3"]
  by (simp add: mappings_eq sample_omap_entries_def omap_entry_def)

end
