(* ===== verification/Catalog_Records.thy ===== *)
theory Catalog_Records
  imports Superblock Btree
begin

text \<open>
  The record formats of \<open>vendor/apfs/src/catalog.rs\<close>: catalog keys, inode values with their extended
  fields, directory records and file extents, each with its on-disk form and a round trip.
\<close>

definition J_TYPE_INODE :: u8 where "J_TYPE_INODE = 3"
definition J_TYPE_FILE_EXTENT :: u8 where "J_TYPE_FILE_EXTENT = 8"
definition J_TYPE_DIR_REC :: u8 where "J_TYPE_DIR_REC = 9"
definition ROOT_DIR_RECORD :: u64 where "ROOT_DIR_RECORD = 2"
definition INODE_DIR_TYPE :: u16 where "INODE_DIR_TYPE = 0x4000"
definition INODE_SYMLINK_TYPE :: u16 where "INODE_SYMLINK_TYPE = 0xA000"
definition INO_EXT_TYPE_DSTREAM :: u8 where "INO_EXT_TYPE_DSTREAM = 8"
definition DT_REG :: u16 where "DT_REG = 8"
definition DT_DIR :: u16 where "DT_DIR = 4"
definition DT_LNK :: u16 where "DT_LNK = 10"

section \<open>Inodes\<close>

record inode_val =
  iv_parent_id :: u64
  iv_private_id :: u64
  iv_create_time :: i64
  iv_modify_time :: i64
  iv_change_time :: i64
  iv_access_time :: i64
  iv_internal_flags :: u64
  iv_nchildren_or_nlink :: i32
  iv_default_protection_class :: u32
  iv_write_generation_counter :: u32
  iv_bsd_flags :: u32
  iv_uid :: u32
  iv_gid :: u32
  iv_mode :: u16
  iv_pad1 :: u16
  iv_uncompressed_size :: u64
  iv_dstream_size :: "u64 option"

definition INODE_FIXED_SIZE :: nat where "INODE_FIXED_SIZE = 92"

text \<open>The loop over the descriptors of the extended fields; the \<open>?\<close> of the code are the binds.\<close>

fun dstream_scan :: "bytes \<Rightarrow> nat list \<Rightarrow> nat \<Rightarrow> u64 option" where
  "dstream_scan xfield_data [] data_offset = None"
| "dstream_scan xfield_data (i # is) data_offset =
     Option.bind (checked_usize_mul i 4) (\<lambda>i4.
     Option.bind (checked_usize_add i4 4) (\<lambda>entry_off.
     Option.bind (checked_usize_add entry_off 4) (\<lambda>entry_end.
     Option.bind (get_range xfield_data entry_off entry_end) (\<lambda>entry.
     let x_type = entry ! 0; x_size = unat (u16_at entry 2) in
     if x_type = INO_EXT_TYPE_DSTREAM \<and> x_size \<ge> 8 then
       Option.bind (checked_usize_add data_offset 8) (\<lambda>dstream_end.
       Option.bind (get_range xfield_data data_offset dstream_end) (\<lambda>dstream.
         Some (word_of_le dstream)))
     else
       Option.bind (checked_usize_add x_size 7) (\<lambda>s.
       let padded_size = s - s mod 8 in
       Option.bind (checked_usize_add data_offset padded_size) (\<lambda>data_offset.
         dstream_scan xfield_data is data_offset))))))"

definition parse_dstream_size :: "bytes \<Rightarrow> u64 option" where
  "parse_dstream_size xfield_data =
     Option.bind (get_range xfield_data 0 4) (\<lambda>header.
     let xf_num_exts = unat (u16_at header 0) in
     if xf_num_exts = 0 then None
     else
       Option.bind (checked_usize_mul xf_num_exts 4) (\<lambda>n4.
       Option.bind (checked_usize_add n4 4) (\<lambda>entries_end.
       if entries_end > length xfield_data then None
       else dstream_scan xfield_data [0..<xf_num_exts] entries_end)))"

definition parse_inode_val :: "bytes \<Rightarrow> inode_val apfs_result" where
  "parse_inode_val data =
     (if length data < INODE_FIXED_SIZE
      then Err (CorruptedData (lit ''inode value too short: '' @ dec (length data) @ lit '' bytes''))
      else
        and_then (read_u64 data) (\<lambda>(parent_id, c).
        and_then (read_u64 c) (\<lambda>(private_id, c).
        and_then (read_u64 c) (\<lambda>(create_time, c).
        and_then (read_u64 c) (\<lambda>(modify_time, c).
        and_then (read_u64 c) (\<lambda>(change_time, c).
        and_then (read_u64 c) (\<lambda>(access_time, c).
        and_then (read_u64 c) (\<lambda>(internal_flags, c).
        and_then (read_u32 c) (\<lambda>(nchildren_or_nlink, c).
        and_then (read_u32 c) (\<lambda>(default_protection_class, c).
        and_then (read_u32 c) (\<lambda>(write_generation_counter, c).
        and_then (read_u32 c) (\<lambda>(bsd_flags, c).
        and_then (read_u32 c) (\<lambda>(uid, c).
        and_then (read_u32 c) (\<lambda>(gid, c).
        and_then (read_u16 c) (\<lambda>(mode, c).
        and_then (read_u16 c) (\<lambda>(pad1, c).
        and_then (read_u64 c) (\<lambda>(uncompressed_size, c).
        and_then (slice_from data INODE_FIXED_SIZE) (\<lambda>xfields.
        let dstream_size = parse_dstream_size xfields in
          Ok \<lparr>iv_parent_id = parent_id, iv_private_id = private_id, iv_create_time = create_time,
              iv_modify_time = modify_time, iv_change_time = change_time, iv_access_time = access_time,
              iv_internal_flags = internal_flags, iv_nchildren_or_nlink = nchildren_or_nlink,
              iv_default_protection_class = default_protection_class,
              iv_write_generation_counter = write_generation_counter, iv_bsd_flags = bsd_flags,
              iv_uid = uid, iv_gid = gid, iv_mode = mode, iv_pad1 = pad1,
              iv_uncompressed_size = uncompressed_size, iv_dstream_size = dstream_size\<rparr>))))))))))))))))))"

definition inode_kind :: "inode_val \<Rightarrow> u16" where
  "inode_kind ino = iv_mode ino AND 0xF000"

definition inode_size :: "inode_val \<Rightarrow> u64" where
  "inode_size ino = (case iv_dstream_size ino of Some s \<Rightarrow> s | None \<Rightarrow> iv_uncompressed_size ino)"

text \<open>\<open>i32 as u32\<close> keeps the bits.\<close>

definition inode_nlink :: "inode_val \<Rightarrow> u32" where
  "inode_nlink ino = iv_nchildren_or_nlink ino"

section \<open>Directory records and file extents\<close>

record drec_val =
  dr_file_id :: u64
  dr_date_added :: i64
  dr_flags :: u16

definition parse_drec_val :: "bytes \<Rightarrow> drec_val apfs_result" where
  "parse_drec_val data =
     (if length data < 18
      then Err (CorruptedData (lit ''drec value too short: '' @ dec (length data) @ lit '' bytes''))
      else
        and_then (read_u64 data) (\<lambda>(file_id, c).
        and_then (read_u64 c) (\<lambda>(date_added, c).
        and_then (read_u16 c) (\<lambda>(flags, c).
          Ok \<lparr>dr_file_id = file_id, dr_date_added = date_added, dr_flags = flags\<rparr>))))"

definition drec_file_type :: "drec_val \<Rightarrow> u16" where
  "drec_file_type d = dr_flags d AND 0x000F"

record file_extent_val =
  fe_flags_and_length :: u64
  fe_phys_block_num :: u64
  fe_crypto_id :: u64

definition parse_file_extent_val :: "bytes \<Rightarrow> file_extent_val apfs_result" where
  "parse_file_extent_val data =
     (if length data < 24
      then Err (CorruptedData (lit ''file extent value too short: '' @ dec (length data) @ lit '' bytes''))
      else
        and_then (read_u64 data) (\<lambda>(flags_and_length, c).
        and_then (read_u64 c) (\<lambda>(phys_block_num, c).
        and_then (read_u64 c) (\<lambda>(crypto_id, c).
          Ok \<lparr>fe_flags_and_length = flags_and_length, fe_phys_block_num = phys_block_num,
              fe_crypto_id = crypto_id\<rparr>))))"

definition extent_length :: "file_extent_val \<Rightarrow> u64" where
  "extent_length e = fe_flags_and_length e AND 0x00FFFFFFFFFFFFFF"

section \<open>Keys\<close>

definition decode_catalog_key :: "bytes \<Rightarrow> (u64 \<times> u8) apfs_result" where
  "decode_catalog_key key_bytes =
     (if length key_bytes < 8 then Err (InvalidBTree (lit ''catalog key too short''))
      else
        let obj_id_and_type = u64_at key_bytes 0;
            obj_id = obj_id_and_type AND 0x0FFFFFFFFFFFFFFF;
            j_type = ucast (drop_bit 60 obj_id_and_type AND 0xF)
        in Ok (obj_id, j_type))"

definition decode_drec_name :: "bytes \<Rightarrow> rstr apfs_result" where
  "decode_drec_name key_bytes =
     (if length key_bytes < 12 then Err (InvalidBTree (lit ''drec key too short for name''))
      else
        let name_len_and_hash = u32_at key_bytes 8;
            name_len = unat (name_len_and_hash AND 0x000003FF);
            name_start = 12;
            name_end = name_start + name_len
        in
          if name_end > length key_bytes then
            Err (InvalidBTree (lit ''drec name extends beyond key: name_end='' @ dec name_end
              @ lit '', key_len='' @ dec (length key_bytes)))
          else
            and_then (subslice key_bytes name_start name_end) (\<lambda>name_bytes.
            Ok (from_utf8_lossy (until_nul name_bytes))))"

definition compare_catalog_keys :: "u64 \<Rightarrow> u8 \<Rightarrow> u64 \<Rightarrow> u8 \<Rightarrow> ordering" where
  "compare_catalog_keys oid_a type_a oid_b type_b =
     (case cmp_ord oid_a oid_b of Equal \<Rightarrow> cmp_ord type_a type_b | ord \<Rightarrow> ord)"

section \<open>No record format panics\<close>

lemma parse_inode_val_no_panic [no_panic_intros]: "no_panic (parse_inode_val data)"
proof (cases "length data < INODE_FIXED_SIZE")
  case False
  then have "no_panic (slice_from data INODE_FIXED_SIZE)"
    by (simp add: slice_from_def)
  with False show ?thesis
    unfolding parse_inode_val_def Let_def by (intro no_panic_intros)
qed (simp add: parse_inode_val_def)

lemma parse_drec_val_no_panic [no_panic_intros]: "no_panic (parse_drec_val data)"
  unfolding parse_drec_val_def by (intro no_panic_intros)

lemma parse_file_extent_val_no_panic [no_panic_intros]: "no_panic (parse_file_extent_val data)"
  unfolding parse_file_extent_val_def by (intro no_panic_intros)

lemma decode_catalog_key_cases:
  "decode_catalog_key key = (if length key < 8 then Err (InvalidBTree (lit ''catalog key too short''))
     else Ok (u64_at key 0 AND 0x0FFFFFFFFFFFFFFF, ucast (drop_bit 60 (u64_at key 0) AND 0xF)))"
  by (simp add: decode_catalog_key_def Let_def)

lemma decode_drec_name_no_panic [no_panic_intros]: "no_panic (decode_drec_name key)"
  by (auto simp: decode_drec_name_def Let_def subslice_def)

section \<open>Round trips\<close>

text \<open>The on-disk forms, which the code only reads.\<close>

lemma take_bit_small: "unat (w :: 'a::len word) < 2 ^ n \<Longrightarrow> take_bit n w = w"
  by (rule unsigned_word_eqI [where ?'a = nat]) (simp only: unsigned_take_bit_eq take_bit_nat_eq_self)

definition encode_catalog_key :: "u64 \<Rightarrow> u8 \<Rightarrow> bytes" where
  "encode_catalog_key oid ty = le64 (oid OR push_bit 60 (ucast ty))"

lemma length_encode_catalog_key [simp]: "length (encode_catalog_key oid ty) = 8"
  by (simp add: encode_catalog_key_def)

lemma u64_at_0_le64 [simp]: "u64_at (le64 w @ rest) 0 = w"
  by (simp add: u64_at_def)

lemma decode_encode_catalog_key [simp]:
  assumes "unat oid < 2 ^ 60" and "unat ty < 2 ^ 4"
  shows "decode_catalog_key (encode_catalog_key oid ty @ rest) = Ok (oid, ty)"
proof -
  let ?w = "oid OR push_bit 60 (ucast ty) :: u64"
  have oid: "take_bit 60 oid = oid" and ty: "take_bit 4 ty = ty"
    using assms by (simp_all only: take_bit_small)
  have m: "(0x0FFFFFFFFFFFFFFF :: u64) = mask 60" "(0xF :: u64) = mask 4"
    by (simp_all add: mask_eq_exp_minus_1)
  have "?w AND mask 60 = take_bit 60 oid"
    by (rule bit_word_eqI) (auto simp: bit_simps)
  moreover have "ucast (drop_bit 60 ?w AND mask 4) = take_bit 4 ty"
  proof (rule bit_word_eqI)
    fix n assume n: "n < LENGTH(8)"
    have "\<not> bit oid (60 + n)"
      using oid by (metis bit_take_bit_iff not_add_less1)
    then show "bit (ucast (drop_bit 60 ?w AND mask 4) :: u8) n = bit (take_bit 4 ty) n"
      using n by (auto simp: bit_simps)
  qed
  ultimately show ?thesis
    by (simp add: decode_catalog_key_cases encode_catalog_key_def m oid ty)
qed

definition encode_drec_key :: "u64 \<Rightarrow> u32 \<Rightarrow> rstr \<Rightarrow> bytes" where
  "encode_drec_key oid hash name =
     (let name_bytes = utf8 name @ [0] in
      encode_catalog_key oid J_TYPE_DIR_REC @ le32 (push_bit 10 hash OR of_nat (length name_bytes)) @ name_bytes)"

lemma decode_encode_drec_key:
  assumes "list_all is_scalar name" and "0 \<notin> set name" and "length (utf8 name) < 1023"
  shows "decode_drec_name (encode_drec_key oid hash name) = Ok name"
proof -
  let ?n = "length (utf8 name @ [0 :: u8])"
  let ?w = "push_bit 10 hash OR of_nat ?n :: u32"
  have n: "unat (of_nat ?n :: u32) = ?n" "?n < 2 ^ 10"
    using assms(3) by (simp_all add: unat_of_nat del: of_nat_Suc)
  have m: "(0x3FF :: u32) = mask 10"
    by (simp add: mask_eq_exp_minus_1)
  have "?w AND mask 10 = take_bit 10 (of_nat ?n)"
    by (rule bit_word_eqI) (auto simp: bit_simps)
  also have "\<dots> = of_nat ?n"
    by (rule take_bit_small) (use n in simp)
  finally have len: "unat (?w AND 0x3FF) = ?n"
    unfolding m using n(1) by simp
  have at: "u32_at (encode_drec_key oid hash name) 8 = ?w"
    by (simp add: encode_drec_key_def u32_at_def Let_def)
  have "drop 12 (encode_drec_key oid hash name) = utf8 name @ [0]" "length (encode_drec_key oid hash name) = 12 + ?n"
    by (simp_all add: encode_drec_key_def Let_def)
  then show ?thesis
    using len until_nul_utf8 [OF assms(1,2), of "[]"] from_utf8_lossy_utf8 [OF assms(1)]
    by (simp add: decode_drec_name_def at Let_def subslice_def)
qed

text \<open>
  A directory entry's name survives its key: whatever scalar values the name is made of, NUL
  excepted, and whatever the hash bits, decoding the key of parent \<open>oid\<close> gives the name back, and the
  same key decodes to the parent's identifier and the directory record type.
\<close>

theorem drec_key_roundtrip:
  assumes "list_all is_scalar name" and "0 \<notin> set name" and "length (utf8 name) < 1023"
    and "unat oid < 2 ^ 60"
  shows "decode_drec_name (encode_drec_key oid hash name) = Ok name
    \<and> decode_catalog_key (encode_drec_key oid hash name) = Ok (oid, J_TYPE_DIR_REC)"
  using decode_encode_drec_key [OF assms(1-3)] assms(4)
  by (simp add: encode_drec_key_def Let_def J_TYPE_DIR_REC_def)

text \<open>A name with characters of one, two, three and four bytes.\<close>

theorem drec_key_roundtrip_witness:
  "decode_drec_name (encode_drec_key 2 0x2F00 [97, 233, 8364, 128512]) = Ok [97, 233, 8364, 128512]
   \<and> decode_catalog_key (encode_drec_key 2 0x2F00 [97, 233, 8364, 128512]) = Ok (2, J_TYPE_DIR_REC)"
  by (rule drec_key_roundtrip) (simp_all add: is_scalar_def utf8_def utf8_char_def)

section \<open>Extended fields\<close>

text \<open>A field is its type and its data; the data are padded to eight bytes.\<close>

type_synonym xfield = "u8 \<times> bytes"

definition padded_len :: "nat \<Rightarrow> nat" where
  "padded_len n = n + 7 - (n + 7) mod 8"

definition pad8 :: "bytes \<Rightarrow> bytes" where
  "pad8 d = d @ replicate (padded_len (length d) - length d) 0"

definition xfield_descr :: "xfield \<Rightarrow> bytes" where
  "xfield_descr f = [fst f, 0] @ le16 (of_nat (length (snd f)))"

definition encode_xfields :: "u16 \<Rightarrow> xfield list \<Rightarrow> bytes" where
  "encode_xfields used_data fs =
     le16 (of_nat (length fs)) @ le16 used_data @ concat (map xfield_descr fs) @ concat (map (\<lambda>f. pad8 (snd f)) fs)"

text \<open>The first data stream field of at least eight bytes decides.\<close>

definition dstream_of :: "xfield list \<Rightarrow> u64 option" where
  "dstream_of fs = map_option (\<lambda>(t, d). word_of_le (take 8 d))
     (find (\<lambda>(t, d). t = INO_EXT_TYPE_DSTREAM \<and> 8 \<le> length d) fs)"

lemma padded_len_ge: "n \<le> padded_len n"
  unfolding padded_len_def by (simp add: le_diff_conv2 less_Suc_eq_le [symmetric])

lemma length_pad8 [simp]: "length (pad8 d) = padded_len (length d)"
  using padded_len_ge [of "length d"] by (simp add: pad8_def)

lemma padded_len_bound: "n < 65536 \<Longrightarrow> padded_len n < 65536 + 8"
  by (simp add: padded_len_def)

lemma length_xfield_descr [simp]: "length (xfield_descr f) = 4"
  by (simp add: xfield_descr_def)

lemma length_concat_descr [simp]: "length (concat (map xfield_descr fs)) = 4 * length fs"
  by (induction fs) auto

lemma length_concat_pads:
  "\<forall>f \<in> set fs. length (snd f) < 65536 \<Longrightarrow> length (concat (map (\<lambda>f. pad8 (snd f)) fs)) \<le> 65544 * length fs"
  by (induction fs) (auto dest!: padded_len_bound)

lemma get_range_middle:
  "length xs = a \<Longrightarrow> length ys = n \<Longrightarrow> b = a + n \<Longrightarrow> get_range (xs @ ys @ zs) a b = Some ys"
  by (simp add: get_range_def)

lemma dstream_scan_encoded:
  assumes small: "\<forall>f \<in> set (fs @ gs). length (snd f) < 65536" and n: "length (fs @ gs) < 65536"
  shows "dstream_scan (encode_xfields used_data (fs @ gs) @ rest) [length fs..<length (fs @ gs)]
      (4 + 4 * length (fs @ gs) + length (concat (map (\<lambda>f. pad8 (snd f)) fs))) = dstream_of gs"
  using small n
proof (induction gs arbitrary: fs)
  case Nil
  then show ?case by (simp add: dstream_of_def)
next
  case (Cons g gs)
  obtain t d where g: "g = (t, d)" by (cases g)
  let ?all = "fs @ g # gs"
  let ?data = "encode_xfields used_data ?all @ rest"
  let ?off = "4 + 4 * length ?all + length (concat (map (\<lambda>f. pad8 (snd f)) fs))"
  have d: "length d < 65536" "unat (of_nat (length d) :: u16) = length d"
    using Cons.prems(1) by (simp_all add: g unat_of_nat)
  have "length (concat (map (\<lambda>f. pad8 (snd f)) fs)) \<le> 65544 * length fs"
    using Cons.prems(1) by (intro length_concat_pads) auto
  then have off: "?off < 2 ^ 40"
    using Cons.prems(2) by simp
  have entry: "get_range ?data (4 * length fs + 4) (4 * length fs + 4 + 4) = Some (xfield_descr g)"
    using get_range_middle [of "le16 (of_nat (length ?all)) @ le16 used_data @ concat (map xfield_descr fs)"
        "4 * length fs + 4" "xfield_descr g"]
    by (simp add: encode_xfields_def)
  have payload: "get_range ?data ?off (?off + 8) = Some (take 8 d)" if "8 \<le> length d"
  proof -
    have "pad8 d = take 8 d @ drop 8 d @ replicate (padded_len (length d) - length d) 0"
      by (simp add: pad8_def)
    with that show ?thesis
      using get_range_middle [of "le16 (of_nat (length ?all)) @ le16 used_data @ concat (map xfield_descr ?all) @
          concat (map (\<lambda>f. pad8 (snd f)) fs)" ?off "take 8 d" 8 "?off + 8"]
      by (simp add: encode_xfields_def g)
  qed
  have head: "xfield_descr g ! 0 = t" "u16_at (xfield_descr g) 2 = of_nat (length d)"
    by (simp_all add: xfield_descr_def g u16_at_def)
  have upt: "[length fs..<length ?all] = length fs # [length (fs @ [g])..<length ?all]"
    by (simp add: upt_rec)
  show ?case
  proof (cases "t = INO_EXT_TYPE_DSTREAM \<and> 8 \<le> length d")
    case True
    then show ?thesis
      unfolding upt using entry payload head d off Cons.prems(2)
      by (simp add: checked_usize_add_def checked_usize_mul_def usize_max_def mult.commute
          dstream_of_def g Let_def del: upt_Suc)
  next
    case False
    have IH: "dstream_scan (encode_xfields used_data ((fs @ [g]) @ gs) @ rest)
        [length (fs @ [g])..<length ((fs @ [g]) @ gs)]
        (4 + 4 * length ((fs @ [g]) @ gs) + length (concat (map (\<lambda>f. pad8 (snd f)) (fs @ [g])))) = dstream_of gs"
      using Cons.prems by (intro Cons.IH) auto
    have "length d + 7 - (length d + 7) mod 8 = padded_len (length d)"
      by (simp add: padded_len_def)
    with False IH show ?thesis
      unfolding upt using entry head d off Cons.prems(2) padded_len_bound [OF d(1)]
      by (auto simp: checked_usize_add_def checked_usize_mul_def usize_max_def mult.commute
          dstream_of_def g Let_def add.assoc simp del: upt_Suc)
  qed
qed

lemma parse_dstream_encoded:
  assumes "\<forall>f \<in> set fs. length (snd f) < 65536" and "length fs < 65536"
  shows "parse_dstream_size (encode_xfields used_data fs @ rest) = dstream_of fs"
proof (cases fs)
  case Nil
  then show ?thesis
    by (simp add: parse_dstream_size_def encode_xfields_def get_range_def u16_at_def dstream_of_def)
next
  case (Cons f fs')
  let ?data = "encode_xfields used_data fs @ rest"
  have "get_range ?data 0 4 = Some (le16 (of_nat (length fs)) @ le16 used_data)"
    by (simp add: get_range_def encode_xfields_def)
  moreover have "unat (u16_at (le16 (of_nat (length fs)) @ le16 used_data) 0) = length fs"
    using assms(2) by (simp add: u16_at_def unat_of_nat)
  moreover have "4 * length fs + 4 \<le> length ?data"
    by (simp add: encode_xfields_def)
  moreover have "dstream_scan ?data [0..<length fs] (4 + 4 * length fs) = dstream_of fs"
    using dstream_scan_encoded [of "[]" fs used_data rest] assms by simp
  ultimately show ?thesis
    using assms(2) Cons
    by (simp add: parse_dstream_size_def checked_usize_add_def checked_usize_mul_def usize_max_def
        mult.commute add.commute del: upt_Suc)
qed

definition encode_inode :: "inode_val \<Rightarrow> bytes" where
  "encode_inode ino =
     le64 (iv_parent_id ino) @ le64 (iv_private_id ino) @ le64 (iv_create_time ino) @
     le64 (iv_modify_time ino) @ le64 (iv_change_time ino) @ le64 (iv_access_time ino) @
     le64 (iv_internal_flags ino) @ le32 (iv_nchildren_or_nlink ino) @
     le32 (iv_default_protection_class ino) @ le32 (iv_write_generation_counter ino) @
     le32 (iv_bsd_flags ino) @ le32 (iv_uid ino) @ le32 (iv_gid ino) @ le16 (iv_mode ino) @
     le16 (iv_pad1 ino) @ le64 (iv_uncompressed_size ino)"

lemma length_encode_inode [simp]: "length (encode_inode ino) = 92"
  by (simp add: encode_inode_def)

lemma parse_encode_inode:
  "parse_inode_val (encode_inode ino @ xfields) = Ok (ino\<lparr>iv_dstream_size := parse_dstream_size xfields\<rparr>)"
proof -
  have "slice_from (encode_inode ino @ xfields) INODE_FIXED_SIZE = (Ok xfields :: bytes apfs_result)"
    by (simp add: slice_from_def INODE_FIXED_SIZE_def)
  then show ?thesis
    by (simp add: parse_inode_val_def INODE_FIXED_SIZE_def) (simp add: encode_inode_def cursor_enc)
qed

text \<open>
  An inode is read back field by field from its on-disk form, and its logical size is the size
  of the first data stream among any number of extended fields of any types and lengths, or the
  uncompressed size when there is none.
\<close>

theorem inode_roundtrip:
  assumes "\<forall>f \<in> set fs. length (snd f) < 65536" and "length fs < 65536"
  shows "parse_inode_val (encode_inode ino @ encode_xfields used_data fs @ rest) =
      Ok (ino\<lparr>iv_dstream_size := dstream_of fs\<rparr>)
    \<and> inode_size (ino\<lparr>iv_dstream_size := dstream_of fs\<rparr>) =
      (case find (\<lambda>(t, d). t = INO_EXT_TYPE_DSTREAM \<and> 8 \<le> length d) fs of
         Some (t, d) \<Rightarrow> word_of_le (take 8 d) | None \<Rightarrow> iv_uncompressed_size ino)"
  using parse_dstream_encoded [OF assms, of used_data rest]
  by (simp add: parse_encode_inode inode_size_def dstream_of_def split: option.split)

definition sample_inode :: "u64 \<Rightarrow> u16 \<Rightarrow> inode_val" where
  "sample_inode private_id mode =
     \<lparr>iv_parent_id = 2, iv_private_id = private_id, iv_create_time = 100, iv_modify_time = 200,
      iv_change_time = 300, iv_access_time = 400, iv_internal_flags = 0, iv_nchildren_or_nlink = 1,
      iv_default_protection_class = 0, iv_write_generation_counter = 1, iv_bsd_flags = 0, iv_uid = 501,
      iv_gid = 20, iv_mode = mode, iv_pad1 = 0, iv_uncompressed_size = 0, iv_dstream_size = None\<rparr>"

text \<open>A name field of 5 bytes, padded to 8, before the data stream.\<close>

theorem inode_roundtrip_witness:
  "parse_inode_val (encode_inode (sample_inode 16 0x81A4) @
     encode_xfields 48 [(4, [102, 111, 111, 46, 0]), (8, le64 5000 @ replicate 32 0)] @ [])
   = Ok ((sample_inode 16 0x81A4)\<lparr>iv_dstream_size := Some 5000\<rparr>)"
proof -
  let ?fs = "[(4, [102, 111, 111, 46, 0]), (8, le64 5000 @ replicate 32 0)]"
  have "\<forall>f \<in> set ?fs. length (snd f) < 65536" "length ?fs < 65536"
    by simp_all
  from inode_roundtrip [OF this, of "sample_inode 16 0x81A4" 48 "[]"] show ?thesis
    by (simp add: dstream_of_def INO_EXT_TYPE_DSTREAM_def)
qed

section \<open>Records of fixed size\<close>

definition encode_drec_val :: "drec_val \<Rightarrow> bytes" where
  "encode_drec_val d = le64 (dr_file_id d) @ le64 (dr_date_added d) @ le16 (dr_flags d)"

lemma parse_encode_drec: "parse_drec_val (encode_drec_val d @ rest) = Ok d"
  by (simp add: parse_drec_val_def encode_drec_val_def cursor_enc)

definition encode_file_extent_val :: "file_extent_val \<Rightarrow> bytes" where
  "encode_file_extent_val e = le64 (fe_flags_and_length e) @ le64 (fe_phys_block_num e) @ le64 (fe_crypto_id e)"

lemma parse_encode_file_extent: "parse_file_extent_val (encode_file_extent_val e @ rest) = Ok e"
  by (simp add: parse_file_extent_val_def encode_file_extent_val_def cursor_enc)

lemma extent_length_bound: "unat (extent_length e) < 2 ^ 56"
proof -
  have "extent_length e = take_bit 56 (fe_flags_and_length e)"
    by (simp add: extent_length_def take_bit_eq_mask mask_eq_exp_minus_1)
  then show ?thesis
    by (simp only: unsigned_take_bit_eq take_bit_nat_less_exp)
qed

text \<open>
  Directory records and file extents are read back from their on-disk forms; the length of an
  extent is below \<open>2 ^ 56\<close> and does not depend on its flag byte.
\<close>

theorem drec_and_extent_roundtrip:
  "parse_drec_val (encode_drec_val d @ rest) = Ok d
   \<and> parse_file_extent_val (encode_file_extent_val e @ rest) = Ok e
   \<and> unat (extent_length e) < 2 ^ 56
   \<and> extent_length (e\<lparr>fe_flags_and_length := fe_flags_and_length e OR push_bit 56 flags\<rparr>) = extent_length e"
proof -
  have m: "(0x00FFFFFFFFFFFFFF :: u64) = mask 56"
    by (simp add: mask_eq_exp_minus_1)
  have "(fe_flags_and_length e OR push_bit 56 flags) AND mask 56 = fe_flags_and_length e AND mask 56"
    by (rule bit_word_eqI) (auto simp: bit_simps)
  then show ?thesis
    using extent_length_bound [of e]
    by (simp add: parse_encode_drec parse_encode_file_extent extent_length_def m)
qed

end
