(* ===== verification/Catalog.thy ===== *)
theory Catalog
  imports Omap Catalog_Records "HOL-Library.Product_Lexorder"
begin

text \<open>
  The traversals of \<open>vendor/apfs/src/catalog.rs\<close>: listing a directory, looking up inodes, extents
  and directory records, and resolving a path. All go through the catalog tree, a virtual B-tree
  whose keys sort by object identifier and record type. The second half gives the catalog an
  abstract meaning, records grouped by (identifier, type), and shows that each operation computes it.
\<close>

datatype entry_kind = File | Directory | Symlink

record dir_entry =
  de_name :: rstr
  de_oid :: u64
  de_kind :: entry_kind
  de_size :: u64
  de_create_time :: i64
  de_modify_time :: i64

section \<open>Comparison functions\<close>

definition dir_range :: "u64 \<Rightarrow> bytes \<Rightarrow> bool option" where
  "dir_range parent_oid key =
     (case decode_catalog_key key of
        Ok (oid, j_type) \<Rightarrow>
          (case compare_catalog_keys oid j_type parent_oid J_TYPE_DIR_REC of
             Less \<Rightarrow> Some False
           | Equal \<Rightarrow> Some True
           | Greater \<Rightarrow> if oid = parent_oid \<and> j_type = J_TYPE_DIR_REC then Some True else None)
      | _ \<Rightarrow> Some False)"

definition inode_compare :: "u64 \<Rightarrow> bytes \<Rightarrow> ordering" where
  "inode_compare oid key =
     (case decode_catalog_key key of
        Ok (key_oid, key_type) \<Rightarrow>
          (case cmp_ord key_oid oid of
             Equal \<Rightarrow> cmp_ord key_type J_TYPE_INODE
           | ord \<Rightarrow> ord)
      | _ \<Rightarrow> Less)"

definition extent_range :: "u64 \<Rightarrow> bytes \<Rightarrow> bool option" where
  "extent_range file_oid key =
     (case decode_catalog_key key of
        Ok (oid, j_type) \<Rightarrow>
          if oid = file_oid \<and> j_type = J_TYPE_FILE_EXTENT then Some True
          else (case compare_catalog_keys oid j_type file_oid J_TYPE_FILE_EXTENT of
                  Less \<Rightarrow> Some False | Greater \<Rightarrow> None | Equal \<Rightarrow> Some True)
      | _ \<Rightarrow> Some False)"

definition drec_range :: "u64 \<Rightarrow> bytes \<Rightarrow> bool option" where
  "drec_range parent_oid key =
     (case decode_catalog_key key of
        Ok (oid, j_type) \<Rightarrow>
          if oid = parent_oid \<and> j_type = J_TYPE_DIR_REC then Some True
          else (case compare_catalog_keys oid j_type parent_oid J_TYPE_DIR_REC of
                  Less \<Rightarrow> Some False | Greater \<Rightarrow> None | Equal \<Rightarrow> Some True)
      | _ \<Rightarrow> Some False)"

section \<open>Operations\<close>

definition lookup_inode :: "nat \<Rightarrow> reader \<Rightarrow> u64 \<Rightarrow> u64 \<Rightarrow> u32 \<Rightarrow> u64 \<Rightarrow> inode_val apfs_result" where
  "lookup_inode fuel rd catalog_root omap_root block_size oid =
     and_then (btree_lookup fuel rd catalog_root block_size 0 0 (inode_compare oid) (Some omap_root)) (\<lambda>val.
     case val of
       Some data \<Rightarrow> parse_inode_val data
     | None \<Rightarrow> Err (FileNotFound (lit ''inode OID '' @ dec (unat oid))))"

fun parse_extents :: "entry list \<Rightarrow> file_extent_val list apfs_result" where
  "parse_extents [] = Ok []"
| "parse_extents ((key, val) # es) =
     and_then (parse_file_extent_val val) (\<lambda>e. and_then (parse_extents es) (\<lambda>exts. Ok (e # exts)))"

definition lookup_extents :: "nat \<Rightarrow> reader \<Rightarrow> u64 \<Rightarrow> u64 \<Rightarrow> u32 \<Rightarrow> u64 \<Rightarrow> file_extent_val list apfs_result" where
  "lookup_extents fuel rd catalog_root omap_root block_size file_oid =
     and_then (btree_scan fuel rd catalog_root block_size 0 0 (extent_range file_oid) (Some omap_root)) (\<lambda>entries.
     parse_extents entries)"

definition kind_of_drec :: "drec_val \<Rightarrow> entry_kind" where
  "kind_of_drec d =
     (if drec_file_type d = DT_DIR then Directory
      else if drec_file_type d = DT_LNK then Symlink
      else File)"

text \<open>
  The loop of \<open>list_directory\<close>: a record with a bad name or a bad value is skipped, an inode that
  cannot be read leaves the size and the times zero.
\<close>

fun collect_entries ::
    "nat \<Rightarrow> reader \<Rightarrow> u64 \<Rightarrow> u64 \<Rightarrow> u32 \<Rightarrow> entry list \<Rightarrow> dir_entry list apfs_result" where
  "collect_entries fuel rd catalog_root omap_root block_size [] = Ok []"
| "collect_entries fuel rd catalog_root omap_root block_size ((key, val) # es) =
     and_then (attempt (decode_drec_name key)) (\<lambda>name.
     case name of
       None \<Rightarrow> collect_entries fuel rd catalog_root omap_root block_size es
     | Some name \<Rightarrow>
         and_then (attempt (parse_drec_val val)) (\<lambda>drec.
         case drec of
           None \<Rightarrow> collect_entries fuel rd catalog_root omap_root block_size es
         | Some drec \<Rightarrow>
             and_then (attempt (lookup_inode fuel rd catalog_root omap_root block_size (dr_file_id drec))) (\<lambda>ino.
             let (size, create_time, modify_time) =
               (case ino of
                  Some inode \<Rightarrow> (inode_size inode, iv_create_time inode, iv_modify_time inode)
                | None \<Rightarrow> (0, 0, 0)) in
             and_then (collect_entries fuel rd catalog_root omap_root block_size es) (\<lambda>dir_entries.
               Ok (\<lparr>de_name = name, de_oid = dr_file_id drec, de_kind = kind_of_drec drec, de_size = size,
                    de_create_time = create_time, de_modify_time = modify_time\<rparr> # dir_entries)))))"

definition list_directory :: "nat \<Rightarrow> reader \<Rightarrow> u64 \<Rightarrow> u64 \<Rightarrow> u32 \<Rightarrow> u64 \<Rightarrow> dir_entry list apfs_result" where
  "list_directory fuel rd catalog_root omap_root block_size parent_oid =
     and_then (btree_scan fuel rd catalog_root block_size 0 0 (dir_range parent_oid) (Some omap_root)) (\<lambda>entries.
     collect_entries fuel rd catalog_root omap_root block_size entries)"

fun find_drec :: "rstr \<Rightarrow> entry list \<Rightarrow> drec_val apfs_result" where
  "find_drec name [] = Err (FileNotFound name)"
| "find_drec name ((key, val) # es) =
     and_then (attempt (decode_drec_name key)) (\<lambda>entry_name.
     if entry_name = Some name then parse_drec_val val else find_drec name es)"

definition lookup_drec :: "nat \<Rightarrow> reader \<Rightarrow> u64 \<Rightarrow> u64 \<Rightarrow> u32 \<Rightarrow> u64 \<Rightarrow> rstr \<Rightarrow> drec_val apfs_result" where
  "lookup_drec fuel rd omap_root catalog_root block_size parent_oid name =
     and_then (btree_scan fuel rd catalog_root block_size 0 0 (drec_range parent_oid) (Some omap_root)) (\<lambda>entries.
     find_drec name entries)"

text \<open>
  The loop of \<open>resolve_path\<close>: \<open>components\<close> are all the names, the last argument those left. Running
  off the end is the \<open>unreachable!()\<close>.
\<close>

fun resolve_components ::
    "nat \<Rightarrow> reader \<Rightarrow> u64 \<Rightarrow> u64 \<Rightarrow> u32 \<Rightarrow> rstr list \<Rightarrow> nat \<Rightarrow> u64 \<Rightarrow> rstr list \<Rightarrow> (u64 \<times> inode_val) apfs_result" where
  "resolve_components fuel rd catalog_root omap_root block_size components i current_parent [] = Panic"
| "resolve_components fuel rd catalog_root omap_root block_size components i current_parent (component # rest) =
     and_then (lookup_drec fuel rd omap_root catalog_root block_size current_parent component) (\<lambda>drec.
     if i = length components - 1 then
       and_then (lookup_inode fuel rd catalog_root omap_root block_size (dr_file_id drec)) (\<lambda>inode.
       Ok (dr_file_id drec, inode))
     else if drec_file_type drec \<noteq> DT_DIR then Err (NotADirectory (join [SLASH] (take (Suc i) components)))
     else resolve_components fuel rd catalog_root omap_root block_size components (Suc i) (dr_file_id drec) rest)"

definition resolve_path :: "nat \<Rightarrow> reader \<Rightarrow> u64 \<Rightarrow> u64 \<Rightarrow> u32 \<Rightarrow> rstr \<Rightarrow> (u64 \<times> inode_val) apfs_result" where
  "resolve_path fuel rd catalog_root omap_root block_size path =
     (let path = trim_matches SLASH path in
      if path = [] then
        and_then (lookup_inode fuel rd catalog_root omap_root block_size ROOT_DIR_RECORD) (\<lambda>inode.
        Ok (ROOT_DIR_RECORD, inode))
      else
        let components = path_components path in
        resolve_components fuel rd catalog_root omap_root block_size components 0 ROOT_DIR_RECORD components)"

section \<open>The order of the catalog\<close>

text \<open>Keys too short for an identifier sort first; all others by identifier and type.\<close>

definition catalog_rank :: "bytes \<Rightarrow> (u64 \<times> u8) option" where
  "catalog_rank key = (case decode_catalog_key key of Ok k \<Rightarrow> Some k | _ \<Rightarrow> None)"

lemma compare_then: "(case cmp_ord a b of Equal \<Rightarrow> cmp_ord s t | ord \<Rightarrow> ord) = cmp_ord (a, s) (b, t)"
  by (auto simp: cmp_ord_def less_prod_def')

lemma compare_catalog_keys_lex: "compare_catalog_keys a s b t = cmp_ord (a, s) (b, t)"
  by (simp only: compare_catalog_keys_def compare_then)

interpretation inode_search: ranked_compare catalog_rank "Some (oid, J_TYPE_INODE)" "inode_compare oid"
  for oid
  by unfold_locales
    (auto simp: catalog_rank_def inode_compare_def decode_catalog_key_cases compare_then cmp_ord_def)

lemmas range_defs = dir_range_def extent_range_def drec_range_def catalog_rank_def decode_catalog_key_cases
  compare_catalog_keys_lex

interpretation dir_search: ranked_range catalog_rank "Some (oid, J_TYPE_DIR_REC)" "dir_range oid"
  for oid
  by unfold_locales (auto simp: range_defs cmp_ord_def less_prod_def' split: if_splits)

interpretation extent_search: ranked_range catalog_rank "Some (oid, J_TYPE_FILE_EXTENT)" "extent_range oid"
  for oid
  by unfold_locales (auto simp: range_defs cmp_ord_def less_prod_def' split: if_splits)

interpretation drec_search: ranked_range catalog_rank "Some (oid, J_TYPE_DIR_REC)" "drec_range oid"
  for oid
  by unfold_locales (auto simp: range_defs cmp_ord_def less_prod_def' split: if_splits)

text \<open>The two range functions of directories are the same function.\<close>

lemma drec_range_eq: "drec_range oid = dir_range oid"
  by (rule ext) (simp add: dir_search.range_fn_rank drec_search.range_fn_rank)

section \<open>The catalog as records\<close>

text \<open>The records of an object of one type, in key order.\<close>

definition records :: "abs_tree \<Rightarrow> u64 \<Rightarrow> u8 \<Rightarrow> entry list" where
  "records t oid ty = hits catalog_rank (Some (oid, ty)) (entries t)"

text \<open>A readable, well-formed catalog with at most one inode record per object.\<close>

definition catalog_at :: "nat \<Rightarrow> reader \<Rightarrow> u64 \<Rightarrow> u64 \<Rightarrow> u32 \<Rightarrow> abs_tree \<Rightarrow> bool" where
  "catalog_at fuel rd catalog_root omap_root block_size t \<longleftrightarrow>
     tree_at rd (resolver_of fuel rd block_size (Some omap_root)) catalog_root block_size 0 0 t \<and>
     height t < fuel \<and> wf_tree t \<and> ascending catalog_rank (entries t) \<and>
     (\<forall>oid. length (records t oid J_TYPE_INODE) \<le> 1)"

definition inode_of :: "abs_tree \<Rightarrow> u64 \<Rightarrow> inode_val apfs_result" where
  "inode_of t oid = (case records t oid J_TYPE_INODE of
     [] \<Rightarrow> Err (FileNotFound (lit ''inode OID '' @ dec (unat oid))) | (k, v) # _ \<Rightarrow> parse_inode_val v)"

definition child_of :: "abs_tree \<Rightarrow> u64 \<Rightarrow> rstr \<Rightarrow> drec_val apfs_result" where
  "child_of t parent name = find_drec name (records t parent J_TYPE_DIR_REC)"

lemma lookup_inode_at:
  assumes "catalog_at fuel rd cat om bs t"
  shows "lookup_inode fuel rd cat om bs oid = inode_of t oid"
proof -
  have "btree_lookup fuel rd cat bs 0 0 (inode_compare oid) (Some om) =
      Ok (case records t oid J_TYPE_INODE of [] \<Rightarrow> None | (k, v) # _ \<Rightarrow> Some v)"
    unfolding btree_lookup_def records_def
    by (rule inode_search.lookup_finds) (use assms in \<open>simp_all add: catalog_at_def records_def\<close>)
  then show ?thesis
    by (auto simp: lookup_inode_def inode_of_def split: list.split)
qed

lemma lookup_extents_at:
  assumes "catalog_at fuel rd cat om bs t"
  shows "lookup_extents fuel rd cat om bs oid = parse_extents (records t oid J_TYPE_FILE_EXTENT)"
proof -
  have "btree_scan fuel rd cat bs 0 0 (extent_range oid) (Some om) = Ok (records t oid J_TYPE_FILE_EXTENT)"
    unfolding btree_scan_def records_def
    by (rule extent_search.scan_collects) (use assms in \<open>simp_all add: catalog_at_def\<close>)
  then show ?thesis
    by (simp add: lookup_extents_def)
qed

lemma scan_directory_at:
  assumes "catalog_at fuel rd cat om bs t"
  shows "btree_scan fuel rd cat bs 0 0 (dir_range oid) (Some om) = Ok (records t oid J_TYPE_DIR_REC)"
  unfolding btree_scan_def records_def
  by (rule dir_search.scan_collects) (use assms in \<open>simp_all add: catalog_at_def\<close>)

lemma lookup_drec_at:
  assumes "catalog_at fuel rd cat om bs t"
  shows "lookup_drec fuel rd om cat bs parent name = child_of t parent name"
  by (simp add: lookup_drec_def drec_range_eq scan_directory_at [OF assms] child_of_def)

lemma find_drec_total: "find_drec name es \<noteq> Panic" "find_drec name es \<noteq> NoFuel"
proof (induction name es rule: find_drec.induct)
  case (2 name key val es)
  have "no_panic (parse_drec_val val)" "no_panic (decode_drec_name key)"
    by (intro no_panic_intros)+
  moreover have "parse_drec_val val \<noteq> NoFuel" "decode_drec_name key \<noteq> NoFuel"
    by (auto simp: parse_drec_val_def decode_drec_name_def Let_def outcome_iffs read_no_fuel)
  ultimately show "find_drec name ((key, val) # es) \<noteq> Panic" "find_drec name ((key, val) # es) \<noteq> NoFuel"
    using 2 by (cases "decode_drec_name key"; simp add: no_panic_def)+
qed simp_all

lemma inode_of_total: "inode_of t oid \<noteq> Panic" "inode_of t oid \<noteq> NoFuel"
proof -
  have "no_panic (parse_inode_val v)" for v
    by (rule parse_inode_val_no_panic)
  moreover have "parse_inode_val v \<noteq> NoFuel" for v
    by (auto simp: parse_inode_val_def outcome_iffs read_no_fuel Let_def)
  ultimately show "inode_of t oid \<noteq> Panic" "inode_of t oid \<noteq> NoFuel"
    by (auto simp: inode_of_def no_panic_def split: list.split)
qed

section \<open>Listing a directory\<close>

definition dir_entry_of :: "abs_tree \<Rightarrow> entry \<Rightarrow> dir_entry option" where
  "dir_entry_of t = (\<lambda>(key, val).
     case (decode_drec_name key, parse_drec_val val) of
       (Ok name, Ok drec) \<Rightarrow>
         let (size, create_time, modify_time) =
           (case inode_of t (dr_file_id drec) of
              Ok inode \<Rightarrow> (inode_size inode, iv_create_time inode, iv_modify_time inode)
            | _ \<Rightarrow> (0, 0, 0)) in
         Some \<lparr>de_name = name, de_oid = dr_file_id drec, de_kind = kind_of_drec drec, de_size = size,
               de_create_time = create_time, de_modify_time = modify_time\<rparr>
     | _ \<Rightarrow> None)"

lemma decode_total: "decode_drec_name key \<noteq> Panic" "decode_drec_name key \<noteq> NoFuel"
  using decode_drec_name_no_panic [of key]
  by (auto simp: no_panic_def decode_drec_name_def Let_def outcome_iffs)

lemma parse_drec_total: "parse_drec_val val \<noteq> Panic" "parse_drec_val val \<noteq> NoFuel"
  using parse_drec_val_no_panic [of val]
  by (auto simp: no_panic_def parse_drec_val_def outcome_iffs read_no_fuel)

lemma collect_entries_at:
  assumes "catalog_at fuel rd cat om bs t"
  shows "collect_entries fuel rd cat om bs es = Ok (List.map_filter (dir_entry_of t) es)"
proof (induction es)
  case (Cons e es)
  obtain key val where e: "e = (key, val)" by (cases e)
  show ?case
    using Cons decode_total [of key] parse_drec_total [of val]
      inode_of_total [of t "dr_file_id (case parse_drec_val val of Ok d \<Rightarrow> d)"]
    by (cases "decode_drec_name key"; cases "parse_drec_val val";
        cases "inode_of t (dr_file_id (case parse_drec_val val of Ok d \<Rightarrow> d))")
      (simp_all add: e dir_entry_of_def lookup_inode_at [OF assms] map_filter_simps)
qed (simp add: map_filter_simps)

lemma list_directory_at:
  assumes "catalog_at fuel rd cat om bs t"
  shows "list_directory fuel rd cat om bs parent =
    Ok (List.map_filter (dir_entry_of t) (records t parent J_TYPE_DIR_REC))"
  by (simp add: list_directory_def scan_directory_at [OF assms] collect_entries_at [OF assms])

section \<open>Resolving a path\<close>

text \<open>What a path means: walk the names from an object, \<open>done\<close> being the names already walked.\<close>

fun walk_path :: "abs_tree \<Rightarrow> rstr list \<Rightarrow> u64 \<Rightarrow> rstr list \<Rightarrow> (u64 \<times> inode_val) apfs_result" where
  "walk_path t walked oid [] = and_then (inode_of t oid) (\<lambda>inode. Ok (oid, inode))"
| "walk_path t walked oid (name # names) =
     and_then (child_of t oid name) (\<lambda>d.
     if names \<noteq> [] \<and> drec_file_type d \<noteq> DT_DIR then Err (NotADirectory (join [SLASH] (walked @ [name])))
     else walk_path t (walked @ [name]) (dr_file_id d) names)"

lemma resolve_components_at:
  assumes "catalog_at fuel rd cat om bs t" and "names \<noteq> []"
  shows "resolve_components fuel rd cat om bs (walked @ names) (length walked) oid names = walk_path t walked oid names"
  using assms(2)
proof (induction names arbitrary: walked oid)
  case (Cons name names)
  show ?case
  proof (cases "names = []")
    case True
    then show ?thesis
      by (simp add: lookup_drec_at [OF assms(1)] lookup_inode_at [OF assms(1)])
  next
    case False
    then have "resolve_components fuel rd cat om bs (walked @ name # names) (Suc (length walked)) o' names =
        walk_path t (walked @ [name]) o' names" for o'
      using Cons.IH [of "walked @ [name]"] by simp
    moreover have "length walked \<noteq> length (walked @ name # names) - 1"
      using False by simp
    ultimately show ?thesis
      using False by (simp add: lookup_drec_at [OF assms(1)] cong: if_cong)
  qed
qed simp

lemma resolve_path_at:
  assumes "catalog_at fuel rd cat om bs t"
  shows "resolve_path fuel rd cat om bs path = walk_path t [] ROOT_DIR_RECORD (path_components path)"
proof (cases "trim_matches SLASH path = []")
  case True
  then have "path_components path = []"
    by (simp add: path_components_Nil_iff)
  with True show ?thesis
    by (simp add: resolve_path_def lookup_inode_at [OF assms])
next
  case False
  then have "path_components path \<noteq> []"
    by (simp add: path_components_Nil_iff)
  with False show ?thesis
    using resolve_components_at [OF assms, of "path_components path" "[]"]
    by (simp add: resolve_path_def Let_def)
qed

end
