(* ===== verification/Sample_Image.thy ===== *)
theory Sample_Image
  imports Superblock Catalog
begin

text \<open>
  A small container in the on-disk format, for the examples of the later theories: two container
  superblocks, the object maps of the container and of its one volume, the volume superblock, a
  catalog of two leaves below an inner root, and two data blocks. Nothing of it is computed bit by
  bit: what the parsers make of each block follows from the round trips.
\<close>

definition zeros :: "nat \<Rightarrow> bytes" where
  "zeros n = replicate n 0"

lemma length_zeros [simp]: "length (zeros n) = n"
  by (simp add: zeros_def)

section \<open>Superblocks and object maps\<close>

definition image_nx :: "u64 \<Rightarrow> u64 \<Rightarrow> nx_superblock" where
  "image_nx checksum xid = (sample_nx checksum xid)\<lparr>nx_block_size := 4096, nx_omap_oid := 2\<rparr>"

definition image_nx_rest :: "u64 \<Rightarrow> bytes" where
  "image_nx_rest xid = drop 8 (encode_nx_superblock (image_nx 0 xid) 0) @ zeros 3904"

definition image_nx_sealed :: "u64 \<Rightarrow> nx_superblock" where
  "image_nx_sealed xid = image_nx (fletcher64 (image_nx_rest xid)) xid"

definition image_nx_block :: "u64 \<Rightarrow> bytes" where
  "image_nx_block xid = encode_nx_superblock (image_nx_sealed xid) 0 @ zeros 3904"

lemma length_image_nx_block [simp]: "length (image_nx_block xid) = 4096"
  by (simp add: image_nx_block_def encode_nx_superblock_def image_nx_sealed_def image_nx_def sample_nx_def)

lemma image_nx_block_verified: "verify_object (image_nx_block xid)"
proof -
  have "image_nx_block xid = le64 (fletcher64 (image_nx_rest xid)) @ image_nx_rest xid"
    by (simp add: image_nx_block_def image_nx_sealed_def encode_nx_superblock_def encode_object_header_def
        image_nx_def sample_nx_def image_nx_rest_def)
  moreover have "length (image_nx_rest xid) = 4088"
    by (simp add: image_nx_rest_def encode_nx_superblock_def image_nx_def sample_nx_def)
  ultimately show ?thesis
    by (simp add: verify_object_sealed)
qed

lemma parse_image_nx_block: "parse_nx_superblock (image_nx_block xid) = Ok (image_nx_sealed xid)"
  using parse_nx_encode [of "image_nx_sealed xid" 0 "zeros 3904"]
  by (simp add: image_nx_block_def image_nx_sealed_def image_nx_def sample_nx_def NX_MAX_FILE_SYSTEMS_def)

definition omap_phys_block :: "u64 \<Rightarrow> bytes" where
  "omap_phys_block tree = encode_object_header sample_header @ le32 0 @ le32 0 @ le32 2 @ le32 2 @ le64 tree @ zeros 4040"

definition image_apsb_block :: bytes where
  "image_apsb_block = encode_apfs_superblock sample_apsb @ zeros 3136"

lemma length_image_apsb_block [simp]: "length image_apsb_block = 4096"
  by (simp add: image_apsb_block_def encode_apfs_superblock_def sample_apsb_def sample_apsb_name del: replicate.simps)

lemma parse_image_apsb_block: "parse_apfs_superblock image_apsb_block = Ok sample_apsb"
  unfolding image_apsb_block_def
  by (rule parse_apfs_encode) (simp_all add: sample_apsb_def sample_apsb_name is_scalar_def)

definition container_omap_entries :: "entry list" where
  "container_omap_entries = [omap_entry 1026 9 4]"

definition volume_omap_entries :: "entry list" where
  "volume_omap_entries = [omap_entry 1028 9 7, omap_entry 1029 9 8, omap_entry 1030 9 9]"

section \<open>The catalog\<close>

text \<open>
  The names \<open>docs\<close>, \<open>hello\<close> and \<open>a\<close>; \<open>docs\<close> is a directory with the file \<open>a\<close>, which claims 9000
  bytes and has extents for 8192 of them.
\<close>

definition dir_inode :: inode_val where "dir_inode = sample_inode 2 0x41ED"
definition docs_inode :: inode_val where "docs_inode = sample_inode 16 0x41ED"
definition hello_inode :: inode_val where "hello_inode = (sample_inode 17 0x81A4)\<lparr>iv_dstream_size := Some 5\<rparr>"
definition a_inode :: inode_val where "a_inode = (sample_inode 18 0x81A4)\<lparr>iv_dstream_size := Some 9000\<rparr>"

definition inode_record :: "u64 \<Rightarrow> inode_val \<Rightarrow> xfield list \<Rightarrow> entry" where
  "inode_record oid ino fs = (encode_catalog_key oid J_TYPE_INODE, encode_inode ino @ encode_xfields 8 fs)"

definition dir_record :: "u64 \<Rightarrow> rstr \<Rightarrow> u64 \<Rightarrow> u16 \<Rightarrow> entry" where
  "dir_record parent name file_id flags =
     (encode_drec_key parent 5 name, encode_drec_val \<lparr>dr_file_id = file_id, dr_date_added = 0, dr_flags = flags\<rparr>)"

definition extent_record :: "u64 \<Rightarrow> u64 \<Rightarrow> u64 \<Rightarrow> u64 \<Rightarrow> entry" where
  "extent_record oid logical len block =
     (encode_catalog_key oid J_TYPE_FILE_EXTENT @ le64 logical,
      encode_file_extent_val \<lparr>fe_flags_and_length = len, fe_phys_block_num = block, fe_crypto_id = 0\<rparr>)"

definition leaf_a :: "entry list" where
  "leaf_a =
     [inode_record 2 (sample_inode 2 0x41ED) [], dir_record 2 (lit ''docs'') 16 DT_DIR, dir_record 2 (lit ''hello'') 17 DT_REG]"

definition leaf_b :: "entry list" where
  "leaf_b =
     [inode_record 16 (sample_inode 16 0x41ED) [], dir_record 16 (lit ''a'') 18 DT_REG,
      inode_record 17 (sample_inode 17 0x81A4) [(8, le64 5 @ zeros 32)], extent_record 17 0 4096 10,
      inode_record 18 (sample_inode 18 0x81A4) [(4, [97, 0]), (8, le64 9000 @ zeros 32)],
      extent_record 18 0 4096 11, extent_record 18 4096 4096 10]"

definition catalog_root_entries :: "entry list" where
  "catalog_root_entries = [(fst (hd leaf_a), le64 1029), (fst (hd leaf_b), le64 1030)]"

definition image_tree :: abs_tree where
  "image_tree = ANode [(fst (hd leaf_a), ALeaf leaf_a), (fst (hd leaf_b), ALeaf leaf_b)]"

definition image_blocks :: "bytes list" where
  "image_blocks =
     [image_nx_block 4, image_nx_block 9, omap_phys_block 3,
      encode_node sample_header omap_root_shape 4096 container_omap_entries, image_apsb_block, omap_phys_block 6,
      encode_node sample_header omap_root_shape 4096 volume_omap_entries,
      encode_node sample_header var_root 4096 catalog_root_entries,
      encode_node sample_header var_leaf 4096 leaf_a, encode_node sample_header var_leaf 4096 leaf_b,
      [104, 101, 108, 108, 111] @ zeros 4091, zeros 4096]"

definition disk_image :: reader where
  "disk_image = image_reader (concat image_blocks)"

section \<open>Reading it\<close>

lemma length_encode_records [simp]:
  "length (encode_xfields u fs) = 4 + 4 * length fs + length (concat (map (\<lambda>f. pad8 (snd f)) fs))"
  "length (encode_drec_val d) = 18" "length (encode_file_extent_val e) = 24"
  by (simp_all add: encode_xfields_def encode_drec_val_def encode_file_extent_val_def)

lemma name_facts:
  "list_all is_scalar (lit ''docs'')" "list_all is_scalar (lit ''hello'')" "list_all is_scalar (lit ''a'')"
  "0 \<notin> set (lit ''docs'')" "0 \<notin> set (lit ''hello'')" "0 \<notin> set (lit ''a'')"
  "utf8 (lit ''docs'') = [100, 111, 99, 115]" "utf8 (lit ''hello'') = [104, 101, 108, 108, 111]" "utf8 (lit ''a'') = [97]"
  by (simp_all add: lit_def is_scalar_def utf8_def utf8_char_def byte_of_def)

lemmas record_defs = inode_record_def dir_record_def extent_record_def

lemma image_nodes_fit:
  "node_fits omap_root_shape 4096 container_omap_entries" "node_fits omap_root_shape 4096 volume_omap_entries"
  "node_fits var_root 4096 catalog_root_entries" "node_fits var_leaf 4096 leaf_a" "node_fits var_leaf 4096 leaf_b"
  by (simp_all add: shape_defs omap_root_shape_def container_omap_entries_def volume_omap_entries_def omap_entry_def
      catalog_root_entries_def leaf_a_def leaf_b_def record_defs encode_drec_key_def Let_def name_facts
      padded_len_def)

lemma length_image_block: "b \<in> set image_blocks \<Longrightarrow> length b = 4096"
proof -
  have "length (encode_node h s 4096 es) = 4096" if "node_fits s 4096 es" for h s es
    using that by (simp add: node_fits_def)
  then show "b \<in> set image_blocks \<Longrightarrow> length b = 4096"
    using image_nodes_fit by (auto simp: image_blocks_def omap_phys_block_def)
qed

lemma length_image: "length (concat image_blocks) = 49152"
  using length_image_block by (simp add: length_concat_blocks [where n = 4096]) (simp add: image_blocks_def)

lemma catalog_rank_encoded [simp]:
  "unat oid < 2 ^ 60 \<Longrightarrow> unat ty < 2 ^ 4 \<Longrightarrow> catalog_rank (encode_catalog_key oid ty @ rest) = Some (oid, ty)"
  by (simp add: catalog_rank_def)

lemma catalog_rank_encoded_bare [simp]:
  "unat oid < 2 ^ 60 \<Longrightarrow> unat ty < 2 ^ 4 \<Longrightarrow> catalog_rank (encode_catalog_key oid ty) = Some (oid, ty)"
  using catalog_rank_encoded [of oid ty "[]"] by simp

lemma rank_records [simp]:
  "unat oid < 2 ^ 60 \<Longrightarrow> catalog_rank (fst (inode_record oid ino fs)) = Some (oid, 3)"
  "unat oid < 2 ^ 60 \<Longrightarrow> catalog_rank (fst (dir_record oid name i f)) = Some (oid, 9)"
  "unat oid < 2 ^ 60 \<Longrightarrow> catalog_rank (fst (extent_record oid lo len b)) = Some (oid, 8)"
  by (simp_all add: record_defs J_TYPE_INODE_def J_TYPE_DIR_REC_def J_TYPE_FILE_EXTENT_def encode_drec_key_def Let_def)

lemma image_ranks:
  "map (\<lambda>e. catalog_rank (fst e)) (leaf_a @ leaf_b) =
     [Some (2, 3), Some (2, 9), Some (2, 9), Some (16, 3), Some (16, 9), Some (17, 3), Some (17, 8),
      Some (18, 3), Some (18, 8), Some (18, 8)]"
  by (simp add: leaf_a_def leaf_b_def)

text \<open>
  The container seen through any reader that delivers its bytes in reads of at most a block: the
  memory image here, and the program's own disk reader in \<open>Sample_Mount\<close>.
\<close>

locale container_reader =
  fixes rd :: reader
  assumes reads: "reads_upto 4096 rd (concat image_blocks)"
begin

lemma read_image:
  assumes "unat i < 12"
  shows "read_block rd i 4096 = Ok (image_blocks ! unat i)"
proof -
  have "unat (i * 4096) = unat i * 4096"
    using assms by (subst unat_mult_no_wrap) simp_all
  moreover have "take 4096 (drop (unat i * 4096) (concat image_blocks)) = image_blocks ! unat i"
    using assms length_image_block by (intro take_drop_concat_blocks) (auto simp: image_blocks_def)
  ultimately show ?thesis
    using reads_upto_at [OF reads, of 4096 "i * 4096"] assms length_image
    by (simp add: read_block_def seek_start_def read_exact_def mult.commute)
qed

lemma image_block_simps:
  "read_block rd 0 4096 = Ok (image_nx_block 4)" "read_block rd 1 4096 = Ok (image_nx_block 9)"
  "read_block rd 2 4096 = Ok (omap_phys_block 3)" "read_block rd 4 4096 = Ok image_apsb_block"
  "read_block rd 3 4096 = Ok (encode_node sample_header omap_root_shape 4096 container_omap_entries)"
  "read_block rd 5 4096 = Ok (omap_phys_block 6)"
  "read_block rd 6 4096 = Ok (encode_node sample_header omap_root_shape 4096 volume_omap_entries)"
  "read_block rd 7 4096 = Ok (encode_node sample_header var_root 4096 catalog_root_entries)"
  "read_block rd 8 4096 = Ok (encode_node sample_header var_leaf 4096 leaf_a)"
  "read_block rd 9 4096 = Ok (encode_node sample_header var_leaf 4096 leaf_b)"
  by (simp_all add: read_image image_blocks_def)

lemma image_omaps:
  "omap_at rd 3 4096 (ALeaf container_omap_entries)" "omap_at rd 6 4096 (ALeaf volume_omap_entries)"
proof -
  have "ascending omap_rank container_omap_entries" "ascending omap_rank volume_omap_entries"
    by (simp_all add: ascending_def container_omap_entries_def volume_omap_entries_def omap_entry_def omap_rank_def)
  then show "omap_at rd 3 4096 (ALeaf container_omap_entries)" "omap_at rd 6 4096 (ALeaf volume_omap_entries)"
    using image_nodes_fit by (auto intro!: omap_at_leaf simp: image_block_simps)
qed

text \<open>What the object maps resolve, with any fuel.\<close>

lemma image_resolves:
  assumes "0 < fuel"
  shows "omap_lookup fuel rd 3 4096 1026 = Ok 4" "omap_lookup fuel rd 6 4096 1028 = Ok 7"
    "omap_lookup fuel rd 6 4096 1029 = Ok 8" "omap_lookup fuel rd 6 4096 1030 = Ok 9"
proof -
  have find: "omap_lookup fuel rd 3 4096 oid = (case leaf_find (omap_compare oid) container_omap_entries of
      None \<Rightarrow> Err (omap_not_found oid) | Some v \<Rightarrow> Ok (u64_at v 8))"
    "omap_lookup fuel rd 6 4096 oid = (case leaf_find (omap_compare oid) volume_omap_entries of
      None \<Rightarrow> Err (omap_not_found oid) | Some v \<Rightarrow> Ok (u64_at v 8))" for oid
    using omap_lookup_outcome [OF image_omaps(1)] omap_lookup_outcome [OF image_omaps(2)] assms by simp_all
  show "omap_lookup fuel rd 3 4096 1026 = Ok 4" "omap_lookup fuel rd 6 4096 1028 = Ok 7"
    "omap_lookup fuel rd 6 4096 1029 = Ok 8" "omap_lookup fuel rd 6 4096 1030 = Ok 9"
    unfolding find
    by (simp_all add: container_omap_entries_def volume_omap_entries_def omap_entry_def omap_compare_def cmp_ord_def)
qed

lemma image_tree_at:
  assumes "0 < fuel"
  shows "tree_at rd (resolver_of fuel rd 4096 (Some 6)) 7 4096 0 0 image_tree"
proof -
  let ?res = "resolver_of fuel rd 4096 (Some 6)"
  let ?ps = "root_params var_root 4096 0 0"
  have leaves: "node_at rd ?res ?ps 8 (ALeaf leaf_a)" "node_at rd ?res ?ps 9 (ALeaf leaf_b)"
    by (rule node_at_leaf [where s = var_leaf and h = sample_header and bs = 4096],
        simp_all add: root_params_def image_block_simps image_nodes_fit, simp_all add: shape_defs)+
  have "node_at rd ?res ?ps 7 (ANode (map (\<lambda>(k, oid, t). (k, t))
      [(fst (hd leaf_a), 1029 :: u64, ALeaf leaf_a), (fst (hd leaf_b), 1030, ALeaf leaf_b)]))"
  proof (rule node_at_inner [where s = var_root and h = sample_header and bs = 4096])
    show "node_fits var_root 4096 (map (\<lambda>(k, oid, t). (k, le64 oid))
        [(fst (hd leaf_a), 1029, ALeaf leaf_a), (fst (hd leaf_b), 1030, ALeaf leaf_b)])"
      using image_nodes_fit(3) by (simp add: catalog_root_entries_def)
    show "read_block rd 7 (bp_block_size ?ps) = Ok (encode_node sample_header var_root 4096
        (map (\<lambda>(k, oid, t). (k, le64 oid)) [(fst (hd leaf_a), 1029, ALeaf leaf_a), (fst (hd leaf_b), 1030, ALeaf leaf_b)]))"
      by (simp add: root_params_def image_block_simps catalog_root_entries_def)
    show "\<not> ns_leaf var_root" "sizes_agree var_root ?ps"
      by (simp_all add: shape_defs)
    fix k oid t
    assume "(k, oid, t) \<in> set [(fst (hd leaf_a), 1029 :: u64, ALeaf leaf_a), (fst (hd leaf_b), 1030, ALeaf leaf_b)]"
    then show "\<exists>b. ?res oid = Ok b \<and> node_at rd ?res ?ps b t"
      using leaves image_resolves [OF assms] by (auto simp: resolver_of_def resolve_child_oid_def)
  qed
  then show ?thesis
    by (intro tree_at_encoded [where s = var_root and h = sample_header and bs = 4096 and es = catalog_root_entries])
      (simp_all add: image_block_simps image_nodes_fit image_tree_def)
qed

lemma image_catalog:
  assumes "2 \<le> fuel"
  shows "catalog_at fuel rd 7 6 4096 image_tree"
proof -
  have ents: "entries image_tree = leaf_a @ leaf_b"
    by (simp add: image_tree_def)
  have rank: "map (\<lambda>(k, v). catalog_rank k) es = map (\<lambda>e. catalog_rank (fst e)) es" for es
    by (simp add: case_prod_unfold)
  have "length (records image_tree oid ty) = length (filter (\<lambda>r. r = Some (oid, ty)) (map (\<lambda>e. catalog_rank (fst e)) (leaf_a @ leaf_b)))" for oid ty
    by (simp only: records_def hits_def ents filter_map o_def case_prod_unfold length_map)
  then have "length (records image_tree oid J_TYPE_INODE) \<le> 1" for oid
    unfolding image_ranks by (simp add: J_TYPE_INODE_def)
  moreover have "ascending catalog_rank (entries image_tree)"
    unfolding ascending_def ents rank image_ranks by (simp add: less_eq_prod_def)
  moreover have "height image_tree < fuel" "wf_tree image_tree"
    using assms by (simp_all add: image_tree_def leaf_a_def leaf_b_def)
  ultimately show ?thesis
    using image_tree_at [of fuel] assms by (simp add: catalog_at_def)
qed

end

interpretation container_reader disk_image
  by unfold_locales (simp add: disk_image_def)

end
