(* ===== verification/Catalog_Correct.thy ===== *)
theory Catalog_Correct
  imports Sample_Image
begin

text \<open>
  What the catalog operations promise: each computes its meaning on the records of the catalog,
  none panics or runs out of fuel on a well-formed one, and what a directory lists can be resolved.
\<close>

section \<open>The sample catalog, record by record\<close>

lemma entries_image_tree: "entries image_tree = leaf_a @ leaf_b"
  by (simp add: image_tree_def)

lemma image_records:
  "records image_tree 2 J_TYPE_DIR_REC = [dir_record 2 (lit ''docs'') 16 DT_DIR, dir_record 2 (lit ''hello'') 17 DT_REG]"
  "records image_tree 16 J_TYPE_DIR_REC = [dir_record 16 (lit ''a'') 18 DT_REG]"
  "records image_tree 2 J_TYPE_INODE = [inode_record 2 (sample_inode 2 0x41ED) []]"
  "records image_tree 16 J_TYPE_INODE = [inode_record 16 (sample_inode 16 0x41ED) []]"
  "records image_tree 17 J_TYPE_INODE = [inode_record 17 (sample_inode 17 0x81A4) [(8, le64 5 @ zeros 32)]]"
  "records image_tree 18 J_TYPE_INODE = [inode_record 18 (sample_inode 18 0x81A4) [(4, [97, 0]), (8, le64 9000 @ zeros 32)]]"
  "records image_tree 17 J_TYPE_FILE_EXTENT = [extent_record 17 0 4096 10]"
  "records image_tree 18 J_TYPE_FILE_EXTENT = [extent_record 18 0 4096 11, extent_record 18 4096 4096 10]"
  by (simp_all add: records_def hits_def entries_image_tree leaf_a_def leaf_b_def case_prod_unfold
      J_TYPE_DIR_REC_def J_TYPE_INODE_def J_TYPE_FILE_EXTENT_def)

lemma parse_inode_record:
  "\<forall>f \<in> set fs. length (snd f) < 65536 \<Longrightarrow> length fs < 65536 \<Longrightarrow>
   parse_inode_val (encode_inode ino @ encode_xfields u fs) = Ok (ino\<lparr>iv_dstream_size := dstream_of fs\<rparr>)"
  using parse_dstream_encoded [of fs u "[]"] by (simp add: parse_encode_inode)

lemma image_inodes:
  "inode_of image_tree 2 = Ok dir_inode" "inode_of image_tree 16 = Ok docs_inode"
  "inode_of image_tree 17 = Ok hello_inode" "inode_of image_tree 18 = Ok a_inode"
  by (simp_all add: inode_of_def image_records inode_record_def parse_inode_record dstream_of_def
      INO_EXT_TYPE_DSTREAM_def dir_inode_def docs_inode_def hello_inode_def a_inode_def sample_inode_def)

lemma decode_drec_records:
  "decode_drec_name (encode_drec_key p h (lit ''docs'')) = Ok (lit ''docs'')"
  "decode_drec_name (encode_drec_key p h (lit ''hello'')) = Ok (lit ''hello'')"
  "decode_drec_name (encode_drec_key p h (lit ''a'')) = Ok (lit ''a'')"
  by (simp_all add: decode_encode_drec_key name_facts)

lemma lit_eq_iff: "lit s = lit s' \<longleftrightarrow> map (of_char :: char \<Rightarrow> nat) s = map of_char s'"
  by (simp add: lit_def)

lemma parse_encode_drec_bare: "parse_drec_val (encode_drec_val d) = Ok d"
  using parse_encode_drec [of d "[]"] by simp

lemma image_children:
  "child_of image_tree 2 (lit ''docs'') = Ok \<lparr>dr_file_id = 16, dr_date_added = 0, dr_flags = DT_DIR\<rparr>"
  "child_of image_tree 2 (lit ''hello'') = Ok \<lparr>dr_file_id = 17, dr_date_added = 0, dr_flags = DT_REG\<rparr>"
  "child_of image_tree 16 (lit ''a'') = Ok \<lparr>dr_file_id = 18, dr_date_added = 0, dr_flags = DT_REG\<rparr>"
  "child_of image_tree 2 (lit ''nope'') = Err (FileNotFound (lit ''nope''))"
  by (simp_all add: child_of_def image_records dir_record_def decode_drec_records parse_encode_drec_bare
      lit_eq_iff)

section \<open>Paths\<close>

text \<open>
  C18: on a well-formed catalog \<open>resolve_path\<close> walks the names of the path from the root directory:
  each name is the first matching record of its directory, every object but the last must be a
  directory, the error names the prefix walked so far, and the result is the last object's inode.
\<close>

theorem resolve_path_correct:
  assumes "catalog_at fuel rd cat om bs t"
  shows "resolve_path fuel rd cat om bs path = walk_path t [] ROOT_DIR_RECORD (path_components path)"
  using assms by (rule resolve_path_at)

theorem resolve_path_correct_witness:
  "resolve_path 2 disk_image 7 6 4096 (lit ''/docs/a'') = Ok (18, a_inode)
   \<and> resolve_path 2 disk_image 7 6 4096 (lit ''hello/a'') = Err (NotADirectory (lit ''hello''))
   \<and> resolve_path 2 disk_image 7 6 4096 (lit ''/nope'') = Err (FileNotFound (lit ''nope''))"
proof -
  have "path_components (lit ''/docs/a'') = [lit ''docs'', lit ''a'']"
    "path_components (lit ''hello/a'') = [lit ''hello'', lit ''a'']" "path_components (lit ''/nope'') = [lit ''nope'']"
    by (simp_all add: path_components_def lit_def SLASH_def)
  then show ?thesis
    by (simp add: resolve_path_correct [OF image_catalog] ROOT_DIR_RECORD_def image_children image_inodes
        drec_file_type_def DT_DIR_def DT_REG_def)
qed

text \<open>
  Resolving a path depends only on the names on it: leading, trailing and repeated slashes
  change nothing, whatever the medium holds.
\<close>

theorem resolve_path_slashes:
  assumes "path_components p = path_components q"
  shows "resolve_path fuel rd cat om bs p = resolve_path fuel rd cat om bs q"
proof -
  have "trim_matches SLASH p = [] \<longleftrightarrow> trim_matches SLASH q = []"
    using assms by (simp flip: path_components_Nil_iff)
  then show ?thesis
    using assms by (simp add: resolve_path_def Let_def)
qed

theorem resolve_path_slashes_witness:
  "resolve_path 2 disk_image 7 6 4096 (lit ''//docs///a/'') = resolve_path 2 disk_image 7 6 4096 (lit ''docs/a'')"
  by (rule resolve_path_slashes) (simp add: path_components_def lit_def SLASH_def)

section \<open>Totality\<close>

lemma parse_extents_total: "parse_extents es \<noteq> Panic \<and> parse_extents es \<noteq> NoFuel"
proof (induction es rule: parse_extents.induct)
  case (2 key val es)
  have "parse_file_extent_val val \<noteq> Panic" "parse_file_extent_val val \<noteq> NoFuel"
    using parse_file_extent_val_no_panic [of val]
    by (auto simp: no_panic_def parse_file_extent_val_def outcome_iffs read_no_fuel)
  with 2 show ?case
    by (auto simp: outcome_iffs)
qed simp

lemma walk_path_total: "walk_path t walked oid names \<noteq> Panic \<and> walk_path t walked oid names \<noteq> NoFuel"
proof (induction t walked oid names rule: walk_path.induct)
  case (1 t walked oid)
  then show ?case
    using inode_of_total [of t oid] by (simp add: outcome_iffs)
next
  case (2 t walked oid name names)
  then show ?case
    using find_drec_total by (auto simp: outcome_iffs child_of_def)
qed

text \<open>
  On a well-formed catalog every operation returns a value or an error: no slice, no
  \<open>unreachable!()\<close> and no recursion without end, whatever the path or identifier and whatever the
  bytes of the record values.
\<close>

theorem catalog_operations_total:
  assumes "catalog_at fuel rd cat om bs t"
  shows "resolve_path fuel rd cat om bs path \<notin> {Panic, NoFuel}
    \<and> list_directory fuel rd cat om bs oid \<notin> {Panic, NoFuel}
    \<and> lookup_inode fuel rd cat om bs oid \<notin> {Panic, NoFuel}
    \<and> lookup_extents fuel rd cat om bs oid \<notin> {Panic, NoFuel}
    \<and> lookup_drec fuel rd om cat bs oid name \<notin> {Panic, NoFuel}"
  using resolve_path_at [OF assms] list_directory_at [OF assms] lookup_inode_at [OF assms]
    lookup_extents_at [OF assms] lookup_drec_at [OF assms] walk_path_total inode_of_total parse_extents_total
    find_drec_total
  by (simp add: child_of_def)

theorem catalog_operations_total_witness:
  "resolve_path 2 disk_image 7 6 4096 (lit ''x/y'') \<noteq> Panic
   \<and> list_directory 2 disk_image 7 6 4096 99 \<noteq> NoFuel"
  using catalog_operations_total [OF image_catalog, of 2 "lit ''x/y''" 99] by simp

section \<open>Directories\<close>

text \<open>
  C19: listing a directory of a well-formed catalog succeeds and returns, in key order, one entry
  per directory record whose name and value can be decoded, with the sizes and times of its inode,
  or zeros when that inode is missing or malformed.
\<close>

theorem list_directory_correct:
  assumes "catalog_at fuel rd cat om bs t"
  shows "list_directory fuel rd cat om bs parent =
    Ok (List.map_filter (dir_entry_of t) (records t parent J_TYPE_DIR_REC))"
  using assms by (rule list_directory_at)

theorem list_directory_correct_witness:
  "\<exists>docs hello. list_directory 2 disk_image 7 6 4096 2 = Ok [docs, hello]
     \<and> de_name docs = lit ''docs'' \<and> de_kind docs = Directory \<and> de_oid hello = 17 \<and> de_size hello = 5"
  by (simp add: list_directory_correct [OF image_catalog] image_records map_filter_simps dir_entry_of_def
      dir_record_def decode_drec_records parse_encode_drec_bare image_inodes kind_of_drec_def
      drec_file_type_def DT_DIR_def DT_REG_def DT_LNK_def inode_size_def hello_inode_def)

text \<open>The names of the records of a directory that can be decoded.\<close>

definition names_of :: "entry list \<Rightarrow> rstr list" where
  "names_of es = List.map_filter (\<lambda>(k, v). case decode_drec_name k of Ok n \<Rightarrow> Some n | _ \<Rightarrow> None) es"

lemma names_of_in: "(k, v) \<in> set es \<Longrightarrow> decode_drec_name k = Ok n \<Longrightarrow> n \<in> set (names_of es)"
  by (force simp: names_of_def map_filter_def)

lemma find_drec_unique:
  assumes "distinct (names_of es)" and "(k, v) \<in> set es" and "decode_drec_name k = Ok n"
  shows "find_drec n es = parse_drec_val v"
  using assms
proof (induction es)
  case (Cons e es)
  obtain k' v' where e: "e = (k', v')" by (cases e)
  show ?case
  proof (cases "decode_drec_name k' = Ok n")
    case True
    then have "n \<notin> set (names_of es)"
      using Cons.prems(1) by (simp add: e names_of_def map_filter_simps)
    then have "(k, v) \<notin> set es"
      using names_of_in Cons.prems(3) by blast
    with True Cons.prems e show ?thesis by auto
  next
    case False
    then have "(k, v) \<in> set es" "distinct (names_of es)"
      using Cons.prems by (auto simp: e names_of_def map_filter_simps split: outcome.splits)
    with Cons False show ?thesis
      using decode_total [of k'] by (cases "decode_drec_name k'") (simp_all add: e)
  qed
qed simp

lemma dir_entry_of_Some:
  "dir_entry_of t (k, v) = Some e \<longleftrightarrow> (\<exists>n d. decode_drec_name k = Ok n \<and> parse_drec_val v = Ok d \<and>
     (\<exists>size ct mt. (size, ct, mt) = (case inode_of t (dr_file_id d) of
        Ok inode \<Rightarrow> (inode_size inode, iv_create_time inode, iv_modify_time inode) | _ \<Rightarrow> (0, 0, 0)) \<and>
        e = \<lparr>de_name = n, de_oid = dr_file_id d, de_kind = kind_of_drec d, de_size = size,
             de_create_time = ct, de_modify_time = mt\<rparr>))"
  by (auto simp: dir_entry_of_def split: outcome.splits prod.splits)

text \<open>The entries of a directory, and the record behind each.\<close>

definition listing :: "abs_tree \<Rightarrow> u64 \<Rightarrow> dir_entry list" where
  "listing t parent = List.map_filter (dir_entry_of t) (records t parent J_TYPE_DIR_REC)"

lemma listed_child:
  assumes "e \<in> set (listing t parent)" and "distinct (names_of (records t parent J_TYPE_DIR_REC))"
  shows "de_name e \<in> set (names_of (records t parent J_TYPE_DIR_REC))"
    and "\<exists>d. child_of t parent (de_name e) = Ok d \<and> dr_file_id d = de_oid e \<and> kind_of_drec d = de_kind e"
proof -
  obtain k v where kv: "(k, v) \<in> set (records t parent J_TYPE_DIR_REC)" "dir_entry_of t (k, v) = Some e"
    using assms(1) by (auto simp: listing_def map_filter_def)
  then obtain n d where "decode_drec_name k = Ok n" "parse_drec_val v = Ok d" "de_name e = n"
    "de_oid e = dr_file_id d" "de_kind e = kind_of_drec d"
    by (auto simp: dir_entry_of_Some)
  then show "de_name e \<in> set (names_of (records t parent J_TYPE_DIR_REC))"
    and "\<exists>d. child_of t parent (de_name e) = Ok d \<and> dr_file_id d = de_oid e \<and> kind_of_drec d = de_kind e"
    using find_drec_unique [OF assms(2) kv(1)] names_of_in [OF kv(1)] by (auto simp: child_of_def)
qed

text \<open>
  Listing and lookup agree: in a directory whose names are distinct, looking up the name of any
  listed entry finds a record with the same object identifier and kind.
\<close>

theorem listed_entry_found:
  assumes "catalog_at fuel rd cat om bs t" and "list_directory fuel rd cat om bs parent = Ok des"
    and "e \<in> set des" and "distinct (names_of (records t parent J_TYPE_DIR_REC))"
  shows "\<exists>d. lookup_drec fuel rd om cat bs parent (de_name e) = Ok d
    \<and> dr_file_id d = de_oid e \<and> kind_of_drec d = de_kind e"
  using listed_child(2) [of e t parent] assms(2-4)
  by (simp add: list_directory_at [OF assms(1)] lookup_drec_at [OF assms(1)] listing_def)

theorem listed_entry_found_witness:
  "\<exists>d. lookup_drec 2 disk_image 6 7 4096 16 (lit ''a'') = Ok d \<and> dr_file_id d = 18"
proof -
  define des where "des = List.map_filter (dir_entry_of image_tree) (records image_tree 16 J_TYPE_DIR_REC)"
  have "list_directory 2 disk_image 7 6 4096 16 = Ok des"
    by (simp add: des_def list_directory_at [OF image_catalog])
  moreover obtain e where "e \<in> set des" "de_name e = lit ''a''" "de_oid e = 18"
    by (simp add: des_def image_records map_filter_simps dir_entry_of_def dir_record_def
        decode_drec_records parse_encode_drec_bare image_inodes)
  moreover have "distinct (names_of (records image_tree 16 J_TYPE_DIR_REC))"
    by (simp add: image_records names_of_def map_filter_simps dir_record_def decode_drec_records)
  ultimately show ?thesis
    using listed_entry_found [OF image_catalog, of 2 16 des e] by auto
qed

end
