(* ===== verification/Extents.thy ===== *)
theory Extents
  imports Catalog_Records Objects
begin

text \<open>
  \<open>vendor/apfs/src/extents.rs\<close>: copying a file's extents to a writer, and the reader that presents
  them as one seekable stream. Both translate logical to physical offsets the way the driver of the
  program does again; the locale \<open>extent_translation\<close> is what the three rely on.
\<close>

section \<open>Extent maps\<close>

text \<open>An entry is (logical start, physical start, length), all in bytes.\<close>

type_synonym extent = "u64 \<times> u64 \<times> u64"

text \<open>The loop that builds a map; empty extents are left out.\<close>

fun build_extent_map :: "u64 \<Rightarrow> file_extent_val list \<Rightarrow> u64 \<Rightarrow> extent list" where
  "build_extent_map block_size [] logical_offset = []"
| "build_extent_map block_size (e # es) logical_offset =
     (let len = extent_length e in
      if len = 0 then build_extent_map block_size es logical_offset
      else
        let physical_start = fe_phys_block_num e * block_size in
        (logical_offset, physical_start, len) # build_extent_map block_size es (logical_offset + len))"

fun logical_to_physical :: "extent list \<Rightarrow> u64 \<Rightarrow> u64 option" where
  "logical_to_physical [] logical_offset = None"
| "logical_to_physical ((log_start, phys_start, len) # em) logical_offset =
     (if logical_offset \<ge> log_start \<and> logical_offset < log_start + len
      then Some (phys_start + (logical_offset - log_start))
      else logical_to_physical em logical_offset)"

text \<open>The loop of \<open>read\<close> that computes how much of the extent is left; \<open>0\<close> when none covers the offset.\<close>

fun extent_left :: "extent list \<Rightarrow> u64 \<Rightarrow> u64" where
  "extent_left [] logical_pos = 0"
| "extent_left ((log_start, phys_start, len) # em) logical_pos =
     (if logical_pos \<ge> log_start \<and> logical_pos < log_start + len
      then (log_start + len) - logical_pos
      else extent_left em logical_pos)"

section \<open>Copying a file\<close>

text \<open>
  The writer is generic in the code: \<open>write_all\<close> is a parameter that takes the writer's state. Its
  state after an error is not modelled. \<open>copy_extent\<close> is the inner loop, which never ends for a
  block size of 0 and so has fuel, one unit per round.
\<close>

type_synonym 'w writer = "'w \<Rightarrow> bytes \<Rightarrow> (io_error, 'w) outcome"

fun copy_extent ::
    "nat \<Rightarrow> reader \<Rightarrow> 'w writer \<Rightarrow> u64 \<Rightarrow> u64 \<Rightarrow> u64 \<Rightarrow> u64 \<Rightarrow> u64 \<Rightarrow> u64 \<Rightarrow> 'w \<Rightarrow> ('w \<times> u64) apfs_result" where
  "copy_extent 0 rd write_all block_size logical_size phys_start len extent_offset bytes_written w = NoFuel"
| "copy_extent (Suc fuel) rd write_all block_size logical_size phys_start len extent_offset bytes_written w =
     (if extent_offset < len \<and> bytes_written < logical_size then
        let remaining_in_file = logical_size - bytes_written;
            remaining_in_extent = len - extent_offset;
            to_read = min (min remaining_in_file remaining_in_extent) block_size in
        and_then (seek_start rd (phys_start + extent_offset)) (\<lambda>_.
        and_then (read_exact rd (phys_start + extent_offset) (unat to_read)) (\<lambda>buf.
        and_then (map_err Io (write_all w buf)) (\<lambda>w.
        copy_extent fuel rd write_all block_size logical_size phys_start len
          (extent_offset + to_read) (bytes_written + to_read) w)))
      else Ok (w, bytes_written))"

fun copy_extents ::
    "nat \<Rightarrow> reader \<Rightarrow> 'w writer \<Rightarrow> u64 \<Rightarrow> u64 \<Rightarrow> file_extent_val list \<Rightarrow> u64 \<Rightarrow> 'w \<Rightarrow> ('w \<times> u64) apfs_result" where
  "copy_extents fuel rd write_all block_size logical_size [] bytes_written w = Ok (w, bytes_written)"
| "copy_extents fuel rd write_all block_size logical_size (e # es) bytes_written w =
     (if bytes_written \<ge> logical_size then Ok (w, bytes_written)
      else
        let len = extent_length e; phys_start = fe_phys_block_num e * block_size in
        and_then (copy_extent fuel rd write_all block_size logical_size phys_start len 0 bytes_written w)
          (\<lambda>(w, bytes_written). copy_extents fuel rd write_all block_size logical_size es bytes_written w))"

definition read_file_data ::
    "nat \<Rightarrow> reader \<Rightarrow> 'w writer \<Rightarrow> u32 \<Rightarrow> file_extent_val list \<Rightarrow> u64 \<Rightarrow> 'w \<Rightarrow> ('w \<times> u64) apfs_result" where
  "read_file_data fuel rd write_all block_size extents logical_size w =
     (if logical_size = 0 then Ok (w, 0)
      else copy_extents fuel rd write_all (ucast block_size) logical_size extents 0 w)"

text \<open>\<open>Vec<u8>\<close> as a writer.\<close>

definition vec_write_all :: "bytes writer" where
  "vec_write_all buf bs = Ok (buf @ bs)"

section \<open>The fork reader\<close>

record fork_reader =
  fr_logical_size :: u64
  fr_extent_map :: "extent list"
  fr_position :: u64

definition fork_reader_new :: "u32 \<Rightarrow> file_extent_val list \<Rightarrow> u64 \<Rightarrow> fork_reader" where
  "fork_reader_new block_size extents logical_size =
     \<lparr>fr_logical_size = logical_size, fr_extent_map = build_extent_map (ucast block_size) extents 0, fr_position = 0\<rparr>"

lemma extent_left_pos: "logical_to_physical em pos = Some p \<Longrightarrow> 0 < extent_left em pos"
  by (induction em pos rule: logical_to_physical.induct) (auto split: if_splits simp: word_neq_0_conv [symmetric])

text \<open>
  The loop of \<open>read\<close>: \<open>total_read\<close> grows in every round, since an offset that is translated has
  bytes left in its extent. The result is what the rounds put into the buffer.
\<close>

function fork_read_loop ::
    "reader \<Rightarrow> extent list \<Rightarrow> u64 \<Rightarrow> nat \<Rightarrow> nat \<Rightarrow> (io_error, bytes) outcome" where
  "fork_read_loop rd em position to_read total_read =
     (if total_read < to_read then
        let logical_pos = position + of_nat total_read in
        case logical_to_physical em logical_pos of
          None \<Rightarrow> Err (Io_Error KindUnexpectedEof (lit ''logical offset beyond extent map''))
        | Some physical_pos \<Rightarrow>
            let extent_remaining = extent_left em logical_pos;
                chunk_size = min (to_read - total_read) (unat extent_remaining) in
            and_then (rd_seek rd physical_pos) (\<lambda>_.
            and_then (rd_read_exact rd physical_pos chunk_size) (\<lambda>bs.
            and_then (fork_read_loop rd em position to_read (total_read + chunk_size)) (\<lambda>rest.
            Ok (bs @ rest))))
      else Ok [])"
  by pat_completeness auto
termination
proof (relation "measure (\<lambda>(rd, em, position, to_read, total_read). to_read - total_read)")
  fix rd :: reader and em position to_read total_read logical_pos physical_pos extent_remaining chunk_size
  assume "total_read < to_read" and "logical_pos = position + of_nat total_read"
    and "logical_to_physical em logical_pos = Some physical_pos"
    and "extent_remaining = extent_left em logical_pos"
    and "chunk_size = min (to_read - total_read) (unat extent_remaining)"
  moreover from this have "0 < unat extent_remaining"
    using extent_left_pos by (simp add: word_less_nat_alt)
  ultimately show "((rd, em, position, to_read, total_read + chunk_size), rd, em, position, to_read, total_read)
      \<in> measure (\<lambda>(rd, em, position, to_read, total_read). to_read - total_read)"
    by simp
qed simp

declare fork_read_loop.simps [simp del]

text \<open>\<open>read\<close> into a buffer of \<open>n\<close> bytes: the bytes read and the new state; an error leaves the state.\<close>

definition fork_read :: "reader \<Rightarrow> fork_reader \<Rightarrow> nat \<Rightarrow> (io_error, bytes \<times> fork_reader) outcome" where
  "fork_read rd fr n =
     (if fr_position fr \<ge> fr_logical_size fr then Ok ([], fr)
      else
        let remaining = unat (fr_logical_size fr - fr_position fr); to_read = min n remaining in
        if to_read = 0 then Ok ([], fr)
        else
          and_then (fork_read_loop rd (fr_extent_map fr) (fr_position fr) to_read 0) (\<lambda>bs.
          Ok (bs, fr\<lparr>fr_position := fr_position fr + of_nat (length bs)\<rparr>)))"

datatype seek_from = Start u64 | Current i64 | End i64

definition fork_seek :: "fork_reader \<Rightarrow> seek_from \<Rightarrow> (io_error, u64 \<times> fork_reader) outcome" where
  "fork_seek fr pos =
     (let new_pos :: i64 =
        (case pos of
           Start offset \<Rightarrow> offset
         | Current offset \<Rightarrow> fr_position fr + offset
         | End offset \<Rightarrow> fr_logical_size fr + offset) in
      if sint new_pos < 0 then Err (Io_Error KindInvalidInput (lit ''seek before start of file''))
      else Ok (new_pos, fr\<lparr>fr_position := new_pos\<rparr>))"

section \<open>What a translation must do\<close>

text \<open>The first entry that covers an offset.\<close>

fun locate :: "extent list \<Rightarrow> u64 \<Rightarrow> extent option" where
  "locate [] pos = None"
| "locate ((l, p, n) # em) pos = (if l \<le> pos \<and> pos < l + n then Some (l, p, n) else locate em pos)"

text \<open>Entries that follow each other from offset \<open>s\<close> without gap, and the bytes they name in an image.\<close>

fun contiguous :: "nat \<Rightarrow> extent list \<Rightarrow> bool" where
  "contiguous s [] \<longleftrightarrow> True"
| "contiguous s ((l, p, n) # em) \<longleftrightarrow> unat l = s \<and> 0 < n \<and> contiguous (s + unat n) em"

definition total_len :: "extent list \<Rightarrow> nat" where
  "total_len em = sum_list (map (\<lambda>(l, p, n). unat n) em)"

definition content :: "bytes \<Rightarrow> extent list \<Rightarrow> bytes" where
  "content img em = concat (map (\<lambda>(l, p, n). take (unat n) (drop (unat p) img)) em)"

definition in_image :: "bytes \<Rightarrow> extent list \<Rightarrow> bool" where
  "in_image img em \<longleftrightarrow> length img < 2 ^ 64 \<and> (\<forall>(l, p, n) \<in> set em. unat p + unat n \<le> length img)"

lemma total_len_simps [simp]: "total_len [] = 0" "total_len ((l, p, n) # em) = unat n + total_len em"
  by (simp_all add: total_len_def)

lemma content_simps [simp]:
  "content img [] = []" "content img ((l, p, n) # em) = take (unat n) (drop (unat p) img) @ content img em"
  by (simp_all add: content_def)

lemma in_image_simps [simp]:
  "in_image img ((l, p, n) # em) \<longleftrightarrow> unat p + unat n \<le> length img \<and> in_image img em"
  by (auto simp: in_image_def)

lemma length_content: "in_image img em \<Longrightarrow> length (content img em) = total_len em"
  by (induction em) auto

lemma take_drop_slice:
  assumes "d + k \<le> n" and "p + n \<le> length xs"
  shows "take k (drop d (take n (drop p xs) @ ys)) = take k (drop (p + d) xs)"
proof -
  have "drop d (take n (drop p xs) @ ys) = take (n - d) (drop (p + d) xs) @ ys"
    using assms by (simp add: drop_take add.commute)
  moreover have "length (take (n - d) (drop (p + d) xs)) = n - d"
    using assms by simp
  ultimately show ?thesis
    using assms(1) by (simp add: min_def)
qed

text \<open>Inside the map, the covering entry names the byte of the content at that offset and those after it.\<close>

lemma locate_content:
  assumes "contiguous s em" and "in_image img em" and "s + total_len em < 2 ^ 64"
    and "s \<le> unat pos" and "unat pos < s + total_len em"
  shows "\<exists>l p n. locate em pos = Some (l, p, n) \<and> unat (l + n - pos) > 0 \<and>
    unat pos + unat (l + n - pos) \<le> s + total_len em \<and> unat (p + (pos - l)) + unat (l + n - pos) \<le> length img \<and>
    (\<forall>k \<le> unat (l + n - pos).
       take k (drop (unat (p + (pos - l))) img) = take k (drop (unat pos - s) (content img em)))"
  using assms
proof (induction em arbitrary: s)
  case Nil
  then show ?case by simp
next
  case (Cons e em)
  obtain l p n where e: "e = (l, p, n)" by (cases e)
  have l: "unat l = s" and n: "0 < n" and bound: "s + unat n < 2 ^ 64"
    using Cons.prems by (simp_all add: e)
  then have ln: "unat (l + n) = s + unat n"
    by (simp add: unat_add_no_wrap)
  show ?case
  proof (cases "unat pos < s + unat n")
    case True
    then have here: "l \<le> pos" "pos < l + n"
      using Cons.prems l ln by (simp_all add: word_le_nat_alt word_less_nat_alt)
    then have left: "unat (l + n - pos) = s + unat n - unat pos" and d: "unat (pos - l) = unat pos - s"
      using l ln by (simp_all add: unat_sub word_less_nat_alt word_le_nat_alt)
    have "unat p + unat n \<le> length img" "length img < 2 ^ 64"
      using Cons.prems by (auto simp: e in_image_def)
    moreover from this have phys: "unat (p + (pos - l)) = unat p + (unat pos - s)"
      using True d by (subst unat_add_no_wrap) auto
    ultimately have "take k (drop (unat p + (unat pos - s)) img) =
        take k (drop (unat pos - s) (take (unat n) (drop (unat p) img) @ content img em))"
      if "k \<le> s + unat n - unat pos" for k
      using that True Cons.prems(4) by (intro take_drop_slice [symmetric]) auto
    with here left phys show ?thesis
      using True Cons.prems \<open>unat p + unat n \<le> length img\<close> by (simp add: e)
  next
    case False
    then have not_here: "\<not> pos < l + n"
      by (simp add: word_less_nat_alt ln)
    have len: "length (take (unat n) (drop (unat p) img)) = unat n"
      using Cons.prems by (auto simp: e min_def)
    have "drop (unat pos - s) (content img (e # em)) = drop (unat pos - (s + unat n)) (content img em)"
      using False len by (simp add: e)
    moreover have "s + unat n + total_len em = s + total_len (e # em)" "locate (e # em) pos = locate em pos"
      using not_here by (simp_all add: e)
    ultimately show ?thesis
      using Cons.IH [of "s + unat n"] Cons.prems False by (simp only:) (simp add: e)
  qed
qed

text \<open>
  The interface between an extent map and a reader: translate an offset, and tell how many bytes the
  extent has from there on, both by the first entry that covers it.
\<close>

locale extent_translation =
  fixes to_physical :: "extent list \<Rightarrow> u64 \<Rightarrow> u64 option" and left_from :: "extent list \<Rightarrow> u64 \<Rightarrow> u64"
  assumes to_physical_locate: "to_physical em pos = map_option (\<lambda>(l, p, n). p + (pos - l)) (locate em pos)"
    and left_from_locate: "left_from em pos = (case locate em pos of None \<Rightarrow> 0 | Some (l, p, n) \<Rightarrow> l + n - pos)"
begin

lemma chunk:
  assumes "contiguous 0 em" and "in_image img em" and "total_len em < 2 ^ 64" and "unat pos < total_len em"
  obtains p where "to_physical em pos = Some p" and "0 < unat (left_from em pos)"
    and "unat pos + unat (left_from em pos) \<le> total_len em" and "unat p + unat (left_from em pos) \<le> length img"
    and "\<And>k. k \<le> unat (left_from em pos) \<Longrightarrow>
      take k (drop (unat p) img) = take k (drop (unat pos) (content img em))"
  using locate_content [of 0 em img pos] assms
  by (auto simp: to_physical_locate left_from_locate intro: that)

lemma outside: "locate em pos = None \<Longrightarrow> to_physical em pos = None \<and> left_from em pos = 0"
  by (simp add: to_physical_locate left_from_locate)

end

interpretation fork: extent_translation logical_to_physical extent_left
proof
  show "logical_to_physical em pos = map_option (\<lambda>(l, p, n). p + (pos - l)) (locate em pos)" for em pos
    by (induction em pos rule: logical_to_physical.induct) auto
  show "extent_left em pos = (case locate em pos of None \<Rightarrow> 0 | Some (l, p, n) \<Rightarrow> l + n - pos)" for em pos
    by (induction em pos rule: extent_left.induct) auto
qed

lemma locate_beyond:
  assumes "contiguous s em" and "s + total_len em < 2 ^ 64" and "s + total_len em \<le> unat pos"
  shows "locate em pos = None"
  using assms
proof (induction em arbitrary: s)
  case (Cons e em)
  obtain l p n where e: "e = (l, p, n)" by (cases e)
  have "unat (l + n) = s + unat n"
    using Cons.prems by (simp add: e unat_add_no_wrap)
  then have "\<not> pos < l + n"
    using Cons.prems by (simp add: e word_less_nat_alt)
  with Cons.IH [of "s + unat n"] Cons.prems show ?case by (simp add: e)
qed simp

section \<open>What the loops read\<close>

text \<open>A file's bytes: its extents one after the other.\<close>

definition file_bytes :: "bytes \<Rightarrow> u64 \<Rightarrow> file_extent_val list \<Rightarrow> bytes" where
  "file_bytes img block_size es = content img (build_extent_map block_size es 0)"

lemma content_build_offset:
  "content img (build_extent_map bs es a) = content img (build_extent_map bs es b)"
  "in_image img (build_extent_map bs es a) \<longleftrightarrow> in_image img (build_extent_map bs es b)"
  "total_len (build_extent_map bs es a) = total_len (build_extent_map bs es b)"
  by (induction es arbitrary: a b) (auto simp: Let_def)

lemma build_contiguous:
  "unat s + sum_list (map (unat \<circ> extent_length) es) < 2 ^ 64 \<Longrightarrow> contiguous (unat s) (build_extent_map bs es s)"
proof (induction es arbitrary: s)
  case (Cons e es)
  then have "unat (s + extent_length e) = unat s + unat (extent_length e)"
    by (simp add: unat_add_no_wrap)
  with Cons.IH [of "s + extent_length e"] Cons.prems show ?case
    by (cases "extent_length e = 0") (auto simp: Let_def word_neq_0_conv)
qed simp

lemma total_len_build: "total_len (build_extent_map bs es s) = sum_list (map (unat \<circ> extent_length) es)"
  by (induction es arbitrary: s) (auto simp: Let_def)

lemma fork_read_loop_content:
  assumes "reads_image rd img" and "contiguous 0 em" and "in_image img em" and "total_len em < 2 ^ 64"
    and "unat position + to_read \<le> total_len em"
  shows "got \<le> to_read \<Longrightarrow> fork_read_loop rd em position to_read got =
    Ok (take (to_read - got) (drop (unat position + got) (content img em)))"
proof (induction "to_read - got" arbitrary: got rule: less_induct)
  case less
  show ?case
  proof (cases "got < to_read")
    case False
    then show ?thesis
      by (simp add: fork_read_loop.simps)
  next
    case True
    define pos where "pos = position + of_nat got"
    have pos: "unat pos = unat position + got"
      using True assms(4,5) by (simp add: pos_def unat_add_no_wrap unat_of_nat)
    have "unat pos < total_len em"
      using pos True assms(5) by simp
    then obtain p where p: "logical_to_physical em pos = Some p" "0 < unat (extent_left em pos)"
      "unat p + unat (extent_left em pos) \<le> length img"
      "\<And>k. k \<le> unat (extent_left em pos) \<Longrightarrow> take k (drop (unat p) img) = take k (drop (unat pos) (content img em))"
      using fork.chunk [OF assms(2,3,4)] by metis
    define k where "k = min (to_read - got) (unat (extent_left em pos))"
    have k: "0 < k" "got + k \<le> to_read" "k \<le> unat (extent_left em pos)"
      using True p(2) by (auto simp: k_def)
    have "rd_seek rd p = Ok ()" "rd_read_exact rd p k = Ok (take k (drop (unat p) img))"
      using reads_image_at [OF assms(1), of p k] p(3) k(3) by simp_all
    moreover have "fork_read_loop rd em position to_read (got + k) =
        Ok (take (to_read - (got + k)) (drop (unat position + (got + k)) (content img em)))"
      using k True by (intro less.hyps) auto
    ultimately have "fork_read_loop rd em position to_read got =
        Ok (take k (drop (unat pos) (content img em)) @
          take (to_read - (got + k)) (drop (unat position + (got + k)) (content img em)))"
      using True p(1) p(4) [OF k(3)]
      by (subst fork_read_loop.simps) (simp add: Let_def pos_def [symmetric] k_def [symmetric])
    also have "take k (drop (unat pos) (content img em)) @
        take (to_read - (got + k)) (drop (unat position + (got + k)) (content img em)) =
        take (to_read - got) (drop (unat position + got) (content img em))"
      using take_drop_append_take [of k "to_read - got" "drop (unat position + got) (content img em)"] k
      by (simp add: pos ac_simps)
    finally show ?thesis .
  qed
qed

lemma copy_extent_content:
  assumes "reads_upto (unat bs) rd img" and "0 < bs" and "unat phys + unat len \<le> length img" and "length img < 2 ^ 64"
  shows "unat len - unat off \<le> unat bs * fuel \<Longrightarrow> off \<le> len \<Longrightarrow> written \<le> sz \<Longrightarrow>
    k = min (unat len - unat off) (unat sz - unat written) \<Longrightarrow>
    copy_extent (Suc fuel) rd vec_write_all bs sz phys len off written w =
      Ok (w @ take k (drop (unat phys + unat off) img), written + of_nat k)"
proof (induction fuel arbitrary: off written w k)
  case 0
  then have "off = len"
    by (simp add: word_le_nat_alt word_unat_eq_iff)
  with 0 show ?case by simp
next
  case (Suc fuel)
  show ?case
  proof (cases "off < len \<and> written < sz")
    case False
    then have "k = 0"
      using Suc.prems by (auto simp: word_less_nat_alt word_le_nat_alt)
    with False show ?thesis
      by (auto simp del: copy_extent.simps(2) simp add: copy_extent.simps(2) [of "Suc fuel"])
  next
    case True
    define r where "r = min (min (sz - written) (len - off)) bs"
    have sub: "unat (sz - written) = unat sz - unat written" "unat (len - off) = unat len - unat off"
      using True by (simp_all add: unat_sub less_imp_le)
    then have r: "unat r = min k (unat bs)"
      using Suc.prems(4) by (auto simp: r_def min_def word_le_nat_alt)
    have kpos: "0 < k" "k \<le> unat len - unat off" "k \<le> unat sz - unat written"
      using True Suc.prems(4) by (auto simp: word_less_nat_alt)
    then have rpos: "0 < unat r" "unat r \<le> k"
      using assms(2) r by (auto simp: word_less_nat_alt)
    have "unat off + unat r \<le> unat len" "unat written + unat r \<le> unat sz"
      using rpos(2) kpos by simp_all
    then have "unat off + unat r < 2 ^ 64" "unat written + unat r < 2 ^ 64"
      by (simp_all add: le_less_trans [OF _ unat_less_pow64])
    then have off: "unat (off + r) = unat off + unat r" and written: "unat (written + r) = unat written + unat r"
      by (simp_all only: unat_add_no_wrap)
    have phys: "unat (phys + off) = unat phys + unat off"
      using assms(3,4) True by (subst unat_add_no_wrap) (auto simp: word_less_nat_alt)
    have "unat (phys + off) + unat r \<le> length img"
      using assms(3) rpos(2) kpos True phys by (auto simp: word_less_nat_alt)
    then have "read_exact rd (phys + off) (unat r) = Ok (take (unat r) (drop (unat phys + unat off) img))"
      "seek_start rd (phys + off) = Ok ()"
      using reads_upto_at [OF assms(1), of "unat r" "phys + off"] phys r by (simp_all add: read_exact_def seek_start_def)
    then have step: "copy_extent (Suc (Suc fuel)) rd vec_write_all bs sz phys len off written w =
        copy_extent (Suc fuel) rd vec_write_all bs sz phys len (off + r) (written + r)
          (w @ take (unat r) (drop (unat phys + unat off) img))"
      using True by (simp add: r_def [symmetric] Let_def vec_write_all_def del: copy_extent.simps(2)
          add: copy_extent.simps(2) [of "Suc fuel"])
    have app: "take (unat r) (drop a img) @ take (k - unat r) (drop (a + unat r) img) = take k (drop a img)" for a
      using take_drop_append_take [of "unat r" k "drop a img"] rpos(2) by (simp add: add.commute)
    have sum: "written + r + of_nat (k - unat r) = written + of_nat k"
      using rpos(2) by (simp add: of_nat_diff)
    show ?thesis
    proof (cases "unat r = k \<and> \<not> (unat len - unat off - k \<le> unat bs * fuel)")
      case True
      then have "\<not> written + r < sz"
        using Suc.prems(4) r Suc.prems(1) written by (auto simp: word_less_nat_alt min_def split: if_splits)
      then show ?thesis
        using step True sum by simp
    next
      case False
      then have "unat len - unat (off + r) \<le> unat bs * fuel"
        using Suc.prems(1) r off by (auto simp: min_def split: if_splits)
      moreover have "off + r \<le> len" "written + r \<le> sz"
        using off written rpos(2) kpos by (auto simp: word_le_nat_alt)
      moreover have "k - unat r = min (unat len - unat (off + r)) (unat sz - unat (written + r))"
        using Suc.prems(4) off written by (auto simp: min_def)
      ultimately have "copy_extent (Suc fuel) rd vec_write_all bs sz phys len (off + r) (written + r)
          (w @ take (unat r) (drop (unat phys + unat off) img)) =
        Ok ((w @ take (unat r) (drop (unat phys + unat off) img)) @
            take (k - unat r) (drop (unat phys + unat (off + r)) img), written + r + of_nat (k - unat r))"
        by (intro Suc.IH)
      then show ?thesis
        unfolding step using app [of "unat phys + unat off"] sum off by (simp add: add.assoc)
    qed
  qed
qed

lemma copy_extents_content:
  assumes "reads_upto (unat bs) rd img" and "0 < bs"
  shows "in_image img (build_extent_map bs es 0) \<Longrightarrow>
    \<forall>e \<in> set es. unat (extent_length e) \<le> unat bs * fuel \<Longrightarrow> written \<le> sz \<Longrightarrow>
    copy_extents (Suc fuel) rd vec_write_all bs sz es written w =
      Ok (w @ take (unat sz - unat written) (file_bytes img bs es),
          written + of_nat (min (unat sz - unat written) (length (file_bytes img bs es))))"
proof (induction es arbitrary: written w)
  case Nil
  then show ?case by (simp add: file_bytes_def)
next
  case (Cons e es)
  define len phys where "len = extent_length e" and "phys = fe_phys_block_num e * bs"
  define block where "block = take (unat len) (drop (unat phys) img)"
  have rest: "in_image img (build_extent_map bs es 0)"
    using Cons.prems(1) content_build_offset(2) [of img bs es _ 0]
    by (auto simp: Let_def len_def [symmetric] split: if_splits)
  have img: "length img < 2 ^ 64"
    using Cons.prems(1) by (simp add: in_image_def)
  have bytes: "file_bytes img bs (e # es) = block @ file_bytes img bs es"
    using content_build_offset(1) [of img bs es "extent_length e" 0]
    by (simp add: file_bytes_def Let_def block_def len_def phys_def)
  show ?case
  proof (cases "written < sz")
    case False
    with Cons.prems show ?thesis
      by (simp add: word_le_nat_alt word_less_nat_alt)
  next
    case True
    have nle: "\<not> sz \<le> written"
      using True by simp
    define k where "k = min (unat len) (unat sz - unat written)"
    have len_block: "length block = unat len" and inside: "len \<noteq> 0 \<Longrightarrow> unat phys + unat len \<le> length img"
      using Cons.prems(1) by (auto simp: Let_def block_def len_def phys_def min_def split: if_splits)
    have one: "copy_extent (Suc fuel) rd vec_write_all bs sz phys len 0 written w =
        Ok (w @ take k (drop (unat phys) img), written + of_nat k)"
    proof (cases "len = 0")
      case False
      then show ?thesis
        using copy_extent_content [OF assms inside img, of 0 fuel written sz k w] Cons.prems k_def
        by (simp add: len_def)
    qed (simp add: k_def)
    have "unat written + k \<le> unat sz"
      using True by (auto simp: k_def word_less_nat_alt)
    moreover from this have "unat written + k < 2 ^ 64"
      by (simp add: le_less_trans [OF _ unat_less_pow64])
    ultimately have wk: "unat (written + of_nat k) = unat written + k" and le: "unat written + k \<le> unat sz"
      by (simp_all add: unat_add_no_wrap unat_of_nat)
    have "take k (drop (unat phys) img) = take k block"
      by (simp add: block_def k_def)
    moreover have "copy_extents (Suc fuel) rd vec_write_all bs sz es (written + of_nat k) (w @ take k block) =
        Ok ((w @ take k block) @ take (unat sz - (unat written + k)) (file_bytes img bs es),
          written + of_nat k + of_nat (min (unat sz - (unat written + k)) (length (file_bytes img bs es))))"
      using Cons.IH [OF rest, of "written + of_nat k" "w @ take k block"] Cons.prems(2) wk
        le by (simp add: word_le_nat_alt)
    ultimately have "copy_extents (Suc fuel) rd vec_write_all bs sz (e # es) written w =
        Ok ((w @ take k block) @ take (unat sz - (unat written + k)) (file_bytes img bs es),
          written + of_nat k + of_nat (min (unat sz - (unat written + k)) (length (file_bytes img bs es))))"
      using one by (simp add: nle len_def [symmetric] phys_def [symmetric] Let_def del: copy_extent.simps)
    moreover have "take k block @ take (unat sz - (unat written + k)) (file_bytes img bs es) =
        take (unat sz - unat written) (file_bytes img bs (e # es))"
      by (cases "unat len \<le> unat sz - unat written") (simp_all add: bytes k_def len_block)
    moreover have "k + min (unat sz - (unat written + k)) (length (file_bytes img bs es)) =
        min (unat sz - unat written) (length (file_bytes img bs (e # es)))"
      by (auto simp: bytes k_def len_block min_def)
    ultimately show ?thesis
      by (simp add: add.assoc flip: of_nat_add)
  qed
qed

section \<open>Properties\<close>

text \<open>
  C15: reading a whole file writes exactly its extents' bytes in order, cut at the logical size, and
  returns how many that is; every block size above 0 and every split of the file into extents give
  the same bytes. \<open>fuel\<close> rounds of one block cover the longest extent.
\<close>

theorem read_file_data_correct:
  assumes "reads_upto (unat bs) rd img" and "0 < bs" and "in_image img (build_extent_map (ucast bs) es 0)"
    and "\<forall>e \<in> set es. unat (extent_length e) \<le> unat bs * fuel"
  shows "read_file_data (Suc fuel) rd vec_write_all bs es sz w =
    Ok (w @ take (unat sz) (file_bytes img (ucast bs) es),
        of_nat (min (unat sz) (length (file_bytes img (ucast bs) es))))"
proof -
  have "(0 :: u64) < ucast bs"
    using assms(2) by (simp add: word_less_nat_alt)
  then show ?thesis
    using copy_extents_content [of "ucast bs" rd img es fuel 0 sz w] assms(1,3,4)
    by (simp add: read_file_data_def)
qed

definition sample_extent :: "u64 \<Rightarrow> u64 \<Rightarrow> file_extent_val" where
  "sample_extent block len = \<lparr>fe_flags_and_length = len, fe_phys_block_num = block, fe_crypto_id = 0\<rparr>"

text \<open>Two extents of 4 and 3 bytes in blocks of 4, a file of 6 bytes.\<close>

definition tiny_img :: bytes where
  "tiny_img = [1, 2, 3, 4, 5, 6, 7, 8, 9, 10, 11, 12]"

theorem read_file_data_correct_witness:
  "read_file_data (Suc 1) (image_reader tiny_img) vec_write_all 4 [sample_extent 2 4, sample_extent 0 3] 6 [] =
     Ok ([9, 10, 11, 12, 1, 2], 6)"
proof -
  let ?es = "[sample_extent 2 4, sample_extent 0 3]"
  have len: "extent_length (sample_extent b n) = n AND 0x00FFFFFFFFFFFFFF" for b n
    by (simp add: extent_length_def sample_extent_def)
  have map: "build_extent_map 4 ?es 0 = [(0, 8, 4), (4, 0, 3)]"
    by (simp add: len Let_def sample_extent_def extent_length_def)
  have "read_file_data (Suc 1) (image_reader tiny_img) vec_write_all 4 ?es 6 [] =
      Ok ([] @ take (unat (6 :: u64)) (file_bytes tiny_img (ucast (4 :: u32)) ?es),
        of_nat (min (unat (6 :: u64)) (length (file_bytes tiny_img (ucast (4 :: u32)) ?es))))"
    by (rule read_file_data_correct) (simp_all add: map in_image_def tiny_img_def sample_extent_def extent_length_def)
  moreover have "file_bytes tiny_img 4 ?es = [9, 10, 11, 12, 1, 2, 3]"
    unfolding file_bytes_def map by (simp add: tiny_img_def)
  ultimately show ?thesis by simp
qed

lemma fork_read_content:
  assumes "reads_image rd img" and "contiguous 0 (fr_extent_map fr)" and "in_image img (fr_extent_map fr)"
    and "total_len (fr_extent_map fr) < 2 ^ 64" and "unat (fr_logical_size fr) \<le> total_len (fr_extent_map fr)"
    and "n < 2 ^ 64"
  shows "fork_read rd fr n =
    (let bs = take n (drop (unat (fr_position fr)) (take (unat (fr_logical_size fr)) (content img (fr_extent_map fr))))
     in Ok (bs, fr\<lparr>fr_position := fr_position fr + of_nat (length bs)\<rparr>))"
proof (cases "fr_position fr < fr_logical_size fr")
  case False
  then have "drop (unat (fr_position fr)) (take (unat (fr_logical_size fr)) xs) = []" for xs :: bytes
    by (simp add: word_less_nat_alt)
  moreover have "fr_logical_size fr \<le> fr_position fr"
    using False by simp
  ultimately show ?thesis
    by (simp add: fork_read_def)
next
  case True
  define pos sz em where "pos = fr_position fr" and "sz = fr_logical_size fr" and "em = fr_extent_map fr"
  have pos: "pos < sz" "unat (sz - pos) = unat sz - unat pos"
    using True by (simp_all add: pos_def sz_def unat_sub less_imp_le)
  define k where "k = min n (unat sz - unat pos)"
  have len: "length (content img em) = total_len em" and in_range: "unat pos + k \<le> total_len em" "unat pos + k \<le> unat sz"
    using assms pos length_content by (auto simp: em_def sz_def pos_def k_def word_less_nat_alt)
  have slice: "take k (drop (unat pos) (content img em)) = take n (drop (unat pos) (take (unat sz) (content img em)))"
    by (simp add: k_def drop_take min.commute)
  have "fork_read_loop rd em pos k 0 = Ok (take (k - 0) (drop (unat pos + 0) (content img em)))"
    by (rule fork_read_loop_content) (use assms in_range in \<open>simp_all add: em_def\<close>)
  with True slice show ?thesis
    using pos by (cases "k = 0") (auto simp: fork_read_def Let_def pos_def [symmetric] sz_def [symmetric]
        em_def [symmetric] k_def [symmetric])
qed

text \<open>
  C16: a read of the stream returns the next bytes of the file, as many as the buffer and the rest of
  the file allow, across any number of extents, and advances the position by as many; at the end it
  returns none. The extents must cover the logical size.
\<close>

theorem fork_read_correct:
  assumes "reads_image rd img" and "contiguous 0 (fr_extent_map fr)" and "in_image img (fr_extent_map fr)"
    and "total_len (fr_extent_map fr) < 2 ^ 64" and "unat (fr_logical_size fr) \<le> total_len (fr_extent_map fr)"
    and "n < 2 ^ 64"
  shows "fork_read rd fr n =
    (let bs = take n (drop (unat (fr_position fr)) (take (unat (fr_logical_size fr)) (content img (fr_extent_map fr))))
     in Ok (bs, fr\<lparr>fr_position := fr_position fr + of_nat (length bs)\<rparr>))"
  using assms by (rule fork_read_content)

theorem fork_read_correct_witness:
  "let fr = \<lparr>fr_logical_size = 6, fr_extent_map = [(0, 8, 4), (4, 0, 3)], fr_position = 2\<rparr> in
     fork_read (image_reader tiny_img) fr 10 = Ok ([11, 12, 1, 2], fr\<lparr>fr_position := 6\<rparr>)"
  using fork_read_correct [of "image_reader tiny_img" tiny_img
      "\<lparr>fr_logical_size = 6, fr_extent_map = [(0, 8, 4), (4, 0, 3)], fr_position = 2\<rparr>" 10]
  by (simp add: in_image_def tiny_img_def)

text \<open>
  C22: the two ways to read a file agree: one read of the stream from its start into a buffer large
  enough returns the bytes that \<open>read_file\<close> copies, when the extents cover the logical size.
\<close>

theorem fork_read_equals_copy:
  assumes "reads_image rd img" and "0 < bs" and "in_image img (build_extent_map (ucast bs) es 0)"
    and "\<forall>e \<in> set es. unat (extent_length e) \<le> unat bs * fuel"
    and "sum_list (map (unat \<circ> extent_length) es) < 2 ^ 64"
    and "unat sz \<le> sum_list (map (unat \<circ> extent_length) es)"
  shows "map_err Io (fork_read rd (fork_reader_new bs es sz) (unat sz)) =
    and_then (read_file_data (Suc fuel) rd vec_write_all bs es sz []) (\<lambda>(bytes, n).
      Ok (bytes, (fork_reader_new bs es sz)\<lparr>fr_position := sz\<rparr>))"
proof -
  let ?fr = "fork_reader_new bs es sz"
  have "(0 :: u64) < ucast bs"
    using assms(2) by (simp add: word_less_nat_alt)
  then have copy: "read_file_data (Suc fuel) rd vec_write_all bs es sz [] =
    Ok (take (unat sz) (file_bytes img (ucast bs) es),
        of_nat (min (unat sz) (length (file_bytes img (ucast bs) es))))"
    using copy_extents_content [of "ucast bs" rd img es fuel 0 sz "[]"] assms(1,3,4)
    by (simp add: read_file_data_def)
  have em: "contiguous 0 (fr_extent_map ?fr)" "in_image img (fr_extent_map ?fr)"
    "total_len (fr_extent_map ?fr) = sum_list (map (unat \<circ> extent_length) es)"
    using build_contiguous [of 0 es "ucast bs"] assms(3,5) by (simp_all add: fork_reader_new_def total_len_build)
  have len: "length (content img (fr_extent_map ?fr)) = sum_list (map (unat \<circ> extent_length) es)"
    using length_content [OF em(2)] em(3) by simp
  have "fork_read_loop rd (fr_extent_map ?fr) 0 (unat sz) 0 =
      Ok (take (unat sz - 0) (drop (unat (0 :: u64) + 0) (content img (fr_extent_map ?fr))))"
    by (rule fork_read_loop_content) (use assms em in simp_all)
  then have "fork_read rd ?fr (unat sz) = Ok (take (unat sz) (content img (fr_extent_map ?fr)), ?fr\<lparr>fr_position := sz\<rparr>)"
    using len assms(6) by (auto simp: fork_read_def Let_def fork_reader_new_def min_def word_le_nat_alt unat_eq_0)
  then show ?thesis
    using copy by (simp add: file_bytes_def fork_reader_new_def)
qed

theorem fork_read_equals_copy_witness:
  "map_err Io (fork_read (image_reader tiny_img) (fork_reader_new 4 [sample_extent 2 4, sample_extent 0 3] 6) 6)
   = and_then (read_file_data (Suc 1) (image_reader tiny_img) vec_write_all 4 [sample_extent 2 4, sample_extent 0 3] 6 [])
       (\<lambda>(bytes, n). Ok (bytes, (fork_reader_new 4 [sample_extent 2 4, sample_extent 0 3] 6)\<lparr>fr_position := 6\<rparr>))"
  using fork_read_equals_copy [of "image_reader tiny_img" tiny_img 4 "[sample_extent 2 4, sample_extent 0 3]" 1 6]
  by (simp add: in_image_def tiny_img_def sample_extent_def extent_length_def)

lemma sint_nonneg_u64:
  assumes "unat (w :: u64) < 2 ^ 63"
  shows "0 \<le> sint w"
proof -
  have "uint w < 2 ^ 63"
    using assms by (simp add: uint_nat del: of_nat_unat)
  moreover from this have "signed_take_bit 63 (uint w) = uint w"
    by (intro signed_take_bit_int_eq_self) (simp_all add: order.trans [OF _ uint_ge_0])
  ultimately show ?thesis
    by (simp add: sint_uint)
qed

text \<open>
  A seek to an absolute offset below \<open>2 ^ 63\<close> followed by a read returns the bytes of the file
  at that offset, wherever the stream was before; an offset at or beyond the end gives none.
\<close>

theorem fork_seek_then_read:
  assumes "reads_image rd img" and "contiguous 0 (fr_extent_map fr)" and "in_image img (fr_extent_map fr)"
    and "total_len (fr_extent_map fr) < 2 ^ 64" and "unat (fr_logical_size fr) \<le> total_len (fr_extent_map fr)"
    and "n < 2 ^ 64" and "unat off < 2 ^ 63"
  shows "and_then (fork_seek fr (Start off)) (\<lambda>(_, fr'). and_then (fork_read rd fr' n) (\<lambda>(bs, _). Ok bs)) =
    Ok (take n (drop (unat off) (take (unat (fr_logical_size fr)) (content img (fr_extent_map fr)))))"
  using fork_read_content [of rd img "fr\<lparr>fr_position := off\<rparr>" n] assms sint_nonneg_u64 [OF assms(7)]
  by (simp add: fork_seek_def Let_def)

theorem fork_seek_then_read_witness:
  "and_then (fork_seek \<lparr>fr_logical_size = 6, fr_extent_map = [(0, 8, 4), (4, 0, 3)], fr_position = 2\<rparr> (Start 3))
     (\<lambda>(_, fr'). and_then (fork_read (image_reader tiny_img) fr' 2) (\<lambda>(bs, _). Ok bs)) = Ok [12, 1]"
  using fork_seek_then_read [of "image_reader tiny_img" tiny_img
      "\<lparr>fr_logical_size = 6, fr_extent_map = [(0, 8, 4), (4, 0, 3)], fr_position = 2\<rparr>" 2 3]
  by (simp add: in_image_def tiny_img_def)

end
