(* ===== verification/Volume.thy ===== *)
theory Volume
  imports Catalog_Correct Extents
begin

text \<open>
  \<open>vendor/apfs/src/lib.rs\<close>: opening a volume, and the operations of \<open>ApfsVolume\<close>. The volume holds
  its reader. \<open>fuel\<close> bounds the depth of the trees (and the rounds of a file copy), \<open>depth\<close> the
  nesting of directories in \<open>walk\<close>.
\<close>

record file_stat =
  st_oid :: u64
  st_kind :: entry_kind
  st_size :: u64
  st_create_time :: i64
  st_modify_time :: i64
  st_uid :: u32
  st_gid :: u32
  st_mode :: u16
  st_nlink :: u32

record walk_entry =
  we_path :: rstr
  we_entry :: dir_entry

record volume_info =
  vi_name :: rstr
  vi_block_size :: u32
  vi_num_files :: u64
  vi_num_directories :: u64
  vi_num_symlinks :: u64

record apfs_volume =
  av_reader :: reader
  av_block_size :: u32
  av_vol_omap_root_block :: u64
  av_catalog_root_block :: u64
  av_info :: volume_info

section \<open>Opening\<close>

definition open_volume :: "nat \<Rightarrow> reader \<Rightarrow> apfs_volume apfs_result" where
  "open_volume fuel rd =
     and_then (read_nxsb rd) (\<lambda>nxsb.
     and_then (find_latest_nxsb rd nxsb) (\<lambda>nxsb.
     let block_size = nx_block_size nxsb in
     and_then (read_omap_tree_root rd (nx_omap_oid nxsb) block_size) (\<lambda>container_omap_root.
     and_then (ok_or (find (\<lambda>oid. oid \<noteq> 0) (nx_fs_oids nxsb)) NoVolume) (\<lambda>vol_oid.
     and_then (omap_lookup fuel rd container_omap_root block_size vol_oid) (\<lambda>vol_block.
     and_then (read_block rd vol_block block_size) (\<lambda>vol_data.
     and_then (parse_apfs_superblock vol_data) (\<lambda>vol_sb.
     and_then (read_omap_tree_root rd (ap_omap_oid vol_sb) block_size) (\<lambda>vol_omap_root_block.
     and_then (omap_lookup fuel rd vol_omap_root_block block_size (ap_root_tree_oid vol_sb)) (\<lambda>catalog_root_block.
     let info = \<lparr>vi_name = ap_volume_name vol_sb, vi_block_size = block_size,
                 vi_num_files = ap_num_files vol_sb, vi_num_directories = ap_num_directories vol_sb,
                 vi_num_symlinks = ap_num_symlinks vol_sb\<rparr> in
     Ok \<lparr>av_reader = rd, av_block_size = block_size, av_vol_omap_root_block = vol_omap_root_block,
         av_catalog_root_block = catalog_root_block, av_info = info\<rparr>)))))))))"

section \<open>Operations\<close>

definition vol_resolve :: "nat \<Rightarrow> apfs_volume \<Rightarrow> rstr \<Rightarrow> (u64 \<times> inode_val) apfs_result" where
  "vol_resolve fuel vol path =
     resolve_path fuel (av_reader vol) (av_catalog_root_block vol) (av_vol_omap_root_block vol) (av_block_size vol) path"

definition vol_extents :: "nat \<Rightarrow> apfs_volume \<Rightarrow> u64 \<Rightarrow> file_extent_val list apfs_result" where
  "vol_extents fuel vol oid =
     lookup_extents fuel (av_reader vol) (av_catalog_root_block vol) (av_vol_omap_root_block vol) (av_block_size vol) oid"

definition vol_entries :: "nat \<Rightarrow> apfs_volume \<Rightarrow> u64 \<Rightarrow> dir_entry list apfs_result" where
  "vol_entries fuel vol oid =
     Catalog.list_directory fuel (av_reader vol) (av_catalog_root_block vol) (av_vol_omap_root_block vol) (av_block_size vol) oid"

definition is_root_path :: "rstr \<Rightarrow> bool" where
  "is_root_path path \<longleftrightarrow> path = [SLASH] \<or> path = []"

definition vol_list_directory :: "nat \<Rightarrow> apfs_volume \<Rightarrow> rstr \<Rightarrow> dir_entry list apfs_result" where
  "vol_list_directory fuel vol path =
     and_then
       (if is_root_path path then Ok ROOT_DIR_RECORD
        else
          and_then (vol_resolve fuel vol path) (\<lambda>(oid, inode).
          if inode_kind inode \<noteq> INODE_DIR_TYPE then Err (NotADirectory path) else Ok oid))
       (\<lambda>parent. vol_entries fuel vol parent)"

definition read_file_to :: "nat \<Rightarrow> apfs_volume \<Rightarrow> 'w writer \<Rightarrow> rstr \<Rightarrow> 'w \<Rightarrow> ('w \<times> u64) apfs_result" where
  "read_file_to fuel vol write_all path w =
     and_then (vol_resolve fuel vol path) (\<lambda>(oid, inode).
     and_then (vol_extents fuel vol (iv_private_id inode)) (\<lambda>file_extents.
     read_file_data fuel (av_reader vol) write_all (av_block_size vol) file_extents (inode_size inode) w))"

definition read_file :: "nat \<Rightarrow> apfs_volume \<Rightarrow> rstr \<Rightarrow> bytes apfs_result" where
  "read_file fuel vol path =
     and_then (read_file_to fuel vol vec_write_all path []) (\<lambda>(buf, _). Ok buf)"

definition kind_of_inode :: "inode_val \<Rightarrow> entry_kind" where
  "kind_of_inode inode =
     (if inode_kind inode = INODE_DIR_TYPE then Directory
      else if inode_kind inode = INODE_SYMLINK_TYPE then Symlink
      else File)"

definition stat_of_inode :: "u64 \<Rightarrow> inode_val \<Rightarrow> file_stat" where
  "stat_of_inode oid inode =
     \<lparr>st_oid = oid, st_kind = kind_of_inode inode, st_size = inode_size inode,
      st_create_time = iv_create_time inode, st_modify_time = iv_modify_time inode, st_uid = iv_uid inode,
      st_gid = iv_gid inode, st_mode = iv_mode inode, st_nlink = inode_nlink inode\<rparr>"

definition stat_and_extents :: "nat \<Rightarrow> apfs_volume \<Rightarrow> rstr \<Rightarrow> (file_stat \<times> extent list \<times> u64) apfs_result" where
  "stat_and_extents fuel vol path =
     and_then (vol_resolve fuel vol path) (\<lambda>(oid, inode).
     let stat = stat_of_inode oid inode in
     if st_kind stat = Directory then Ok (stat, [], 0)
     else
       and_then (vol_extents fuel vol (iv_private_id inode)) (\<lambda>file_extents.
       let extent_map = build_extent_map (ucast (av_block_size vol)) file_extents 0 in
       Ok (stat, extent_map, inode_size inode)))"

definition get_file_extents :: "nat \<Rightarrow> apfs_volume \<Rightarrow> rstr \<Rightarrow> (extent list \<times> u64) apfs_result" where
  "get_file_extents fuel vol path =
     and_then (vol_resolve fuel vol path) (\<lambda>(oid, inode).
     and_then (vol_extents fuel vol (iv_private_id inode)) (\<lambda>file_extents.
     let extent_map = build_extent_map (ucast (av_block_size vol)) file_extents 0 in
     Ok (extent_map, inode_size inode)))"

definition open_file :: "nat \<Rightarrow> apfs_volume \<Rightarrow> rstr \<Rightarrow> fork_reader apfs_result" where
  "open_file fuel vol path =
     and_then (vol_resolve fuel vol path) (\<lambda>(oid, inode).
     and_then (vol_extents fuel vol (iv_private_id inode)) (\<lambda>file_extents.
     Ok (fork_reader_new (av_block_size vol) file_extents (inode_size inode))))"

definition stat :: "nat \<Rightarrow> apfs_volume \<Rightarrow> rstr \<Rightarrow> file_stat apfs_result" where
  "stat fuel vol path = and_then (vol_resolve fuel vol path) (\<lambda>(oid, inode). Ok (stat_of_inode oid inode))"

definition path_exists :: "nat \<Rightarrow> apfs_volume \<Rightarrow> rstr \<Rightarrow> bool apfs_result" where
  "path_exists fuel vol path =
     (case vol_resolve fuel vol path of
        Ok _ \<Rightarrow> Ok True
      | Err (FileNotFound _) \<Rightarrow> Ok False
      | Err e \<Rightarrow> Err e
      | Panic \<Rightarrow> Panic
      | NoFuel \<Rightarrow> NoFuel)"

text \<open>\<open>format!("/{}", name)\<close> below the root, \<open>format!("{}/{}", parent, name)\<close> elsewhere.\<close>

definition child_path :: "rstr \<Rightarrow> rstr \<Rightarrow> rstr" where
  "child_path parent_path name =
     (if parent_path = [] then [SLASH] @ name else parent_path @ [SLASH] @ name)"

text \<open>The loop of \<open>walk_recursive\<close> over the entries, with the recursive call as an argument.\<close>

fun walk_entries ::
    "(u64 \<Rightarrow> rstr \<Rightarrow> walk_entry list apfs_result) \<Rightarrow> rstr \<Rightarrow> dir_entry list \<Rightarrow> walk_entry list apfs_result" where
  "walk_entries recurse parent_path [] = Ok []"
| "walk_entries recurse parent_path (entry # es) =
     (let full_path = child_path parent_path (de_name entry) in
      and_then (if de_kind entry = Directory then recurse (de_oid entry) full_path else Ok []) (\<lambda>below.
      and_then (walk_entries recurse parent_path es) (\<lambda>rest.
      Ok (\<lparr>we_path = full_path, we_entry = entry\<rparr> # below @ rest))))"

fun walk_recursive :: "nat \<Rightarrow> nat \<Rightarrow> apfs_volume \<Rightarrow> u64 \<Rightarrow> rstr \<Rightarrow> walk_entry list apfs_result" where
  "walk_recursive 0 fuel vol parent_oid parent_path = NoFuel"
| "walk_recursive (Suc depth) fuel vol parent_oid parent_path =
     and_then (vol_entries fuel vol parent_oid) (\<lambda>dir_entries.
     walk_entries (walk_recursive depth fuel vol) parent_path dir_entries)"

definition walk :: "nat \<Rightarrow> nat \<Rightarrow> apfs_volume \<Rightarrow> walk_entry list apfs_result" where
  "walk depth fuel vol = walk_recursive depth fuel vol ROOT_DIR_RECORD []"

section \<open>Opening a container\<close>

lemma read_omap_tree_root_at:
  assumes "read_block rd b bs = Ok block" and "56 \<le> length block"
  shows "read_omap_tree_root rd b bs = Ok (u64_at block 48)"
  using assms by (simp add: read_omap_tree_root_def slice_from_def OBJECT_HEADER_SIZE_def cursor_at)

text \<open>
  Reading an object map panics exactly when its block is shorter than an object header; the
  block size comes from the superblock and is not checked before.
\<close>

theorem read_omap_tree_root_panic_iff:
  assumes "reader_ok rd" and "read_block rd b bs = Ok block"
  shows "read_omap_tree_root rd b bs = Panic \<longleftrightarrow> unat bs < 32"
proof -
  have "length block = unat bs"
    using assms by (rule read_block_length)
  moreover have "no_panic (and_then (read_u32 c) (\<lambda>(om_flags, c). and_then (read_u32 c) (\<lambda>(om_snap_count, c).
      and_then (read_u32 c) (\<lambda>(om_tree_type, c). and_then (read_u32 c) (\<lambda>(om_snap_tree_type, c).
      and_then (read_u64 c) (\<lambda>(om_tree_oid, c). Ok om_tree_oid))))))" for c
    by (intro no_panic_intros)
  ultimately show ?thesis
    using assms(2) by (auto simp: read_omap_tree_root_def slice_from_def OBJECT_HEADER_SIZE_def no_panic_def)
qed

theorem read_omap_tree_root_panic_iff_witness:
  "read_omap_tree_root (image_reader (zeros 64)) 0 16 = Panic
   \<and> read_omap_tree_root (image_reader (zeros 64)) 0 64 \<noteq> Panic"
proof -
  have "read_block (image_reader (zeros 64)) 0 n = Ok (take (unat n) (zeros 64))" if "unat n \<le> 64" for n
    using that by (simp add: read_block_def seek_start_def read_exact_def image_reader_def)
  then show ?thesis
    using read_omap_tree_root_panic_iff [OF image_reader_ok, of "zeros 64" 0 16]
      read_omap_tree_root_panic_iff [OF image_reader_ok, of "zeros 64" 0 64] by simp
qed

lemma parse_apfs_length: "parse_apfs_superblock block = Ok sb \<Longrightarrow> 960 \<le> length block"
  by (auto simp: parse_apfs_superblock_def OBJECT_HEADER_SIZE_def Let_def outcome_iffs cursor_iffs
      split: if_splits)

text \<open>
  C20: a volume that opens is mounted from the first non-zero volume identifier of the latest
  verified container superblock: its roots are what the two object maps resolve, and its block size
  is at least 960, so that no block operation on it degenerates.
\<close>

theorem open_volume_correct:
  assumes "reader_ok rd" and "open_volume fuel rd = Ok vol"
  shows "\<exists>nx0 nx vol_oid vol_block block vsb.
      read_nxsb rd = Ok nx0 \<and> find_latest_nxsb rd nx0 = Ok nx
    \<and> find (\<lambda>oid. oid \<noteq> 0) (nx_fs_oids nx) = Some vol_oid
    \<and> and_then (read_omap_tree_root rd (nx_omap_oid nx) (nx_block_size nx))
        (\<lambda>r. omap_lookup fuel rd r (nx_block_size nx) vol_oid) = Ok vol_block
    \<and> read_block rd vol_block (nx_block_size nx) = Ok block \<and> parse_apfs_superblock block = Ok vsb
    \<and> read_omap_tree_root rd (ap_omap_oid vsb) (nx_block_size nx) = Ok (av_vol_omap_root_block vol)
    \<and> omap_lookup fuel rd (av_vol_omap_root_block vol) (nx_block_size nx) (ap_root_tree_oid vsb)
        = Ok (av_catalog_root_block vol)
    \<and> av_reader vol = rd \<and> av_block_size vol = nx_block_size nx \<and> 960 \<le> unat (av_block_size vol)
    \<and> vi_name (av_info vol) = ap_volume_name vsb"
proof -
  from assms(2) obtain nx0 nx r vol_oid vol_block block vsb where steps:
    "read_nxsb rd = Ok nx0" "find_latest_nxsb rd nx0 = Ok nx"
    "read_omap_tree_root rd (nx_omap_oid nx) (nx_block_size nx) = Ok r"
    "find (\<lambda>oid. oid \<noteq> 0) (nx_fs_oids nx) = Some vol_oid"
    "omap_lookup fuel rd r (nx_block_size nx) vol_oid = Ok vol_block"
    "read_block rd vol_block (nx_block_size nx) = Ok block" "parse_apfs_superblock block = Ok vsb"
    "read_omap_tree_root rd (ap_omap_oid vsb) (nx_block_size nx) = Ok (av_vol_omap_root_block vol)"
    "omap_lookup fuel rd (av_vol_omap_root_block vol) (nx_block_size nx) (ap_root_tree_oid vsb)
      = Ok (av_catalog_root_block vol)"
    "av_reader vol = rd" "av_block_size vol = nx_block_size nx" "vi_name (av_info vol) = ap_volume_name vsb"
    by (auto simp: open_volume_def Let_def outcome_iffs)
  then have "960 \<le> unat (av_block_size vol)"
    using parse_apfs_length read_block_length [OF assms(1)] by metis
  with steps show ?thesis
    by (auto simp: outcome_iffs)
qed

section \<open>The sample container opened\<close>

definition image_volume_on :: "reader \<Rightarrow> apfs_volume" where
  "image_volume_on rd =
     \<lparr>av_reader = rd, av_block_size = 4096, av_vol_omap_root_block = 6, av_catalog_root_block = 7,
      av_info = \<lparr>vi_name = [68, 233], vi_block_size = 4096, vi_num_files = 2, vi_num_directories = 1, vi_num_symlinks = 0\<rparr>\<rparr>"

definition image_volume :: apfs_volume where
  "image_volume = image_volume_on disk_image"

lemma disk_image_ok: "reader_ok disk_image"
  by (simp add: disk_image_def)

lemma omap_phys_tree: "u64_at (omap_phys_block tree) 48 = tree" "length (omap_phys_block tree) = 4096"
  using at_append(3) [of "encode_object_header sample_header @ le32 0 @ le32 0 @ le32 2 @ le32 2" 48 tree "zeros 4040"]
  by (simp_all add: omap_phys_block_def)

lemma image_nx_fields:
  "nx_block_size (image_nx_sealed xid) = 4096" "nx_xp_desc_base (image_nx_sealed xid) = 1"
  "nx_xp_desc_blocks (image_nx_sealed xid) = 1" "nx_omap_oid (image_nx_sealed xid) = 2"
  "nx_fs_oids (image_nx_sealed xid) = [1026]" "nx_xid (image_nx_sealed xid) = xid"
  "object_type (nx_header (image_nx_sealed xid)) = OBJECT_TYPE_NX_SUPERBLOCK"
  by (simp_all add: image_nx_sealed_def image_nx_def sample_nx_def nx_xid_def object_type_def
      OBJECT_TYPE_MASK_def OBJECT_TYPE_NX_SUPERBLOCK_def)

context container_reader
begin

lemma read_first_blocks:
  "seek_start rd 0 = Ok ()" "read_exact rd 0 4096 = Ok (image_nx_block 4)"
  "seek_start rd 4096 = Ok ()" "read_exact rd 4096 4096 = Ok (image_nx_block 9)"
  using image_block_simps(1,2) by (auto simp: read_block_def Let_def outcome_iffs)

lemma read_nxsb_image: "read_nxsb rd = Ok (image_nx_sealed 4)"
  by (simp add: read_nxsb_def read_first_blocks image_nx_block_verified parse_image_nx_block image_nx_fields)

lemma find_latest_image: "find_latest_nxsb rd (image_nx_sealed 4) = Ok (image_nx_sealed 9)"
proof -
  have "checkpoint_candidate (image_nx_block 9) = Ok (Some (image_nx_sealed 9))"
    by (simp add: checkpoint_candidate_Some image_nx_block_verified parse_image_nx_block image_nx_fields)
  then show ?thesis
    by (simp add: find_latest_nxsb_def image_nx_fields read_first_blocks Let_def)
qed

lemma open_image:
  assumes "0 < fuel"
  shows "open_volume fuel rd = Ok (image_volume_on rd)"
proof -
  have "read_omap_tree_root rd 2 4096 = Ok 3" "read_omap_tree_root rd 5 4096 = Ok 6"
    using read_omap_tree_root_at [OF image_block_simps(3)] read_omap_tree_root_at [OF image_block_simps(6)]
    by (simp_all add: omap_phys_tree)
  then show ?thesis
    using image_resolves [OF assms]
    by (simp add: open_volume_def read_nxsb_image find_latest_image image_nx_fields
        image_block_simps parse_image_apsb_block image_volume_on_def Let_def)
      (simp add: sample_apsb_def)
qed

end

theorem open_volume_correct_witness:
  "open_volume 2 disk_image = Ok image_volume \<and> 960 \<le> unat (av_block_size image_volume)"
proof -
  have "open_volume 2 disk_image = Ok image_volume"
    unfolding image_volume_def by (rule open_image) simp
  with open_volume_correct [OF disk_image_ok this] show ?thesis by blast
qed

end
