(* ===== verification/Volume_Correct.thy ===== *)
theory Volume_Correct
  imports Volume
begin

text \<open>
  What \<open>ApfsVolume\<close> promises: its metadata operations agree with each other, reading a file returns
  the bytes its extent map names, and \<open>walk\<close> returns exactly the entries that can be reached from
  the root through directories, each under a path that resolves back to it.
\<close>

definition volume_at :: "nat \<Rightarrow> apfs_volume \<Rightarrow> abs_tree \<Rightarrow> bool" where
  "volume_at fuel vol t \<longleftrightarrow>
     catalog_at fuel (av_reader vol) (av_catalog_root_block vol) (av_vol_omap_root_block vol) (av_block_size vol) t"

context container_reader
begin

lemma image_volume_on_at: "2 \<le> fuel \<Longrightarrow> volume_at fuel (image_volume_on rd) image_tree"
  using image_catalog by (simp add: volume_at_def image_volume_on_def)

end

lemma image_volume_at: "2 \<le> fuel \<Longrightarrow> volume_at fuel image_volume image_tree"
  unfolding image_volume_def by (rule image_volume_on_at)

lemma vol_resolve_at:
  "volume_at fuel vol t \<Longrightarrow> vol_resolve fuel vol path = walk_path t [] ROOT_DIR_RECORD (path_components path)"
  by (simp add: volume_at_def vol_resolve_def resolve_path_at)

lemma vol_entries_at: "volume_at fuel vol t \<Longrightarrow> vol_entries fuel vol oid = Ok (listing t oid)"
  by (simp add: volume_at_def vol_entries_def list_directory_at listing_def)

lemma vol_extents_at:
  "volume_at fuel vol t \<Longrightarrow> vol_extents fuel vol oid = parse_extents (records t oid J_TYPE_FILE_EXTENT)"
  by (simp add: volume_at_def vol_extents_def lookup_extents_at)

section \<open>Metadata\<close>

text \<open>
  \<open>exists\<close> agrees with \<open>stat\<close>: it answers yes exactly when the metadata can be had, no exactly
  when a name on the path is not found, and any other error is the error of \<open>stat\<close>.
\<close>

theorem exists_agrees_with_stat:
  "(path_exists fuel vol path = Ok True \<longleftrightarrow> is_ok (stat fuel vol path))
   \<and> (path_exists fuel vol path = Ok False \<longleftrightarrow> (\<exists>n. stat fuel vol path = Err (FileNotFound n)))
   \<and> (path_exists fuel vol path = Err e \<longleftrightarrow> stat fuel vol path = Err e \<and> (\<nexists>n. e = FileNotFound n))"
  by (auto simp: path_exists_def stat_def split: outcome.splits apfs_error.splits)

lemma stat_and_extents_parts:
  assumes "stat_and_extents fuel vol path = Ok (st, em, sz)"
  shows "stat fuel vol path = Ok st
    \<and> (if st_kind st = Directory then em = [] \<and> sz = 0
       else get_file_extents fuel vol path = Ok (em, sz) \<and> sz = st_size st)"
  using assms
  by (auto simp: stat_and_extents_def stat_def get_file_extents_def Let_def outcome_iffs stat_of_inode_def
      split: if_splits)

text \<open>
  The one-pass \<open>stat_and_extents\<close> that the driver caches agrees with the separate queries: the
  metadata are those of \<open>stat\<close>, and outside directories the map and the size are those of
  \<open>get_file_extents\<close>, the size being the one in the metadata; a directory has an empty map and size 0.
\<close>

theorem stat_and_extents_agrees:
  assumes "stat_and_extents fuel vol path = Ok (st, em, sz)"
  shows "stat fuel vol path = Ok st
    \<and> (if st_kind st = Directory then em = [] \<and> sz = 0
       else get_file_extents fuel vol path = Ok (em, sz) \<and> sz = st_size st)"
  using assms by (rule stat_and_extents_parts)

lemma image_path_components:
  "path_components (lit ''/docs/a'') = [lit ''docs'', lit ''a'']" "path_components (lit ''/hello'') = [lit ''hello'']"
  "path_components (lit ''docs'') = [lit ''docs'']"
  by (simp_all add: path_components_def lit_def SLASH_def)

lemma parse_encode_file_extent_bare: "parse_file_extent_val (encode_file_extent_val e) = Ok e"
  using parse_encode_file_extent [of e "[]"] by simp

context container_reader
begin

lemma image_resolve_on:
  assumes "2 \<le> fuel"
  shows "vol_resolve fuel (image_volume_on rd) (lit ''/docs/a'') = Ok (18, a_inode)"
    "vol_resolve fuel (image_volume_on rd) (lit ''/hello'') = Ok (17, hello_inode)"
    "vol_resolve fuel (image_volume_on rd) (lit ''docs'') = Ok (16, docs_inode)"
  by (simp_all add: vol_resolve_at [OF image_volume_on_at [OF assms]] image_path_components ROOT_DIR_RECORD_def
      image_children image_inodes drec_file_type_def DT_DIR_def DT_REG_def)

lemma image_extents_on:
  assumes "2 \<le> fuel"
  shows "vol_extents fuel (image_volume_on rd) 17 = Ok [sample_extent 10 4096]"
    "vol_extents fuel (image_volume_on rd) 18 = Ok [sample_extent 11 4096, sample_extent 10 4096]"
  by (simp_all add: vol_extents_at [OF image_volume_on_at [OF assms]] image_records extent_record_def
      parse_encode_file_extent_bare sample_extent_def)

end

lemmas image_resolve = image_resolve_on [folded image_volume_def]
lemmas image_extents = image_extents_on [folded image_volume_def]

lemma image_inode_facts:
  "inode_kind docs_inode = INODE_DIR_TYPE" "inode_kind hello_inode \<noteq> INODE_DIR_TYPE" "inode_kind a_inode \<noteq> INODE_DIR_TYPE"
  "iv_private_id hello_inode = 17" "iv_private_id a_inode = 18" "inode_size hello_inode = 5" "inode_size a_inode = 9000"
  "inode_kind hello_inode \<noteq> INODE_SYMLINK_TYPE"
  by (simp_all add: inode_kind_def docs_inode_def hello_inode_def a_inode_def sample_inode_def INODE_DIR_TYPE_def
      inode_size_def INODE_SYMLINK_TYPE_def)

theorem stat_and_extents_agrees_witness:
  "\<exists>st. stat 2 image_volume (lit ''/hello'') = Ok st \<and> st_kind st = File \<and> st_size st = 5
     \<and> get_file_extents 2 image_volume (lit ''/hello'') = Ok ([(0, 40960, 4096)], 5)"
proof -
  have map: "build_extent_map 4096 [sample_extent 10 4096] 0 = [(0, 40960, 4096)]"
    by (simp add: sample_extent_def extent_length_def Let_def)
  obtain st where st: "stat_and_extents 2 image_volume (lit ''/hello'') = Ok (st, [(0, 40960, 4096)], 5)"
    and kind: "st_kind st = File"
    using image_resolve(2) [of 2] image_extents(1) [of 2] map
    by (simp add: stat_and_extents_def Let_def image_inode_facts stat_of_inode_def kind_of_inode_def image_volume_def image_volume_on_def)
  from stat_and_extents_agrees [OF st] kind show ?thesis by auto
qed

section \<open>Reading a file\<close>

lemma read_file_content:
  assumes "reads_upto (unat (av_block_size vol)) (av_reader vol) img" and "0 < av_block_size vol"
    and "get_file_extents fuel vol path = Ok (em, sz)" and "in_image img em" and "0 < fuel"
    and "\<forall>(l, p, n) \<in> set em. unat n \<le> unat (av_block_size vol) * (fuel - 1)"
  shows "read_file fuel vol path = Ok (take (unat sz) (content img em))"
proof -
  let ?bs = "ucast (av_block_size vol) :: u64"
  from assms(3) obtain oid inode es where resolve: "vol_resolve fuel vol path = Ok (oid, inode)"
    and es: "vol_extents fuel vol (iv_private_id inode) = Ok es"
    and em: "em = build_extent_map ?bs es 0" and sz: "sz = inode_size inode"
    by (auto simp: get_file_extents_def Let_def outcome_iffs)
  have in_map: "\<exists>l p. (l, p, extent_length e) \<in> set (build_extent_map bs es s)"
    if "e \<in> set es" "extent_length e \<noteq> 0" for e and bs s :: u64 and es
    using that by (induction es arbitrary: s) (auto simp: Let_def, metis+)
  have "unat (extent_length e) \<le> unat ?bs * (fuel - 1)" if "e \<in> set es" for e
    using in_map [OF that] assms(6) by (cases "extent_length e = 0") (fastforce simp: em)+
  moreover obtain f where f: "fuel = Suc f"
    using assms(5) by (cases fuel) auto
  moreover have "0 < ?bs"
    using assms(2) by (simp add: word_less_nat_alt)
  ultimately have "read_file_data fuel (av_reader vol) vec_write_all (av_block_size vol) es sz [] =
      Ok (take (unat sz) (content img em), of_nat (min (unat sz) (length (content img em))))"
    using copy_extents_content [of ?bs "av_reader vol" img es f 0 sz "[]"] assms(1,4)
    by (simp add: read_file_data_def em file_bytes_def)
  then show ?thesis
    by (simp add: read_file_def read_file_to_def resolve es sz)
qed

text \<open>
  \<open>read_file\<close> returns exactly the bytes that the extent map of the same path names in the image,
  cut at the logical size: the map that the driver caches and the file that a copy reads are the
  same file.
\<close>

theorem read_file_matches_extents:
  assumes "reads_upto (unat (av_block_size vol)) (av_reader vol) img" and "0 < av_block_size vol"
    and "get_file_extents fuel vol path = Ok (em, sz)" and "in_image img em" and "0 < fuel"
    and "\<forall>(l, p, n) \<in> set em. unat n \<le> unat (av_block_size vol) * (fuel - 1)"
  shows "read_file fuel vol path = Ok (take (unat sz) (content img em))"
  using assms by (rule read_file_content)

lemma image_hello_block: "take 4096 (drop 40960 (concat image_blocks)) = [104, 101, 108, 108, 111] @ zeros 4091"
  using take_drop_concat_blocks [OF length_image_block, of image_blocks 10] by (simp add: image_blocks_def)

theorem read_file_matches_extents_witness:
  "read_file 2 image_volume (lit ''/hello'') = Ok [104, 101, 108, 108, 111]"
proof -
  have map: "build_extent_map 4096 [sample_extent 10 4096] 0 = [(0, 40960, 4096)]"
    by (simp add: sample_extent_def extent_length_def Let_def)
  have "get_file_extents 2 image_volume (lit ''/hello'') = Ok ([(0, 40960, 4096)], 5)"
    using image_resolve(2) [of 2] image_extents(1) [of 2] map
    by (simp add: get_file_extents_def Let_def image_inode_facts image_volume_def image_volume_on_def)
  moreover have "reads_upto (unat (av_block_size image_volume)) (av_reader image_volume) (concat image_blocks)"
    by (simp add: image_volume_def image_volume_on_def disk_image_def)
  ultimately have "read_file 2 image_volume (lit ''/hello'') =
      Ok (take (unat (5 :: u64)) (content (concat image_blocks) [(0, 40960, 4096)]))"
    by (intro read_file_matches_extents) (simp_all add: image_volume_def image_volume_on_def in_image_def length_image del: length_concat)
  then show ?thesis
    by (simp add: image_hello_block)
qed

section \<open>Listing\<close>

text \<open>
  Listing the root needs no inode, and on a well-formed volume every spelling of the root path
  lists the same directory; any other path lists the directory it resolves to, and fails with
  \<open>NotADirectory\<close> when that is a file.
\<close>

theorem vol_list_directory_correct:
  assumes "volume_at fuel vol t"
  shows "vol_list_directory fuel vol path =
    (if is_root_path path then Ok (listing t ROOT_DIR_RECORD)
     else and_then (walk_path t [] ROOT_DIR_RECORD (path_components path)) (\<lambda>(oid, inode).
       if inode_kind inode = INODE_DIR_TYPE then Ok (listing t oid) else Err (NotADirectory path)))"
  by (cases "walk_path t [] ROOT_DIR_RECORD (path_components path)")
    (auto simp: vol_list_directory_def vol_resolve_at [OF assms] vol_entries_at [OF assms])

theorem vol_list_directory_correct_witness:
  "vol_list_directory 2 image_volume (lit ''/'') = Ok (listing image_tree 2)
   \<and> vol_list_directory 2 image_volume (lit ''docs'') = Ok (listing image_tree 16)
   \<and> vol_list_directory 2 image_volume (lit ''/hello'') = Err (NotADirectory (lit ''/hello''))"
proof -
  have "is_root_path (lit ''/'')" "\<not> is_root_path (lit ''docs'')" "\<not> is_root_path (lit ''/hello'')"
    by (simp_all add: is_root_path_def lit_def SLASH_def)
  then show ?thesis
    using vol_list_directory_correct [OF image_volume_at, of 2] image_resolve [of 2]
    by (simp add: vol_resolve_at [OF image_volume_at] image_inode_facts ROOT_DIR_RECORD_def)
qed

section \<open>Walking the tree\<close>

text \<open>The object a chain of directory names leads to; every name on it must be a directory.\<close>

fun dir_at :: "abs_tree \<Rightarrow> u64 \<Rightarrow> rstr list \<Rightarrow> u64 option" where
  "dir_at t oid [] = Some oid"
| "dir_at t oid (n # ns) =
     (case child_of t oid n of
        Ok d \<Rightarrow> if drec_file_type d = DT_DIR then dir_at t (dr_file_id d) ns else None
      | _ \<Rightarrow> None)"

text \<open>Names are distinct within a directory, and each is a single path component.\<close>

definition names_ok :: "abs_tree \<Rightarrow> bool" where
  "names_ok t \<longleftrightarrow> (\<forall>oid. distinct (names_of (records t oid J_TYPE_DIR_REC)) \<and>
     (\<forall>n \<in> set (names_of (records t oid J_TYPE_DIR_REC)). n \<noteq> [] \<and> SLASH \<notin> set n))"

lemma kind_Directory [simp]: "kind_of_drec d = Directory \<longleftrightarrow> drec_file_type d = DT_DIR"
  by (auto simp: kind_of_drec_def)

lemma dir_at_snoc:
  assumes "dir_at t oid ns = Some parent" and "child_of t parent n = Ok d" and "drec_file_type d = DT_DIR"
  shows "dir_at t oid (ns @ [n]) = Some (dr_file_id d)"
  using assms by (induction t oid ns rule: dir_at.induct) (auto split: outcome.splits if_splits)

lemma walk_path_dir:
  assumes "dir_at t oid ns = Some parent" and "ms \<noteq> []"
  shows "walk_path t walked oid (ns @ ms) = walk_path t (walked @ ns) parent ms"
  using assms
  by (induction t oid ns arbitrary: walked rule: dir_at.induct) (auto split: outcome.splits if_splits)

lemma child_path_components:
  "n \<noteq> [] \<Longrightarrow> SLASH \<notin> set n \<Longrightarrow> path_components (child_path path n) = path_components path @ [n]"
  by (auto simp: child_path_def path_components_sep)

lemma walk_entries_in:
  assumes "walk_entries recurse path es = Ok ws"
  shows "w \<in> set ws \<longleftrightarrow> (\<exists>e \<in> set es. w = \<lparr>we_path = child_path path (de_name e), we_entry = e\<rparr> \<or>
    de_kind e = Directory \<and> (\<exists>below. recurse (de_oid e) (child_path path (de_name e)) = Ok below \<and> w \<in> set below))"
  using assms
proof (induction es arbitrary: ws)
  case (Cons e es)
  then obtain below rest where below: "(if de_kind e = Directory then recurse (de_oid e) (child_path path (de_name e))
      else Ok []) = Ok below" and rest: "walk_entries recurse path es = Ok rest"
    and ws: "ws = \<lparr>we_path = child_path path (de_name e), we_entry = e\<rparr> # below @ rest"
    by (auto simp: Let_def outcome_iffs)
  then show ?case
    using Cons.IH [OF rest] by (auto split: if_splits)
qed simp

lemma walk_entries_sub:
  assumes "walk_entries recurse path es = Ok ws" and "e \<in> set es" and "de_kind e = Directory"
  shows "\<exists>below. recurse (de_oid e) (child_path path (de_name e)) = Ok below"
  using assms by (induction es arbitrary: ws) (auto simp: Let_def outcome_iffs)

text \<open>A listed entry with its name, object and kind is the record a path finds.\<close>

lemma listed_ok:
  assumes "names_ok t" and "e \<in> set (listing t parent)"
  shows "de_name e \<noteq> []" and "SLASH \<notin> set (de_name e)"
    and "\<exists>d. child_of t parent (de_name e) = Ok d \<and> dr_file_id d = de_oid e \<and> kind_of_drec d = de_kind e"
proof -
  have "distinct (names_of (records t parent J_TYPE_DIR_REC))"
    using assms(1) by (simp add: names_ok_def)
  note listed = listed_child [OF assms(2) this]
  show "de_name e \<noteq> []" "SLASH \<notin> set (de_name e)"
    using listed(1) assms(1) by (auto simp: names_ok_def)
  show "\<exists>d. child_of t parent (de_name e) = Ok d \<and> dr_file_id d = de_oid e \<and> kind_of_drec d = de_kind e"
    by (rule listed(2))
qed

lemma find_drec_listed:
  assumes "find_drec n es = Ok d"
  shows "\<exists>e. e \<in> set (List.map_filter (dir_entry_of t) es) \<and> de_name e = n \<and> de_oid e = dr_file_id d
    \<and> de_kind e = kind_of_drec d"
  using assms
proof (induction n es rule: find_drec.induct)
  case (2 name key val es)
  show ?case
  proof (cases "decode_drec_name key = Ok name")
    case True
    with 2 have "parse_drec_val val = Ok d"
      by simp
    with True have "\<exists>e. dir_entry_of t (key, val) = Some e \<and> de_name e = name \<and> de_oid e = dr_file_id d
        \<and> de_kind e = kind_of_drec d"
      by (cases "inode_of t (dr_file_id d)") (simp_all add: dir_entry_of_def)
    then show ?thesis
      by (auto simp: map_filter_simps)
  next
    case False
    then have "attempt (decode_drec_name key) \<noteq> (Ok (Some name) :: (apfs_error, rstr option) outcome)"
      by (auto simp: outcome_iffs)
    with 2 obtain e where "e \<in> set (List.map_filter (dir_entry_of t) es)" "de_name e = name"
      "de_oid e = dr_file_id d" "de_kind e = kind_of_drec d"
      by (auto simp: outcome_iffs split: if_splits)
    then show ?thesis
      by (auto simp: map_filter_simps split: option.split)
  qed
qed simp

text \<open>The entries reachable from a directory: the names to walk and the entry found there.\<close>

definition reachable_entries :: "abs_tree \<Rightarrow> u64 \<Rightarrow> (rstr list \<times> dir_entry) set" where
  "reachable_entries t oid =
     {(ns @ [de_name e], e) | ns parent e. dir_at t oid ns = Some parent \<and> e \<in> set (listing t parent)}"

lemma reachable_Nil [simp]: "([], e) \<notin> reachable_entries t oid"
  by (simp add: reachable_entries_def)

lemma reachable_Cons:
  "(n # ns, e) \<in> reachable_entries t oid \<longleftrightarrow>
     ns = [] \<and> n = de_name e \<and> e \<in> set (listing t oid) \<or>
     (\<exists>d. child_of t oid n = Ok d \<and> drec_file_type d = DT_DIR \<and> (ns, e) \<in> reachable_entries t (dr_file_id d))"
  (is "?L \<longleftrightarrow> ?A \<or> ?B")
proof
  assume ?L
  then obtain ms parent where ms: "n # ns = ms @ [de_name e]" "dir_at t oid ms = Some parent" "e \<in> set (listing t parent)"
    by (auto simp: reachable_entries_def)
  then show "?A \<or> ?B"
    by (cases ms) (auto simp: reachable_entries_def split: outcome.splits if_splits)
next
  assume "?A \<or> ?B"
  then show ?L
  proof
    assume ?A
    then show ?L
      by (auto simp: reachable_entries_def intro: exI [of _ "[]"])
  next
    assume ?B
    then obtain d ms parent where "child_of t oid n = Ok d" "drec_file_type d = DT_DIR" "ns = ms @ [de_name e]"
      "dir_at t (dr_file_id d) ms = Some parent" "e \<in> set (listing t parent)"
      by (auto simp: reachable_entries_def)
    then show ?L
      unfolding reachable_entries_def by (auto intro!: exI [of _ "n # ms"])
  qed
qed

lemma walk_recursive_reachable:
  assumes "volume_at fuel vol t" and "names_ok t"
  shows "walk_recursive depth fuel vol oid path = Ok ws \<Longrightarrow>
    (\<lambda>w. (path_components (we_path w), we_entry w)) ` set ws =
    (\<lambda>(ns, e). (path_components path @ ns, e)) ` reachable_entries t oid"
proof (induction depth arbitrary: oid path ws)
  case (Suc depth)
  let ?view = "\<lambda>w. (path_components (we_path w), we_entry w)"
  let ?recurse = "walk_recursive depth fuel vol"
  from Suc.prems have ws: "walk_entries ?recurse path (listing t oid) = Ok ws"
    by (simp add: vol_entries_at [OF assms(1)])
  note in_ws = walk_entries_in [OF ws]
  have comps: "path_components (child_path path (de_name e)) = path_components path @ [de_name e]"
    if "e \<in> set (listing t oid)" for e
    using listed_ok(1,2) [OF assms(2) that] by (simp add: child_path_components)
  have view: "?view ` set below = (\<lambda>(ns, e'). (path_components path @ de_name e # ns, e')) ` reachable_entries t (de_oid e)"
    if "e \<in> set (listing t oid)" "?recurse (de_oid e) (child_path path (de_name e)) = Ok below" for e below
    using Suc.IH [OF that(2)] comps [OF that(1)] by simp
  show ?case
  proof (rule set_eqI, clarify)
    fix names e
    show "(names, e) \<in> ?view ` set ws \<longleftrightarrow>
        (names, e) \<in> (\<lambda>(ns, e). (path_components path @ ns, e)) ` reachable_entries t oid"
    proof
      assume "(names, e) \<in> ?view ` set ws"
      then obtain w where w: "w \<in> set ws" "names = path_components (we_path w)" "e = we_entry w"
        by auto
      then obtain e' where e': "e' \<in> set (listing t oid)"
        and alt: "w = \<lparr>we_path = child_path path (de_name e'), we_entry = e'\<rparr> \<or> de_kind e' = Directory \<and>
          (\<exists>below. ?recurse (de_oid e') (child_path path (de_name e')) = Ok below \<and> w \<in> set below)"
        using in_ws by blast
      from alt show "(names, e) \<in> (\<lambda>(ns, e). (path_components path @ ns, e)) ` reachable_entries t oid"
      proof (elim disjE exE conjE)
        assume "w = \<lparr>we_path = child_path path (de_name e'), we_entry = e'\<rparr>"
        then show ?thesis
          using w e' comps by (force simp: reachable_Cons)
      next
        fix below
        assume dir: "de_kind e' = Directory" and below: "?recurse (de_oid e') (child_path path (de_name e')) = Ok below"
          and "w \<in> set below"
        then have "(names, e) \<in> ?view ` set below"
          unfolding w(2,3) by blast
        then obtain ns where "(ns, e) \<in> reachable_entries t (de_oid e')" "names = path_components path @ de_name e' # ns"
          unfolding view [OF e' below] by auto
        moreover obtain d where "child_of t oid (de_name e') = Ok d" "dr_file_id d = de_oid e'" "drec_file_type d = DT_DIR"
          using listed_ok(3) [OF assms(2) e'] dir by (metis kind_Directory)
        ultimately show ?thesis
          by (force simp: reachable_Cons)
      qed
    next
      assume "(names, e) \<in> (\<lambda>(ns, e). (path_components path @ ns, e)) ` reachable_entries t oid"
      then obtain ns where ns: "names = path_components path @ ns" "(ns, e) \<in> reachable_entries t oid"
        by auto
      then obtain n ns' where cons: "ns = n # ns'"
        by (cases ns) auto
      from ns(2) [unfolded cons reachable_Cons] show "(names, e) \<in> ?view ` set ws"
      proof (elim disjE exE conjE)
        assume "ns' = []" "n = de_name e" and e: "e \<in> set (listing t oid)"
        then show ?thesis
          using ns(1) cons comps [OF e]
          by (intro image_eqI [of _ _ "\<lparr>we_path = child_path path (de_name e), we_entry = e\<rparr>"])
            (simp, use in_ws e in blast)
      next
        fix d
        assume d: "child_of t oid n = Ok d" "drec_file_type d = DT_DIR" "(ns', e) \<in> reachable_entries t (dr_file_id d)"
        then obtain e' where e': "e' \<in> set (listing t oid)" "de_name e' = n" "de_oid e' = dr_file_id d" "de_kind e' = Directory"
          using find_drec_listed [of n "records t oid J_TYPE_DIR_REC" d t] by (auto simp: child_of_def listing_def)
        then obtain below where below: "?recurse (de_oid e') (child_path path (de_name e')) = Ok below"
          using walk_entries_sub [OF ws] by blast
        then have "(names, e) \<in> ?view ` set below"
          using view [OF e'(1) below] d(3) e' ns(1) cons by force
        then show ?thesis
          using in_ws e' below by blast
      qed
    qed
  qed
qed simp

text \<open>
  \<open>walk\<close> is sound and complete: the entries it returns, each with the names on its path, are
  exactly the entries of the directories that can be reached from the root through directories.
\<close>

theorem walk_returns_reachable:
  assumes "volume_at fuel vol t" and "names_ok t" and "walk depth fuel vol = Ok ws"
  shows "(\<lambda>w. (path_components (we_path w), we_entry w)) ` set ws = reachable_entries t ROOT_DIR_RECORD"
  using walk_recursive_reachable [OF assms(1,2) assms(3) [unfolded walk_def]] by simp

text \<open>
  Every path that \<open>walk\<close> reports resolves to the object of its entry, so that it can be handed
  back to \<open>stat\<close> and \<open>read_file\<close>.
\<close>

theorem walked_path_resolves:
  assumes "volume_at fuel vol t" and "names_ok t" and "walk depth fuel vol = Ok ws" and "w \<in> set ws"
  shows "vol_resolve fuel vol (we_path w) =
    and_then (inode_of t (de_oid (we_entry w))) (\<lambda>inode. Ok (de_oid (we_entry w), inode))"
proof -
  have "(path_components (we_path w), we_entry w) \<in> reachable_entries t ROOT_DIR_RECORD"
    using walk_recursive_reachable [OF assms(1,2) assms(3) [unfolded walk_def]] assms(4) by auto
  then obtain ns parent where names: "path_components (we_path w) = ns @ [de_name (we_entry w)]"
    and parent: "dir_at t ROOT_DIR_RECORD ns = Some parent" and e: "we_entry w \<in> set (listing t parent)"
    by (auto simp: reachable_entries_def)
  obtain d where "child_of t parent (de_name (we_entry w)) = Ok d" "dr_file_id d = de_oid (we_entry w)"
    using listed_ok(3) [OF assms(2) e] by blast
  then show ?thesis
    using walk_path_dir [OF parent, of "[de_name (we_entry w)]" "[]"] by (simp add: vol_resolve_at [OF assms(1)] names)
qed

text \<open>The sample volume walked.\<close>

lemma records_other:
  assumes "oid \<notin> {2, 16}"
  shows "records image_tree oid J_TYPE_DIR_REC = []"
  using assms by (simp add: records_def hits_def entries_image_tree leaf_a_def leaf_b_def case_prod_unfold
      J_TYPE_DIR_REC_def)

lemma image_names_ok: "names_ok image_tree"
proof -
  have "names_of (records image_tree 2 J_TYPE_DIR_REC) = [lit ''docs'', lit ''hello'']"
    "names_of (records image_tree 16 J_TYPE_DIR_REC) = [lit ''a'']"
    by (simp_all add: image_records names_of_def map_filter_simps dir_record_def decode_drec_records)
  moreover have "names_of (records image_tree oid J_TYPE_DIR_REC) = []" if "oid \<notin> {2, 16}" for oid
    using records_other [OF that] by (simp add: names_of_def map_filter_simps)
  ultimately have "names_of (records image_tree oid J_TYPE_DIR_REC) \<in> {[lit ''docs'', lit ''hello''], [lit ''a''], []}" for oid
    by (cases "oid \<in> {2, 16}") auto
  moreover have "distinct ns \<and> (\<forall>n \<in> set ns. n \<noteq> [] \<and> SLASH \<notin> set n)"
    if "ns \<in> {[lit ''docs'', lit ''hello''], [lit ''a''], []}" for ns
    using that by (auto simp: lit_def SLASH_def)
  ultimately show ?thesis
    unfolding names_ok_def by blast
qed

definition docs_entry :: dir_entry where
  "docs_entry = \<lparr>de_name = lit ''docs'', de_oid = 16, de_kind = Directory, de_size = 0, de_create_time = 100, de_modify_time = 200\<rparr>"

definition hello_entry :: dir_entry where
  "hello_entry = \<lparr>de_name = lit ''hello'', de_oid = 17, de_kind = File, de_size = 5, de_create_time = 100, de_modify_time = 200\<rparr>"

definition a_entry :: dir_entry where
  "a_entry = \<lparr>de_name = lit ''a'', de_oid = 18, de_kind = File, de_size = 9000, de_create_time = 100, de_modify_time = 200\<rparr>"

lemma image_listings: "listing image_tree 2 = [docs_entry, hello_entry]" "listing image_tree 16 = [a_entry]"
  by (simp_all add: listing_def image_records map_filter_simps dir_entry_of_def dir_record_def decode_drec_records
      parse_encode_drec_bare image_inodes kind_of_drec_def drec_file_type_def DT_DIR_def DT_REG_def DT_LNK_def
      inode_size_def docs_inode_def hello_inode_def a_inode_def sample_inode_def docs_entry_def hello_entry_def a_entry_def)

definition image_walk :: "walk_entry list" where
  "image_walk =
     [\<lparr>we_path = lit ''/docs'', we_entry = docs_entry\<rparr>, \<lparr>we_path = lit ''/docs/a'', we_entry = a_entry\<rparr>,
      \<lparr>we_path = lit ''/hello'', we_entry = hello_entry\<rparr>]"

lemma walk_image: "walk 2 2 image_volume = Ok image_walk"
  by (simp add: walk_def numeral_2_eq_2 vol_entries_at [OF image_volume_at [of 2], unfolded numeral_2_eq_2]
      ROOT_DIR_RECORD_def image_listings Let_def image_walk_def)
    (simp add: vol_entries_at [OF image_volume_at [of 2], unfolded numeral_2_eq_2] image_listings
      docs_entry_def hello_entry_def a_entry_def child_path_def lit_def SLASH_def)

theorem walk_returns_reachable_witness:
  "([lit ''docs'', lit ''a''], a_entry) \<in> reachable_entries image_tree ROOT_DIR_RECORD"
proof -
  have "(\<lambda>w. (path_components (we_path w), we_entry w)) ` set image_walk = reachable_entries image_tree ROOT_DIR_RECORD"
    by (rule walk_returns_reachable [OF image_volume_at image_names_ok walk_image]) simp
  then show ?thesis
    by (auto simp: image_walk_def image_path_components)
qed

theorem walked_path_resolves_witness:
  "vol_resolve 2 image_volume (lit ''/docs/a'') = Ok (18, a_inode)"
  using walked_path_resolves [OF image_volume_at image_names_ok walk_image, of "\<lparr>we_path = lit ''/docs/a'', we_entry = a_entry\<rparr>"]
  by (simp add: image_walk_def a_entry_def image_inodes)

end
