(* ===== verification/Disk.thy ===== *)
theory Disk
  imports Host_Base Volume_Correct
begin

text \<open>
  \<open>src/disk.rs\<close>: the raw disk reader. Windows is a parameter: a record of the five calls that the
  file makes, on a type \<open>'h\<close> of handle states of which the model knows nothing. What the program
  relies on is \<open>raw_device\<close>: the documented behaviour of \<open>SetFilePointerEx\<close> and \<open>ReadFile\<close> on a
  handle of a raw device, where reads must be aligned to sectors.
\<close>

section \<open>The Windows calls\<close>

datatype move_method = FILE_BEGIN | FILE_CURRENT | FILE_END

record 'h win32 =
  CreateFileA :: "rstr \<Rightarrow> (windows_error, 'h) outcome"
  handle_is_invalid :: "'h \<Rightarrow> bool"
  last_os_error :: "io_error"
  SetFilePointerEx :: "i64 \<Rightarrow> move_method \<Rightarrow> ('h, windows_error, i64) op"
  ReadFile :: "nat \<Rightarrow> ('h, windows_error, bytes) op"
  GetDriveGeometryEx :: "'h \<Rightarrow> (windows_error, u32 \<times> i64) outcome"

text \<open>
  \<open>ReadFile n\<close> returns the bytes it put at the start of a buffer of \<open>n\<close>; \<open>GetDriveGeometryEx\<close> is
  \<open>DeviceIoControl\<close> with \<open>IOCTL_DISK_GET_DRIVE_GEOMETRY_EX\<close>: the number of bytes returned and the
  field \<open>disk_size\<close>.
\<close>

section \<open>DiskReader\<close>

record 'h disk_reader =
  dr_handle :: 'h
  dr_size :: u64
  dr_offset :: u64
  dr_device_path :: rstr

definition SECTOR_SIZE :: nat where "SECTOR_SIZE = 512"
definition APFS_BLOCK_SIZE :: nat where "APFS_BLOCK_SIZE = 4096"

definition get_disk_size :: "'h win32 \<Rightarrow> 'h \<Rightarrow> (arfw_error, u64) outcome" where
  "get_disk_size w h =
     and_then (map_err (\<lambda>_. Error_Io (last_os_error w)) (GetDriveGeometryEx w h)) (\<lambda>(bytes_returned, disk_size).
       if bytes_returned = 0 then Err (Error_Io (last_os_error w))
       else if sint disk_size < 0
       then Err (Error_Io (Io_Error KindOther (lit ''IOCTL_DISK_GET_DRIVE_GEOMETRY_EX returned negative disk size'')))
       else Ok disk_size)"

text \<open>The C string a Rust string is read as: up to its first NUL.\<close>

definition c_string :: "rstr \<Rightarrow> rstr" where
  "c_string s = takeWhile (\<lambda>c. c \<noteq> 0) (s @ [0])"

definition open_with_offset :: "'h win32 \<Rightarrow> rstr \<Rightarrow> u64 \<Rightarrow> (arfw_error, 'h disk_reader) outcome" where
  "open_with_offset w path offset =
     and_then (map_err Error_Windows (CreateFileA w (c_string path))) (\<lambda>handle.
       if handle_is_invalid w handle then Err (Error_Io (last_os_error w))
       else and_then (attempt (get_disk_size w handle)) (\<lambda>sz.
         Ok \<lparr>dr_handle = handle, dr_size = (case sz of Some n \<Rightarrow> n | None \<Rightarrow> 0),
             dr_offset = offset, dr_device_path = path\<rparr>))"

definition disk_open :: "'h win32 \<Rightarrow> rstr \<Rightarrow> (arfw_error, 'h disk_reader) outcome" where
  "disk_open w path = open_with_offset w path 0"

definition reopen_raw :: "'h win32 \<Rightarrow> 'h disk_reader \<Rightarrow> (arfw_error, 'h disk_reader) outcome" where
  "reopen_raw w d = open_with_offset w (dr_device_path d) 0"

definition reopen :: "'h win32 \<Rightarrow> 'h disk_reader \<Rightarrow> (arfw_error, 'h disk_reader) outcome" where
  "reopen w d = open_with_offset w (dr_device_path d) (dr_offset d)"

text \<open>A Windows call on the reader's handle.\<close>

definition sys :: "('h, windows_error, 'a) op \<Rightarrow> ('h disk_reader, io_error, 'a) op" where
  "sys f d = (case f (dr_handle d) of (r, h) \<Rightarrow> (map_err io_other r, d\<lparr>dr_handle := h\<rparr>))"

text \<open>
  The aligned read that \<open>read_at_absolute\<close> and \<open>read\<close> share: seek to the sector that holds the
  position, read whole sectors, and cut the requested bytes out of them. A buffer is at most
  \<open>isize::MAX\<close> long, so the lengths do not wrap.
\<close>

definition sector_read :: "'h win32 \<Rightarrow> u64 \<Rightarrow> nat \<Rightarrow> ('h disk_reader, io_error, bytes) op" where
  "sector_read w pos n =
     (let sector_offset = unat pos mod SECTOR_SIZE;
          aligned_pos = pos - word_of_nat sector_offset;
          total_needed = sector_offset + n;
          aligned_len = (total_needed + SECTOR_SIZE - 1) div SECTOR_SIZE * SECTOR_SIZE in
      bind_op (sys (SetFilePointerEx w aligned_pos FILE_BEGIN)) (\<lambda>_.
      bind_op (sys (ReadFile w aligned_len)) (\<lambda>tmp.
        let available = length tmp - sector_offset; to_copy = min available n in
        return_op (take to_copy (drop sector_offset tmp)))))"

definition read_at_absolute :: "'h win32 \<Rightarrow> u64 \<Rightarrow> nat \<Rightarrow> ('h disk_reader, arfw_error, bytes) op" where
  "read_at_absolute w absolute_offset n =
     (if n = 0 then return_op [] else map_err_op Error_Io (sector_read w absolute_offset n))"

definition read_at :: "'h win32 \<Rightarrow> u64 \<Rightarrow> nat \<Rightarrow> ('h disk_reader, arfw_error, bytes) op" where
  "read_at w physical_offset n d = read_at_absolute w (dr_offset d + physical_offset) n d"

text \<open>\<open>impl Read\<close>: at the file pointer, which ends after the bytes returned.\<close>

definition disk_read :: "'h win32 \<Rightarrow> nat \<Rightarrow> ('h disk_reader, io_error, bytes) op" where
  "disk_read w n =
     (if n = 0 then return_op []
      else
        bind_op (sys (SetFilePointerEx w 0 FILE_CURRENT)) (\<lambda>pos.
        bind_op (sector_read w pos n) (\<lambda>bs.
        bind_op (sys (SetFilePointerEx w (pos + word_of_nat (length bs)) FILE_BEGIN)) (\<lambda>_.
          return_op bs))))"

definition saturating_sub :: "u64 \<Rightarrow> u64 \<Rightarrow> u64" where
  "saturating_sub a b = (if b \<le> a then a - b else 0)"

definition disk_seek :: "'h win32 \<Rightarrow> seek_from \<Rightarrow> ('h disk_reader, io_error, u64) op" where
  "disk_seek w pos d =
     (let (distance, method) =
        (case pos of
           Start n \<Rightarrow> (dr_offset d + n, FILE_BEGIN)
         | Current n \<Rightarrow> (n, FILE_CURRENT)
         | End n \<Rightarrow> (n, FILE_END)) in
      bind_op (sys (SetFilePointerEx w distance method)) (\<lambda>new_pos.
        return_op (saturating_sub new_pos (dr_offset d))) d)"

text \<open>
  The standard library's \<open>read_exact\<close> over \<open>read\<close>: it repeats until the buffer is full or a read
  returns nothing. Its retry on \<open>Interrupted\<close> has no case here: every error of \<open>disk_read\<close> is of
  kind \<open>Other\<close>.
\<close>

function read_exact_by :: "(nat \<Rightarrow> ('s, io_error, bytes) op) \<Rightarrow> nat \<Rightarrow> ('s, io_error, bytes) op" where
  "read_exact_by rd n s =
     (if n = 0 then (Ok [], s)
      else case rd n s of
        (Ok bs, s') \<Rightarrow>
          if bs = [] then (Err unexpected_eof, s')
          else if length bs > n then (Panic, s')
          else (case read_exact_by rd (n - length bs) s' of
              (Ok rest, s'') \<Rightarrow> (Ok (bs @ rest), s'')
            | r \<Rightarrow> r)
      | (Err e, s') \<Rightarrow> (Err e, s')
      | (Panic, s') \<Rightarrow> (Panic, s')
      | (NoFuel, s') \<Rightarrow> (NoFuel, s'))"
  by pat_completeness auto
termination
  by (relation "measure (\<lambda>(rd, n, s). n)") auto

declare read_exact_by.simps [simp del]

definition disk_read_exact :: "'h win32 \<Rightarrow> nat \<Rightarrow> ('h disk_reader, io_error, bytes) op" where
  "disk_read_exact w = read_exact_by (disk_read w)"

definition disk_read_block :: "'h win32 \<Rightarrow> u64 \<Rightarrow> nat \<Rightarrow> ('h disk_reader, arfw_error, bytes) op" where
  "disk_read_block w block_num n =
     map_err_op Error_Io (bind_op (disk_seek w (Start (block_num * word_of_nat APFS_BLOCK_SIZE))) (\<lambda>_. disk_read w n))"

section \<open>Container and volume sizes\<close>

definition read_4096_at :: "'h win32 \<Rightarrow> u64 \<Rightarrow> ('h disk_reader, arfw_error, bytes) op" where
  "read_4096_at w offset =
     map_err_op Error_Io (bind_op (disk_seek w (Start offset)) (\<lambda>_. disk_read_exact w 4096))"

definition read_apfs_container_size :: "'h win32 \<Rightarrow> ('h disk_reader, arfw_error, u64) op" where
  "read_apfs_container_size w =
     bind_op (read_4096_at w 0) (\<lambda>buffer.
       let block_size = ucast (u32_at buffer 36) :: u64; block_count = u64_at buffer 40 in
       return_op (block_count * block_size))"

function search_from :: "bytes \<Rightarrow> u64 \<Rightarrow> nat \<Rightarrow> (arfw_error, u64) outcome" where
  "search_from node target_oid offset =
     (if offset + 32 \<le> length node then
        let oid = u64_at node offset; val_offset = offset + 16; paddr = u64_at node (val_offset + 8) in
        if oid = target_oid \<and> val_offset + 16 \<le> length node \<and> paddr > 0 \<and> paddr < 1000000000 then Ok paddr
        else search_from node target_oid (offset + 8)
      else Err (Error_Apfs (lit ''Volume OID not found in object map'')))"
  by pat_completeness auto
termination
  by (relation "measure (\<lambda>(node, target, offset). length node - offset)") auto

declare search_from.simps [simp del]

definition search_btree_node :: "bytes \<Rightarrow> u64 \<Rightarrow> (arfw_error, u64) outcome" where
  "search_btree_node node target_oid = search_from node target_oid 72"

definition read_apfs_volume_space :: "'h win32 \<Rightarrow> ('h disk_reader, arfw_error, u64 \<times> u64) op" where
  "read_apfs_volume_space w =
     bind_op (read_4096_at w 0) (\<lambda>buffer.
       let block_size = ucast (u32_at buffer 36) :: u64;
           nx_omap_oid = u64_at buffer 160; volume_oid = u64_at buffer 184 in
       if volume_oid = 0 then lift_op (Err (Error_Apfs (lit ''No volume found in container'')))
       else
         bind_op (read_4096_at w (nx_omap_oid * block_size)) (\<lambda>buffer.
         bind_op (read_4096_at w (u64_at buffer 48 * block_size)) (\<lambda>buffer.
         bind_op (lift_op (search_btree_node buffer volume_oid)) (\<lambda>volume_paddr.
         bind_op (read_4096_at w (volume_paddr * block_size)) (\<lambda>buffer.
           return_op (u64_at buffer 224, u64_at buffer 232))))))"

section \<open>What Windows promises\<close>

text \<open>
  \<open>on_dev\<close> says which handle states belong to the device, \<open>ptr\<close> is the file pointer of one and
  \<open>img\<close> the bytes of the device. A raw read must start and end on a sector boundary, and is only
  specified here when it lies inside the device; its length is a \<open>DWORD\<close>. Whatever a call returns,
  the handle stays one of the device.
\<close>

definition raw_device :: "'h win32 \<Rightarrow> ('h \<Rightarrow> bool) \<Rightarrow> ('h \<Rightarrow> nat) \<Rightarrow> bytes \<Rightarrow> bool" where
  "raw_device w on_dev ptr img \<longleftrightarrow>
     SECTOR_SIZE dvd length img \<and> length img < 2 ^ 63 \<and>
     (\<forall>h d method. on_dev h \<longrightarrow> on_dev (snd (SetFilePointerEx w d method h))) \<and>
     (\<forall>h n. on_dev h \<longrightarrow> on_dev (snd (ReadFile w n h))) \<and>
     (\<forall>h d. on_dev h \<longrightarrow> 0 \<le> sint d \<longrightarrow>
        (\<exists>h'. SetFilePointerEx w d FILE_BEGIN h = (Ok d, h') \<and> on_dev h' \<and> ptr h' = unat d)) \<and>
     (\<forall>h. on_dev h \<longrightarrow> ptr h < 2 ^ 63 \<longrightarrow>
        (\<exists>h'. SetFilePointerEx w 0 FILE_CURRENT h = (Ok (word_of_nat (ptr h)), h') \<and> on_dev h' \<and> ptr h' = ptr h)) \<and>
     (\<forall>h n. on_dev h \<longrightarrow> SECTOR_SIZE dvd ptr h \<longrightarrow> SECTOR_SIZE dvd n \<longrightarrow> n < 2 ^ 32 \<longrightarrow>
        ptr h + n \<le> length img \<longrightarrow>
        (\<exists>h'. ReadFile w n h = (Ok (take n (drop (ptr h) img)), h') \<and> on_dev h' \<and> ptr h' = ptr h + n))"

text \<open>Opening the device's path gives a handle of the device.\<close>

definition opens_device :: "'h win32 \<Rightarrow> ('h \<Rightarrow> bool) \<Rightarrow> rstr \<Rightarrow> bool" where
  "opens_device w on_dev path \<longleftrightarrow> (\<forall>h. CreateFileA w (c_string path) = Ok h \<longrightarrow> on_dev h)"

end
