(* ===== verification/Devices.thy ===== *)
theory Devices
  imports Disk
begin

text \<open>
  \<open>src/device_monitor.rs\<close>: the scan for APFS partitions on the physical drives, and the free drive
  letters. What Windows answers depends on the moment, a value of type \<open>'w\<close>: \<open>win\<close> gives the calls
  of \<open>Disk.thy\<close>, and two more calls are made here.
\<close>

section \<open>The Windows calls\<close>

text \<open>The fields of \<open>PARTITION_INFORMATION_EX\<close> that the code reads, and the drive layout around it.\<close>

record partition_information =
  pi_partition_style :: u32
  pi_starting_offset :: i64
  pi_partition_length :: i64
  pi_partition_number :: u32
  pi_gpt_partition_type :: bytes

record drive_layout =
  dl_partition_count :: u32
  dl_partition_entry :: "partition_information list"

text \<open>
  \<open>GetDriveLayoutEx\<close> is \<open>DeviceIoControl\<close> with \<open>IOCTL_DISK_GET_DRIVE_LAYOUT_EX\<close>, which writes the
  count and the entries over the zeroed struct; \<open>GetDriveTypeW\<close> gets a NUL-terminated root path.
\<close>

record ('w, 'h) windows =
  win :: "'w \<Rightarrow> 'h win32"
  GetDriveLayoutEx :: "'w \<Rightarrow> 'h \<Rightarrow> (windows_error, drive_layout) outcome"
  GetDriveTypeW :: "'w \<Rightarrow> u16 list \<Rightarrow> u32"

section \<open>Partitions\<close>

record apfs_partition =
  ap_disk_number :: u32
  ap_partition_number :: u32
  ap_device_path :: rstr
  ap_offset :: u64
  ap_size :: u64

definition APFS_PARTITION_GUID :: bytes where
  "APFS_PARTITION_GUID = [0xEF, 0x57, 0x34, 0x7C, 0x00, 0x00, 0xAA, 0x11, 0xAA, 0x11, 0x00, 0x30, 0x65, 0x43, 0xEC, 0xAC]"

definition physical_drive :: "u32 \<Rightarrow> rstr" where
  "physical_drive disk_num = [BACKSLASH, BACKSLASH, 46, BACKSLASH] @ lit ''PhysicalDrive'' @ dec (unat disk_num)"

definition zero_partition_information :: partition_information where
  "zero_partition_information = \<lparr>pi_partition_style = 0, pi_starting_offset = 0, pi_partition_length = 0,
     pi_partition_number = 0, pi_gpt_partition_type = replicate 16 0\<rparr>"

text \<open>The array of 128 entries: zeroed, then written from its start.\<close>

definition partition_entries :: "drive_layout \<Rightarrow> partition_information list" where
  "partition_entries layout = take 128 (dl_partition_entry layout @ replicate 128 zero_partition_information)"

definition is_apfs_entry :: "partition_information \<Rightarrow> bool" where
  "is_apfs_entry e \<longleftrightarrow> pi_partition_style e = 1 \<and> pi_gpt_partition_type e = APFS_PARTITION_GUID"

definition partition_of_entry :: "u32 \<Rightarrow> partition_information \<Rightarrow> apfs_partition" where
  "partition_of_entry disk_num e =
     \<lparr>ap_disk_number = disk_num, ap_partition_number = pi_partition_number e,
      ap_device_path = physical_drive disk_num, ap_offset = pi_starting_offset e, ap_size = pi_partition_length e\<rparr>"

fun collect_partitions :: "partition_information list \<Rightarrow> u32 \<Rightarrow> nat list \<Rightarrow> apfs_partition list \<Rightarrow> apfs_partition list" where
  "collect_partitions es disk_num [] acc = acc"
| "collect_partitions es disk_num (i # is) acc =
     (let e = es ! i in
      collect_partitions es disk_num is
        (if is_apfs_entry e then acc @ [partition_of_entry disk_num e] else acc))"

definition read_gpt_partitions :: "('w, 'h, 'z) windows_scheme \<Rightarrow> 'w \<Rightarrow> 'h \<Rightarrow> u32 \<Rightarrow> (arfw_error, apfs_partition list) outcome" where
  "read_gpt_partitions sy w handle disk_num =
     and_then (attempt (GetDriveLayoutEx sy w handle)) (\<lambda>answer.
     case answer of
       None \<Rightarrow> Ok []
     | Some layout \<Rightarrow>
         let count = min (unat (dl_partition_count layout)) 128 in
         Ok (collect_partitions (partition_entries layout) disk_num [0..<count] []))"

definition open_disk :: "('w, 'h, 'z) windows_scheme \<Rightarrow> 'w \<Rightarrow> rstr \<Rightarrow> (arfw_error, 'h) outcome" where
  "open_disk sy w path =
     and_then (map_err Error_Windows (CreateFileA (win sy w) (c_string path))) (\<lambda>handle.
       if handle_is_invalid (win sy w) handle then Err (Error_Io (last_os_error (win sy w))) else Ok handle)"

definition scan_disk_for_apfs :: "('w, 'h, 'z) windows_scheme \<Rightarrow> 'w \<Rightarrow> rstr \<Rightarrow> u32 \<Rightarrow> (arfw_error, apfs_partition list) outcome" where
  "scan_disk_for_apfs sy w disk_path disk_num =
     and_then (open_disk sy w disk_path) (\<lambda>handle. read_gpt_partitions sy w handle disk_num)"

fun scan_disks :: "('w, 'h, 'z) windows_scheme \<Rightarrow> 'w \<Rightarrow> u32 list \<Rightarrow> apfs_partition list \<Rightarrow> (arfw_error, apfs_partition list) outcome" where
  "scan_disks sy w [] partitions = Ok partitions"
| "scan_disks sy w (disk_num # ns) partitions =
     and_then (attempt (scan_disk_for_apfs sy w (physical_drive disk_num) disk_num)) (\<lambda>found.
       scan_disks sy w ns (case found of Some ps \<Rightarrow> partitions @ ps | None \<Rightarrow> partitions))"

definition scan_apfs_partitions :: "('w, 'h, 'z) windows_scheme \<Rightarrow> 'w \<Rightarrow> (arfw_error, apfs_partition list) outcome" where
  "scan_apfs_partitions sy w = scan_disks sy w (map word_of_nat [0..<100]) []"

section \<open>Drive letters\<close>

definition root_path :: "nat \<Rightarrow> u16 list" where
  "root_path letter = encode_utf16 [letter, 58, BACKSLASH] @ [0]"

fun collect_letters :: "('w, 'h, 'z) windows_scheme \<Rightarrow> 'w \<Rightarrow> nat list \<Rightarrow> nat list \<Rightarrow> nat list" where
  "collect_letters sy w [] available = available"
| "collect_letters sy w (letter # ls) available =
     collect_letters sy w ls (if GetDriveTypeW sy w (root_path letter) = 1 then available @ [letter] else available)"

definition find_available_drive_letters :: "('w, 'h, 'z) windows_scheme \<Rightarrow> 'w \<Rightarrow> nat list" where
  "find_available_drive_letters sy w = collect_letters sy w [68..<91] []"

section \<open>What the scan finds\<close>

text \<open>The calls of a scan return: an answer or an error, no more.\<close>

definition scan_calls_return :: "('w, 'h, 'z) windows_scheme \<Rightarrow> 'w \<Rightarrow> bool" where
  "scan_calls_return sy w \<longleftrightarrow>
     (\<forall>path. CreateFileA (win sy w) path \<noteq> Panic \<and> CreateFileA (win sy w) path \<noteq> NoFuel) \<and>
     (\<forall>h. GetDriveLayoutEx sy w h \<noteq> Panic \<and> GetDriveLayoutEx sy w h \<noteq> NoFuel)"

text \<open>Entry \<open>e\<close> is in the partition table of drive \<open>n\<close>, within the count that Windows reports.\<close>

definition on_drive :: "('w, 'h, 'z) windows_scheme \<Rightarrow> 'w \<Rightarrow> u32 \<Rightarrow> partition_information \<Rightarrow> bool" where
  "on_drive sy w n e \<longleftrightarrow>
     (\<exists>h layout i. CreateFileA (win sy w) (physical_drive n) = Ok h \<and> \<not> handle_is_invalid (win sy w) h \<and>
        GetDriveLayoutEx sy w h = Ok layout \<and> i < min (unat (dl_partition_count layout)) 128 \<and>
        e = partition_entries layout ! i)"

lemma collect_partitions_eq:
  "collect_partitions es n is acc = acc @ map (\<lambda>i. partition_of_entry n (es ! i)) (filter (\<lambda>i. is_apfs_entry (es ! i)) is)"
  by (induction "is" arbitrary: acc) (auto simp: Let_def)

lemma collect_letters_eq:
  "collect_letters sy w ls acc = acc @ filter (\<lambda>l. GetDriveTypeW sy w (root_path l) = 1) ls"
  by (induction ls arbitrary: acc) auto

lemma c_string_no_nul:
  assumes "0 \<notin> set s"
  shows "c_string s = s"
proof -
  have "c \<noteq> 0" if "c \<in> set s" for c
    using that assms by metis
  then show ?thesis
    unfolding c_string_def by (subst takeWhile_append2) simp_all
qed

lemma physical_drive_c_string [simp]: "c_string (physical_drive n) = physical_drive n"
  by (rule c_string_no_nul) (auto simp: physical_drive_def BACKSLASH_def lit_def dest: dec_digits)

lemma physical_drive_inject [simp]: "physical_drive m = physical_drive n \<longleftrightarrow> m = n"
  by (simp add: physical_drive_def word_unat_eq_iff)

lemma scan_disk_found:
  assumes "scan_calls_return sy w"
  shows "\<exists>found. attempt (scan_disk_for_apfs sy w (physical_drive n) n) = (Ok found :: (arfw_error, _) outcome) \<and>
           (\<forall>p. (\<exists>ps. found = Some ps \<and> p \<in> set ps) \<longleftrightarrow> (\<exists>e. on_drive sy w n e \<and> is_apfs_entry e \<and> p = partition_of_entry n e))"
proof (cases "CreateFileA (win sy w) (physical_drive n)")
  case (Ok h)
  show ?thesis
  proof (cases "GetDriveLayoutEx sy w h")
    case layout: (Ok layout)
    then show ?thesis
      using Ok by (auto simp: scan_disk_for_apfs_def open_disk_def read_gpt_partitions_def on_drive_def
          collect_partitions_eq Let_def)
  qed (use Ok assms in \<open>auto simp: scan_disk_for_apfs_def open_disk_def read_gpt_partitions_def on_drive_def
      scan_calls_return_def\<close>)
qed (use assms in \<open>auto simp: scan_disk_for_apfs_def open_disk_def on_drive_def scan_calls_return_def\<close>)

lemma scan_disks_found:
  assumes "scan_calls_return sy w"
  shows "\<exists>ps. scan_disks sy w ns acc = Ok ps \<and>
           set ps = set acc \<union> {partition_of_entry n e | n e. n \<in> set ns \<and> on_drive sy w n e \<and> is_apfs_entry e}"
proof (induction ns arbitrary: acc)
  case (Cons n ns)
  obtain found where found: "attempt (scan_disk_for_apfs sy w (physical_drive n) n) = (Ok found :: (arfw_error, _) outcome)"
    "\<And>p. (\<exists>ps. found = Some ps \<and> p \<in> set ps) \<longleftrightarrow> (\<exists>e. on_drive sy w n e \<and> is_apfs_entry e \<and> p = partition_of_entry n e)"
    using scan_disk_found [OF assms, of n] by (elim exE conjE) (rule that, assumption, simp)
  define acc' where "acc' = (case found of Some ps \<Rightarrow> acc @ ps | None \<Rightarrow> acc)"
  have acc': "set acc' = set acc \<union> {partition_of_entry n e | e. on_drive sy w n e \<and> is_apfs_entry e}"
    using found(2) by (fastforce simp: acc'_def split: option.splits)
  obtain ps where "scan_disks sy w ns acc' = Ok ps"
    "set ps = set acc' \<union> {partition_of_entry n e | n e. n \<in> set ns \<and> on_drive sy w n e \<and> is_apfs_entry e}"
    using Cons.IH by blast
  with acc' show ?case
    by (auto simp: found(1) acc'_def [symmetric])
qed simp

lemma scan_set:
  assumes "scan_calls_return sy w"
  shows "\<exists>ps. scan_apfs_partitions sy w = Ok ps \<and>
    set ps = {p. \<exists>n. unat n < 100 \<and> (\<exists>e. on_drive sy w n e \<and> is_apfs_entry e \<and> p = partition_of_entry n e)}"
proof -
  have "set (map word_of_nat [0..<100]) = {n :: u32. unat n < 100}"
  proof (intro set_eqI iffI)
    fix n :: u32
    assume "n \<in> {n. unat n < 100}"
    then have "n = word_of_nat (unat n)" "unat n \<in> set [0..<100]"
      by simp_all
    then show "n \<in> set (map word_of_nat [0..<100])"
      by (metis image_eqI image_set)
  qed (auto simp: unat_of_nat)
  moreover obtain ps where "scan_disks sy w (map word_of_nat [0..<100]) [] = Ok ps"
    "set ps = set [] \<union> {partition_of_entry n e | n e. n \<in> set (map word_of_nat [0..<100]) \<and> on_drive sy w n e \<and> is_apfs_entry e}"
    using scan_disks_found [OF assms, of "map word_of_nat [0..<100]" "[]"] by (elim exE conjE) (rule that)
  ultimately show ?thesis
    unfolding scan_apfs_partitions_def by (intro exI [of _ ps]) auto
qed

text \<open>
  C9: the scan never fails: it returns exactly the entries of the GPT partition tables of drives 0
  to 99 with the APFS type, each with its drive's number and path and its own number, offset and
  size. A drive that does not open or has no readable table contributes nothing, and no entry
  beyond the 128 of the buffer is read whatever count Windows reports.
\<close>

theorem scan_finds_apfs_partitions:
  assumes "scan_calls_return sy w"
  shows "\<exists>ps. scan_apfs_partitions sy w = Ok ps \<and>
    (\<forall>p. p \<in> set ps \<longleftrightarrow>
       (\<exists>n e. unat n < 100 \<and> on_drive sy w n e \<and>
          pi_partition_style e = 1 \<and> pi_gpt_partition_type e = APFS_PARTITION_GUID \<and>
          p = \<lparr>ap_disk_number = n, ap_partition_number = pi_partition_number e, ap_device_path = physical_drive n,
               ap_offset = pi_starting_offset e, ap_size = pi_partition_length e\<rparr>))"
proof -
  obtain ps where ps: "scan_apfs_partitions sy w = Ok ps"
    "set ps = {p. \<exists>n. unat n < 100 \<and> (\<exists>e. on_drive sy w n e \<and> is_apfs_entry e \<and> p = partition_of_entry n e)}"
    using scan_set [OF assms] by blast
  show ?thesis
    by (intro exI [of _ ps] conjI ps(1) allI)
      (simp only: ps(2) mem_Collect_eq is_apfs_entry_def partition_of_entry_def conj_assoc ex_simps(2) [symmetric])
qed

text \<open>The letters offered: those from D to Z whose root path does not exist, in order.\<close>

lemma available_letters:
  "l \<in> set (find_available_drive_letters sy w) \<longleftrightarrow> 68 \<le> l \<and> l \<le> 90 \<and> GetDriveTypeW sy w (root_path l) = 1"
  "sorted_wrt (<) (find_available_drive_letters sy w)"
  unfolding find_available_drive_letters_def collect_letters_eq append_Nil
  by (auto simp del: upt_rec_numeral) (rule sorted_wrt_filter, rule sorted_wrt_upt)

section \<open>A sample machine\<close>

text \<open>Drive 3 holds an EFI partition and an APFS one, and no other drive opens.\<close>

definition sample_layout :: drive_layout where
  "sample_layout = \<lparr>dl_partition_count = 2, dl_partition_entry =
     [zero_partition_information\<lparr>pi_partition_style := 1, pi_partition_number := 1\<rparr>,
      \<lparr>pi_partition_style = 1, pi_starting_offset = 1048576, pi_partition_length = 4096,
       pi_partition_number = 2, pi_gpt_partition_type = APFS_PARTITION_GUID\<rparr>]\<rparr>"

definition sample_windows :: "(unit, u32) windows" where
  "sample_windows =
     \<lparr>win = (\<lambda>_. \<lparr>CreateFileA = (\<lambda>path. if path = physical_drive 3 then Ok 3 else Err (Windows_Error 2 [])),
        handle_is_invalid = (\<lambda>h. h = 0), last_os_error = Io_Error KindOther [],
        SetFilePointerEx = (\<lambda>_ _ h. (Err (Windows_Error 1 []), h)), ReadFile = (\<lambda>_ h. (Err (Windows_Error 1 []), h)),
        GetDriveGeometryEx = (\<lambda>_. Err (Windows_Error 1 []))\<rparr>),
      GetDriveLayoutEx = (\<lambda>_ _. Ok sample_layout),
      GetDriveTypeW = (\<lambda>_ _. 1)\<rparr>"

theorem scan_finds_apfs_partitions_witness:
  "\<exists>ps. scan_apfs_partitions sample_windows () = Ok ps \<and>
     \<lparr>ap_disk_number = 3, ap_partition_number = 2, ap_device_path = physical_drive 3,
      ap_offset = 1048576, ap_size = 4096\<rparr> \<in> set ps"
proof -
  have calls: "scan_calls_return sample_windows ()"
    by (simp add: scan_calls_return_def sample_windows_def)
  moreover have "on_drive sample_windows () 3 (partition_entries sample_layout ! 1)"
    unfolding on_drive_def
    by (intro exI [of _ 3] exI [of _ sample_layout] exI [of _ 1]) (simp add: sample_windows_def sample_layout_def)
  moreover have "partition_entries sample_layout ! 1 = \<lparr>pi_partition_style = 1, pi_starting_offset = 1048576,
      pi_partition_length = 4096, pi_partition_number = 2, pi_gpt_partition_type = APFS_PARTITION_GUID\<rparr>"
    by (simp add: partition_entries_def sample_layout_def)
  moreover obtain ps where "scan_apfs_partitions sample_windows () = Ok ps"
    "\<forall>p. p \<in> set ps \<longleftrightarrow>
       (\<exists>n e. unat n < 100 \<and> on_drive sample_windows () n e \<and>
          pi_partition_style e = 1 \<and> pi_gpt_partition_type e = APFS_PARTITION_GUID \<and>
          p = \<lparr>ap_disk_number = n, ap_partition_number = pi_partition_number e, ap_device_path = physical_drive n,
               ap_offset = pi_starting_offset e, ap_size = pi_partition_length e\<rparr>)"
    using scan_finds_apfs_partitions [OF calls] by (elim exE conjE) (rule that)
  ultimately show ?thesis
    by (intro exI [of _ ps]) (simp, intro exI [of _ "3 :: u32"], simp,
        intro exI [of _ "partition_entries sample_layout ! 1"], simp)
qed

end
