(* ===== verification/Driver.thy ===== *)
theory Driver
  imports Disk
begin

text \<open>
  \<open>src/driver.rs\<close>: the WinFsp file system callbacks over a mounted volume, as operations on the
  driver's state. Parameters stand for third-party code: the \<open>lru\<close> crate's cache (on a type \<open>'c\<close>),
  WinFsp's directory buffer (on a type \<open>'b\<close>), and Windows (\<open>Disk.thy\<close>).
\<close>

section \<open>The \<open>lru\<close> and \<open>winfsp\<close> crates\<close>

record cached_stat =
  cs_stat :: file_stat
  cs_extent_map :: "extent list"
  cs_file_size :: u64
  cs_extents_resolved :: bool

record 'c lru_cache =
  lru_new :: "nat \<Rightarrow> 'c"
  lru_get :: "'c \<Rightarrow> rstr \<Rightarrow> cached_stat option \<times> 'c"
  lru_put :: "'c \<Rightarrow> rstr \<Rightarrow> cached_stat \<Rightarrow> 'c"
  lru_contains :: "'c \<Rightarrow> rstr \<Rightarrow> bool"

record file_info =
  fi_file_attributes :: u32
  fi_file_size :: u64
  fi_allocation_size :: u64
  fi_creation_time :: u64
  fi_last_access_time :: u64
  fi_last_write_time :: u64
  fi_change_time :: u64
  fi_index_number :: u64

text \<open>A freshly reset \<open>DirInfo\<close> has all fields zero.\<close>

definition zero_file_info :: file_info where
  "zero_file_info = \<lparr>fi_file_attributes = 0, fi_file_size = 0, fi_allocation_size = 0, fi_creation_time = 0,
     fi_last_access_time = 0, fi_last_write_time = 0, fi_change_time = 0, fi_index_number = 0\<rparr>"

record file_security =
  fsec_reparse :: bool
  fsec_sz_security_descriptor :: u64
  fsec_attributes :: u32

record winfsp_volume_info =
  wvi_total_size :: u64
  wvi_free_size :: u64
  wvi_volume_label :: rstr

datatype fsp_error = NTSTATUS i32

record dir_info =
  di_name :: "u16 list"
  di_file_info :: file_info

text \<open>
  \<open>check_name\<close> is \<open>set_name_raw\<close> of a \<open>DirInfo<255>\<close>, which refuses names that do not fit;
  \<open>buffer_read\<close> copies the records behind the marker into the caller's buffer.
\<close>

record 'b dir_buffer =
  buffer_new :: 'b
  check_name :: "u16 list \<Rightarrow> (fsp_error, unit) outcome"
  buffer_acquire :: "'b \<Rightarrow> bool \<Rightarrow> (fsp_error, 'b) outcome"
  buffer_write :: "'b \<Rightarrow> dir_info \<Rightarrow> (fsp_error, 'b) outcome"
  buffer_read :: "'b \<Rightarrow> nat \<Rightarrow> bytes"

section \<open>State\<close>

definition STAT_CACHE_CAPACITY :: nat where "STAT_CACHE_CAPACITY = 4096"
definition FILE_ATTRIBUTE_READONLY :: u32 where "FILE_ATTRIBUTE_READONLY = 0x1"
definition FILE_ATTRIBUTE_DIRECTORY :: u32 where "FILE_ATTRIBUTE_DIRECTORY = 0x10"

text \<open>
  The locks: a callback that panics while it holds the volume or the raw disk poisons that mutex,
  and every later \<open>lock().unwrap()\<close> panics. The cache's lock is only held around calls that do not.
\<close>

record ('h, 'c) driver =
  dv_volume :: apfs_volume
  dv_volume_poisoned :: bool
  dv_raw_disk :: "'h disk_reader"
  dv_raw_disk_poisoned :: bool
  dv_partition_offset :: u64
  dv_disk_size :: u64
  dv_stat_cache :: 'c

record 'b file_context =
  fc_path :: rstr
  fc_extent_map :: "extent list"
  fc_file_size :: u64
  fc_dir_buffer :: 'b

text \<open>\<open>Display\<close> of the library's errors; that of an \<open>io::Error\<close> is its message.\<close>

fun apfs_error_display :: "apfs_error \<Rightarrow> rstr" where
  "apfs_error_display (Io (Io_Error k msg)) = lit ''I/O error: '' @ msg"
| "apfs_error_display (InvalidMagic m) = lit ''invalid magic: 0x'' @ hex_digits 8 (unat m)"
| "apfs_error_display InvalidChecksum = lit ''invalid checksum''"
| "apfs_error_display (InvalidBTree s) = lit ''invalid B-tree: '' @ s"
| "apfs_error_display (FileNotFound s) = lit ''file not found: '' @ s"
| "apfs_error_display (NotADirectory s) = lit ''not a directory: '' @ s"
| "apfs_error_display (CorruptedData s) = lit ''corrupted data: '' @ s"
| "apfs_error_display NoVolume = lit ''no volume found in container''"

text \<open>
  The \<open>apfs\<close> crate is generic in its source; given a \<open>DiskReader\<close> it sees the results of that
  reader's seeks and of the reads right after them. They are taken on the disk as it is when the
  library is given it: on a raw device that is what any later access gives (\<open>accesses_as_reader\<close> in
  \<open>Disk_Correct\<close>), while an i/o error that comes and goes is not modelled.
\<close>

definition disk_as_reader :: "'h win32 \<Rightarrow> 'h disk_reader \<Rightarrow> reader" where
  "disk_as_reader w d =
     \<lparr>rd_seek = (\<lambda>pos. and_then (fst (disk_seek w (Start pos) d)) (\<lambda>_. Ok ())),
      rd_read_exact = (\<lambda>pos n. fst (bind_op (disk_seek w (Start pos)) (\<lambda>_. disk_read_exact w n) d))\<rparr>"

definition driver_new :: "nat \<Rightarrow> 'h win32 \<Rightarrow> 'c lru_cache \<Rightarrow> 'h disk_reader \<Rightarrow> (arfw_error, ('h, 'c) driver) outcome" where
  "driver_new fuel w lru disk =
     (let partition_offset = dr_offset disk in
      and_then (reopen_raw w disk) (\<lambda>raw_disk.
      and_then (reopen w disk) (\<lambda>meta_disk.
      and_then (attempt (fst (read_apfs_container_size w meta_disk))) (\<lambda>container_size.
      let disk_size = (case container_size of Some n \<Rightarrow> n | None \<Rightarrow> dr_size disk) in
      and_then (map_err (\<lambda>e. Error_Apfs (apfs_error_display e)) (open_volume fuel (disk_as_reader w disk))) (\<lambda>volume.
      Ok \<lparr>dv_volume = volume, dv_volume_poisoned = False, dv_raw_disk = raw_disk,
          dv_raw_disk_poisoned = False, dv_partition_offset = partition_offset, dv_disk_size = disk_size,
          dv_stat_cache = lru_new lru STAT_CACHE_CAPACITY\<rparr>)))))"

section \<open>Helpers\<close>

definition u16_to_path :: "u16 list \<Rightarrow> rstr" where
  "u16_to_path u16_path = replace_char BACKSLASH SLASH (from_utf16_lossy u16_path)"

definition driver_filetime :: "i64 \<Rightarrow> u64" where
  "driver_filetime nanos = UNIX_EPOCH_FILETIME + word_of_int (sint nanos sdiv 100)"

fun entry_kind_to_attributes :: "entry_kind \<Rightarrow> u32" where
  "entry_kind_to_attributes Directory = FILE_ATTRIBUTE_DIRECTORY"
| "entry_kind_to_attributes _ = FILE_ATTRIBUTE_READONLY"

fun extent_to_physical :: "extent list \<Rightarrow> u64 \<Rightarrow> u64 option" where
  "extent_to_physical [] logical_offset = None"
| "extent_to_physical ((log_start, phys_start, len) # em) logical_offset =
     (if logical_offset \<ge> log_start \<and> logical_offset < log_start + len
      then Some (phys_start + (logical_offset - log_start))
      else extent_to_physical em logical_offset)"

fun extent_remaining :: "extent list \<Rightarrow> u64 \<Rightarrow> u64" where
  "extent_remaining [] logical_offset = 0"
| "extent_remaining ((log_start, _, len) # em) logical_offset =
     (if logical_offset \<ge> log_start \<and> logical_offset < log_start + len
      then (log_start + len) - logical_offset
      else extent_remaining em logical_offset)"

text \<open>\<open>(size + 4095) & !4095\<close> on \<open>u64\<close>.\<close>

definition allocation_size :: "u64 \<Rightarrow> u64" where
  "allocation_size file_size = (file_size + 4095) AND NOT 4095"

definition fill_file_info :: "file_info \<Rightarrow> file_stat \<Rightarrow> u64 \<Rightarrow> file_info" where
  "fill_file_info info st file_size =
     info\<lparr>fi_file_attributes := entry_kind_to_attributes (st_kind st),
          fi_file_size := file_size,
          fi_allocation_size := allocation_size file_size,
          fi_creation_time := driver_filetime (st_create_time st),
          fi_last_access_time := driver_filetime (st_modify_time st),
          fi_last_write_time := driver_filetime (st_modify_time st),
          fi_change_time := driver_filetime (st_modify_time st),
          fi_index_number := st_oid st\<rparr>"

section \<open>Locks and cache\<close>

type_synonym ('h, 'c, 'a) callback = "(('h, 'c) driver, fsp_error, 'a) op"

definition get_cached_stat :: "'c lru_cache \<Rightarrow> rstr \<Rightarrow> ('h, 'c, cached_stat option) callback" where
  "get_cached_stat lru path s =
     (let (found, cache) = lru_get lru (dv_stat_cache s) path in (Ok found, s\<lparr>dv_stat_cache := cache\<rparr>))"

definition put_cached_stat :: "'c lru_cache \<Rightarrow> rstr \<Rightarrow> cached_stat \<Rightarrow> ('h, 'c, unit) callback" where
  "put_cached_stat lru path entry s = (Ok (), s\<lparr>dv_stat_cache := lru_put lru (dv_stat_cache s) path entry\<rparr>)"

text \<open>A call on the locked volume, its error replaced by a status.\<close>

definition with_volume :: "i32 \<Rightarrow> (apfs_volume \<Rightarrow> 'a apfs_result) \<Rightarrow> ('h, 'c, 'a) callback" where
  "with_volume status f s =
     (if dv_volume_poisoned s then (Panic, s)
      else case f (dv_volume s) of
        Ok x \<Rightarrow> (Ok x, s)
      | Err e \<Rightarrow> (Err (NTSTATUS status), s)
      | Panic \<Rightarrow> (Panic, s\<lparr>dv_volume_poisoned := True\<rparr>)
      | NoFuel \<Rightarrow> (NoFuel, s))"

text \<open>
  What \<open>get_security_by_name\<close> and \<open>open\<close> do on a cache miss.
\<close>

definition resolve_and_cache :: "nat \<Rightarrow> 'c lru_cache \<Rightarrow> rstr \<Rightarrow> ('h, 'c, cached_stat) callback" where
  "resolve_and_cache fuel lru path =
     bind_op (with_volume STATUS_OBJECT_NAME_NOT_FOUND (\<lambda>vol. stat_and_extents fuel vol path))
       (\<lambda>(stat, extent_map, file_size).
       let c = \<lparr>cs_stat = stat, cs_extent_map = extent_map, cs_file_size = file_size, cs_extents_resolved = True\<rparr> in
       bind_op (put_cached_stat lru path c) (\<lambda>_. return_op c))"

section \<open>Callbacks\<close>

definition get_security_by_name :: "nat \<Rightarrow> 'c lru_cache \<Rightarrow> u16 list \<Rightarrow> ('h, 'c, file_security) callback" where
  "get_security_by_name fuel lru file_name =
     (let path = u16_to_path file_name;
          security = (\<lambda>attributes. \<lparr>fsec_reparse = False, fsec_sz_security_descriptor = 0, fsec_attributes = attributes\<rparr>) in
      if path = [SLASH] \<or> path = [] then return_op (security FILE_ATTRIBUTE_DIRECTORY)
      else
        bind_op (get_cached_stat lru path) (\<lambda>found.
        case found of
          Some cached \<Rightarrow> return_op (security (entry_kind_to_attributes (st_kind (cs_stat cached))))
        | None \<Rightarrow>
            bind_op (resolve_and_cache fuel lru path) (\<lambda>c.
            return_op (security (entry_kind_to_attributes (st_kind (cs_stat c)))))))"

definition driver_open :: "nat \<Rightarrow> 'c lru_cache \<Rightarrow> 'b dir_buffer \<Rightarrow> u16 list \<Rightarrow> file_info \<Rightarrow>
    ('h, 'c, 'b file_context \<times> file_info) callback" where
  "driver_open fuel lru db file_name info =
     (let path = u16_to_path file_name in
      bind_op (get_cached_stat lru path) (\<lambda>found.
      bind_op
        (case found of
           Some c \<Rightarrow>
             if cs_extents_resolved c \<or> st_kind (cs_stat c) = Directory then return_op c
             else resolve_and_cache fuel lru path
         | None \<Rightarrow> resolve_and_cache fuel lru path)
        (\<lambda>cached.
        return_op
          (\<lparr>fc_path = path, fc_extent_map = cs_extent_map cached, fc_file_size = cs_file_size cached,
            fc_dir_buffer = buffer_new db\<rparr>,
           fill_file_info info (cs_stat cached) (cs_file_size cached)))))"

text \<open>
  \<open>read\<close>: a loop of positioned reads on the raw disk, one per extent at most. The result is the
  count, a \<open>u32\<close>, and the bytes put into the buffer; an error in a later round drops the count of
  the earlier ones.
\<close>

function read_loop ::
    "'h win32 \<Rightarrow> extent list \<Rightarrow> u64 \<Rightarrow> u64 \<Rightarrow> nat \<Rightarrow> bytes \<Rightarrow> ('h disk_reader, fsp_error, bytes) op" where
  "read_loop w em partition_offset offset to_read got d =
     (if length got < to_read then
        let logical_pos = offset + of_nat (length got) in
        case extent_to_physical em logical_pos of
          None \<Rightarrow> (Err (NTSTATUS STATUS_END_OF_FILE), d)
        | Some physical_pos \<Rightarrow>
            let avail = extent_remaining em logical_pos in
            if avail = 0 then (Ok got, d)
            else
              let chunk_size = min (to_read - length got) (unat avail);
                  abs_offset = partition_offset + physical_pos in
              (case read_at_absolute w abs_offset chunk_size d of
                 (Ok bs, d') \<Rightarrow>
                   if bs = [] then (Ok got, d') else read_loop w em partition_offset offset to_read (got @ bs) d'
               | (Err e, d') \<Rightarrow> (Err (NTSTATUS STATUS_END_OF_FILE), d')
               | (Panic, d') \<Rightarrow> (Panic, d')
               | (NoFuel, d') \<Rightarrow> (NoFuel, d'))
      else (Ok got, d))"
  by pat_completeness auto
termination
  by (relation "measure (\<lambda>(w, em, partition_offset, offset, to_read, got, d). to_read - length got)")
    (auto intro!: diff_less_mono2)

declare read_loop.simps [simp del]

definition driver_read :: "'h win32 \<Rightarrow> 'b file_context \<Rightarrow> nat \<Rightarrow> u64 \<Rightarrow> ('h, 'c, u32 \<times> bytes) callback" where
  "driver_read w context buffer_len offset s =
     (if offset \<ge> fc_file_size context then (Ok (0, []), s)
      else
        let remaining = unat (fc_file_size context - offset);
            to_read = min buffer_len remaining in
        if to_read = 0 then (Ok (0, []), s)
        else if dv_raw_disk_poisoned s then (Panic, s)
        else
          case read_loop w (fc_extent_map context) (dv_partition_offset s) offset to_read [] (dv_raw_disk s) of
            (Ok bs, d) \<Rightarrow> (Ok (of_nat (length bs), bs), s\<lparr>dv_raw_disk := d\<rparr>)
          | (Err e, d) \<Rightarrow> (Err e, s\<lparr>dv_raw_disk := d\<rparr>)
          | (Panic, d) \<Rightarrow> (Panic, s\<lparr>dv_raw_disk := d, dv_raw_disk_poisoned := True\<rparr>)
          | (NoFuel, d) \<Rightarrow> (NoFuel, s\<lparr>dv_raw_disk := d\<rparr>))"

text \<open>
  \<open>read_directory\<close>: only a call without a marker lists; its pattern is ignored. Every entry that the
  cache does not hold is put there without extents. Both loops run over the entries in order.
\<close>

definition entry_stat :: "dir_entry \<Rightarrow> file_stat" where
  "entry_stat entry =
     \<lparr>st_oid = de_oid entry, st_kind = de_kind entry, st_size = de_size entry,
      st_create_time = de_create_time entry, st_modify_time = de_modify_time entry,
      st_uid = 0, st_gid = 0, st_mode = 0, st_nlink = 1\<rparr>"

definition entry_cached :: "dir_entry \<Rightarrow> cached_stat" where
  "entry_cached entry = \<lparr>cs_stat = entry_stat entry, cs_extent_map = [], cs_file_size = de_size entry,
     cs_extents_resolved = False\<rparr>"

fun prepopulate :: "'c lru_cache \<Rightarrow> rstr \<Rightarrow> dir_entry list \<Rightarrow> 'c \<Rightarrow> 'c" where
  "prepopulate lru parent [] cache = cache"
| "prepopulate lru parent (entry # es) cache =
     (let path = child_path parent (de_name entry) in
      prepopulate lru parent es
        (if lru_contains lru cache path then cache else lru_put lru cache path (entry_cached entry)))"

definition dir_entry_info :: "dir_entry \<Rightarrow> dir_info" where
  "dir_entry_info entry =
     \<lparr>di_name = encode_utf16 (de_name entry),
      di_file_info = zero_file_info
        \<lparr>fi_file_attributes := entry_kind_to_attributes (de_kind entry),
         fi_file_size := de_size entry,
         fi_allocation_size := allocation_size (de_size entry),
         fi_creation_time := driver_filetime (de_create_time entry),
         fi_last_access_time := driver_filetime (de_modify_time entry),
         fi_last_write_time := driver_filetime (de_modify_time entry),
         fi_change_time := driver_filetime (de_modify_time entry),
         fi_index_number := de_oid entry\<rparr>\<rparr>"

definition dot_info :: "rstr \<Rightarrow> dir_info" where
  "dot_info name = \<lparr>di_name = encode_utf16 name,
     di_file_info = zero_file_info\<lparr>fi_file_attributes := FILE_ATTRIBUTE_DIRECTORY\<rparr>\<rparr>"

text \<open>The records go into the buffer one by one until one is refused; what was written stays.\<close>

fun write_infos :: "'b dir_buffer \<Rightarrow> dir_info list \<Rightarrow> ('b, fsp_error, unit) op" where
  "write_infos db [] buf = (Ok (), buf)"
| "write_infos db (info # infos) buf =
     (case and_then (check_name db (di_name info)) (\<lambda>_. buffer_write db buf info) of
        Ok buf' \<Rightarrow> write_infos db infos buf'
      | Err e \<Rightarrow> (Err e, buf)
      | Panic \<Rightarrow> (Panic, buf)
      | NoFuel \<Rightarrow> (NoFuel, buf))"

definition read_directory :: "nat \<Rightarrow> 'c lru_cache \<Rightarrow> 'b dir_buffer \<Rightarrow> bool \<Rightarrow> nat \<Rightarrow>
    (('h, 'c) driver \<times> 'b file_context, fsp_error, bytes) op" where
  "read_directory fuel lru db marker_is_none buffer_len st =
     (let (s, context) = st in
      if \<not> marker_is_none then (Ok [], st)
      else
        case with_volume STATUS_NOT_A_DIRECTORY (\<lambda>vol. vol_list_directory fuel vol (fc_path context)) s of
          (Ok dir_entries, s) \<Rightarrow>
            let parent = (if fc_path context = [SLASH] \<or> fc_path context = [] then [] else fc_path context);
                s = s\<lparr>dv_stat_cache := prepopulate lru parent dir_entries (dv_stat_cache s)\<rparr> in
            (case buffer_acquire db (fc_dir_buffer context) marker_is_none of
               Ok lock \<Rightarrow>
                 let (written, buf) = write_infos db
                        (dot_info (lit ''.'') # dot_info (lit ''..'') # map dir_entry_info dir_entries) lock in
                 (and_then written (\<lambda>_. Ok (buffer_read db buf buffer_len)), s, context\<lparr>fc_dir_buffer := buf\<rparr>)
             | Err e \<Rightarrow> (Err e, s, context)
             | Panic \<Rightarrow> (Panic, s, context)
             | NoFuel \<Rightarrow> (NoFuel, s, context))
        | (Err e, s) \<Rightarrow> (Err e, s, context)
        | (Panic, s) \<Rightarrow> (Panic, s, context)
        | (NoFuel, s) \<Rightarrow> (NoFuel, s, context))"

definition get_file_info :: "nat \<Rightarrow> 'c lru_cache \<Rightarrow> 'b file_context \<Rightarrow> file_info \<Rightarrow> ('h, 'c, file_info) callback" where
  "get_file_info fuel lru context info =
     bind_op (get_cached_stat lru (fc_path context)) (\<lambda>found.
     case found of
       Some cached \<Rightarrow> return_op (fill_file_info info (cs_stat cached) (cs_file_size cached))
     | None \<Rightarrow>
         bind_op (with_volume STATUS_OBJECT_NAME_NOT_FOUND (\<lambda>vol. stat fuel vol (fc_path context))) (\<lambda>st.
         return_op (fill_file_info info st (st_size st))))"

definition get_volume_info :: "('h, 'c, winfsp_volume_info) callback" where
  "get_volume_info s =
     (if dv_volume_poisoned s then (Panic, s)
      else (Ok \<lparr>wvi_total_size = dv_disk_size s, wvi_free_size = 0,
                wvi_volume_label = vi_name (av_info (dv_volume s))\<rparr>, s))"

text \<open>\<open>close\<close> only drops the context.\<close>

definition driver_close :: "'b file_context \<Rightarrow> ('h, 'c, unit) callback" where
  "driver_close context = return_op ()"

end
