(* ===== verification/Mounts.thy ===== *)
theory Mounts
  imports Devices Driver
begin

text \<open>
  \<open>src/mount_manager.rs\<close>: mounting partitions through WinFsp and the table of mounted volumes, with
  the interface that the daemon relies on as a locale. The file system host of the \<open>winfsp\<close> crate is
  a parameter, operations on the same moment \<open>'w\<close> as the Windows calls, and so is the order in
  which the standard library's hash tables are traversed.
\<close>

section \<open>The file system host\<close>

datatype any_error =
    Any_Arfw arfw_error
  | Any_Winfsp fsp_error
  | Any_Windows windows_error
  | Any_Message rstr
  | Any_Context rstr any_error

text \<open>The fields of \<open>VolumeParams\<close> that the program sets.\<close>

record volume_params =
  vp_prefix :: rstr
  vp_filesystem_name :: rstr
  vp_case_sensitive_search :: bool
  vp_case_preserved_names :: bool
  vp_unicode_on_disk :: bool
  vp_read_only_volume :: bool
  vp_sector_size :: u16
  vp_sectors_per_allocation_unit :: u16
  vp_volume_serial_number :: u32

record ('w, 'h, 'c, 'host) host_system = "('w, 'h) windows" +
  stat_lru :: "'c lru_cache"
  host_new :: "volume_params \<Rightarrow> ('h, 'c) driver \<Rightarrow> ('w, fsp_error, 'host) op"
  host_mount :: "'host \<Rightarrow> rstr \<Rightarrow> ('w, fsp_error, unit) op"
  host_start :: "'host \<Rightarrow> ('w, fsp_error, unit) op"
  host_drop :: "'host \<Rightarrow> 'w \<Rightarrow> 'w"
  key_order :: "rstr set \<Rightarrow> rstr list"
  pair_order :: "(u32 \<times> u32) set \<Rightarrow> (u32 \<times> u32) list"

text \<open>A traversal of a hash table visits every element once.\<close>

definition hash_laws :: "('w, 'h, 'c, 'host) host_system \<Rightarrow> bool" where
  "hash_laws sy \<longleftrightarrow>
     (\<forall>A. finite A \<longrightarrow> set (key_order sy A) = A \<and> distinct (key_order sy A)) \<and>
     (\<forall>A. finite A \<longrightarrow> set (pair_order sy A) = A \<and> distinct (pair_order sy A))"

section \<open>MountManager\<close>

record 'host mounted_volume =
  mv_partition :: apfs_partition
  mv_drive_letter :: nat
  mv_host :: 'host

record ('w, 'host) manager =
  mg_world :: 'w
  mg_mounts :: "rstr \<Rightarrow> 'host mounted_volume option"

definition manager_new :: "'w \<Rightarrow> ('w, 'host) manager" where
  "manager_new w = \<lparr>mg_world = w, mg_mounts = Map.empty\<rparr>"

definition mount_key :: "u32 \<times> u32 \<Rightarrow> rstr" where
  "mount_key = (\<lambda>(disk_number, partition_number). dec (unat disk_number) @ [58] @ dec (unat partition_number))"

definition partition_key :: "apfs_partition \<Rightarrow> u32 \<times> u32" where
  "partition_key p = (ap_disk_number p, ap_partition_number p)"

definition apfs_volume_params :: volume_params where
  "apfs_volume_params = \<lparr>vp_prefix = [], vp_filesystem_name = lit ''APFS'', vp_case_sensitive_search = True,
     vp_case_preserved_names = True, vp_unicode_on_disk = True, vp_read_only_volume = True,
     vp_sector_size = 512, vp_sectors_per_allocation_unit = 1, vp_volume_serial_number = 0x12345678\<rparr>"

definition letter_mount_point :: "nat \<Rightarrow> rstr" where
  "letter_mount_point drive_letter = [BACKSLASH, BACKSLASH, 46, BACKSLASH, drive_letter, 58]"

text \<open>The host, a local variable: a failure or a panic after its creation drops it.\<close>

definition dropping :: "('w, 'h, 'c, 'host) host_system \<Rightarrow> 'host \<Rightarrow> ('w, 'e, 'a) op \<Rightarrow> ('w, 'e, 'a) op" where
  "dropping sy host m w = (case m w of
       (Ok x, w') \<Rightarrow> (Ok x, w')
     | (Err e, w') \<Rightarrow> (Err e, host_drop sy host w')
     | (Panic, w') \<Rightarrow> (Panic, host_drop sy host w')
     | (NoFuel, w') \<Rightarrow> (NoFuel, w'))"

definition start_host :: "('w, 'h, 'c, 'host) host_system \<Rightarrow> ('h, 'c) driver \<Rightarrow> rstr \<Rightarrow> ('w, any_error, 'host) op" where
  "start_host sy driver mount_point =
     bind_op (map_err_op Any_Winfsp (host_new sy apfs_volume_params driver)) (\<lambda>host.
     dropping sy host
       (bind_op (map_err_op Any_Winfsp (host_mount sy host mount_point)) (\<lambda>_.
        bind_op (map_err_op Any_Winfsp (host_start sy host)) (\<lambda>_.
        return_op host))))"

definition load_driver :: "nat \<Rightarrow> ('w, 'h, 'c, 'host) host_system \<Rightarrow> 'w \<Rightarrow> rstr \<Rightarrow> u64 \<Rightarrow>
    (any_error, ('h, 'c) driver) outcome" where
  "load_driver fuel sy w path offset =
     map_err Any_Arfw (and_then (open_with_offset (win sy w) path offset) (driver_new fuel (win sy w) (stat_lru sy)))"

definition on_world :: "('w, 'e, 'a) op \<Rightarrow> (('w, 'host) manager, 'e, 'a) op" where
  "on_world m s = (case m (mg_world s) of (r, w) \<Rightarrow> (r, s\<lparr>mg_world := w\<rparr>))"

text \<open>\<open>HashMap::insert\<close>: a volume that was there under the key is dropped with its host.\<close>

definition insert_mount :: "('w, 'h, 'c, 'host) host_system \<Rightarrow> rstr \<Rightarrow> 'host mounted_volume \<Rightarrow>
    ('w, 'host) manager \<Rightarrow> ('w, 'host) manager" where
  "insert_mount sy key volume s =
     s\<lparr>mg_mounts := (mg_mounts s)(key \<mapsto> volume),
       mg_world := (case mg_mounts s key of
           Some old \<Rightarrow> host_drop sy (mv_host old) (mg_world s)
         | None \<Rightarrow> mg_world s)\<rparr>"

definition mount_partition :: "nat \<Rightarrow> ('w, 'h, 'c, 'host) host_system \<Rightarrow> apfs_partition \<Rightarrow> nat \<Rightarrow>
    (('w, 'host) manager, any_error, unit) op" where
  "mount_partition fuel sy part drive_letter s =
     (let key = mount_key (partition_key part) in
      bind_op (lift_op (load_driver fuel sy (mg_world s) (ap_device_path part) (ap_offset part))) (\<lambda>driver.
      bind_op (on_world (start_host sy driver (letter_mount_point drive_letter))) (\<lambda>host s.
        (Ok (), insert_mount sy key
           \<lparr>mv_partition = part, mv_drive_letter = drive_letter, mv_host = host\<rparr> s))) s)"

definition unmount_partition :: "('w, 'h, 'c, 'host) host_system \<Rightarrow> u32 \<times> u32 \<Rightarrow> ('w, 'host) manager \<Rightarrow> ('w, 'host) manager" where
  "unmount_partition sy key s =
     (case mg_mounts s (mount_key key) of
        Some volume \<Rightarrow> s\<lparr>mg_mounts := (mg_mounts s)(mount_key key := None),
                         mg_world := host_drop sy (mv_host volume) (mg_world s)\<rparr>
      | None \<Rightarrow> s)"

definition is_mounted :: "u32 \<times> u32 \<Rightarrow> ('w, 'host) manager \<Rightarrow> bool" where
  "is_mounted key s \<longleftrightarrow> mg_mounts s (mount_key key) \<noteq> None"

definition get_mounted_disks :: "('w, 'h, 'c, 'host) host_system \<Rightarrow> ('w, 'host) manager \<Rightarrow> u32 list" where
  "get_mounted_disks sy s =
     map (\<lambda>k. ap_disk_number (mv_partition (the (mg_mounts s k)))) (key_order sy (dom (mg_mounts s)))"

text \<open>Dropping the manager drops every volume with its host.\<close>

definition manager_drop :: "('w, 'h, 'c, 'host) host_system \<Rightarrow> ('w, 'host) manager \<Rightarrow> 'w" where
  "manager_drop sy s =
     fold (\<lambda>k. host_drop sy (mv_host (the (mg_mounts s k)))) (key_order sy (dom (mg_mounts s))) (mg_world s)"

section \<open>The interface of the table\<close>

text \<open>
  What the daemon relies on: a mount that succeeds adds its partition's key, one that fails leaves
  the mounted set alone, an unmount takes its key out, and neither touches the volume under another
  key.
\<close>

locale mount_table =
  fixes mount :: "apfs_partition \<Rightarrow> nat \<Rightarrow> ('s, 'e, unit) op"
    and unmount :: "u32 \<times> u32 \<Rightarrow> 's \<Rightarrow> 's"
    and volume :: "'s \<Rightarrow> u32 \<times> u32 \<Rightarrow> 'v option"
  assumes mount_Ok: "mount p l s = (Ok (), t) \<Longrightarrow> volume t (partition_key p) \<noteq> None"
    and mount_keeps: "mount p l s = (Ok (), t) \<Longrightarrow> k \<noteq> partition_key p \<Longrightarrow> volume t k = volume s k"
    and mount_fails: "mount p l s = (Err e, t) \<Longrightarrow> volume t = volume s"
    and unmounted: "volume (unmount k s) = (volume s)(k := None)"
begin

definition mounted :: "'s \<Rightarrow> (u32 \<times> u32) set" where
  "mounted s = {k. volume s k \<noteq> None}"

lemma mounted_mount:
  assumes "mount p l s = (Ok (), t)"
  shows "mounted t = insert (partition_key p) (mounted s)"
proof (rule set_eqI)
  fix k
  show "k \<in> mounted t \<longleftrightarrow> k \<in> insert (partition_key p) (mounted s)"
    by (cases "k = partition_key p") (use mount_Ok [OF assms] mount_keeps [OF assms] in \<open>simp_all add: mounted_def\<close>)
qed

lemma mounted_unmount: "mounted (unmount k s) = mounted s - {k}"
  by (auto simp: mounted_def unmounted)

end

lemma mount_key_inject [simp]: "mount_key k = mount_key l \<longleftrightarrow> k = l"
proof -
  have "58 \<notin> set (dec n)" for n
    using dec_digits by force
  then show ?thesis
    by (cases k; cases l) (simp add: mount_key_def append_Cons_eq_iff word_unat_eq_iff)
qed

definition mounted_volume_at :: "('w, 'host) manager \<Rightarrow> u32 \<times> u32 \<Rightarrow> 'host mounted_volume option" where
  "mounted_volume_at s k = mg_mounts s (mount_key k)"

lemma on_world_iffs:
  "on_world m s = (Ok x, t) \<longleftrightarrow> (\<exists>w. m (mg_world s) = (Ok x, w) \<and> t = s\<lparr>mg_world := w\<rparr>)"
  "on_world m s = (Err e, t) \<longleftrightarrow> (\<exists>w. m (mg_world s) = (Err e, w) \<and> t = s\<lparr>mg_world := w\<rparr>)"
  by (auto simp: on_world_def split: prod.splits)

lemma mount_partition_Ok:
  "mount_partition fuel sy p l s = (Ok u, t) \<longleftrightarrow>
     (\<exists>driver host w. load_driver fuel sy (mg_world s) (ap_device_path p) (ap_offset p) = Ok driver \<and>
        start_host sy driver (letter_mount_point l) (mg_world s) = (Ok host, w) \<and>
        t = insert_mount sy (mount_key (partition_key p))
          \<lparr>mv_partition = p, mv_drive_letter = l, mv_host = host\<rparr> (s\<lparr>mg_world := w\<rparr>))"
  by (auto simp: mount_partition_def Let_def bind_op_eq_Ok lift_op_def on_world_iffs)

lemma mount_partition_Err:
  "mount_partition fuel sy p l s = (Err e, t) \<longleftrightarrow>
     (load_driver fuel sy (mg_world s) (ap_device_path p) (ap_offset p) = Err e \<and> t = s) \<or>
     (\<exists>driver w. load_driver fuel sy (mg_world s) (ap_device_path p) (ap_offset p) = Ok driver \<and>
        start_host sy driver (letter_mount_point l) (mg_world s) = (Err e, w) \<and> t = s\<lparr>mg_world := w\<rparr>)"
  by (auto simp: mount_partition_def Let_def bind_op_eq_Err lift_op_def on_world_iffs)

text \<open>A mount that does not succeed leaves the table alone, and the world as the host left it.\<close>

lemma mount_partition_fails:
  assumes "mount_partition fuel sy p l s = (r, t)" and "r \<noteq> Ok ()"
  shows "t = s \<or> (\<exists>driver q w. start_host sy driver (letter_mount_point l) (mg_world s) = (q, w) \<and>
    (\<forall>h. q \<noteq> Ok h) \<and> (q = NoFuel \<longrightarrow> r = NoFuel) \<and> t = s\<lparr>mg_world := w\<rparr>)"
proof (cases "load_driver fuel sy (mg_world s) (ap_device_path p) (ap_offset p)")
  case (Ok driver)
  obtain q w where start: "start_host sy driver (letter_mount_point l) (mg_world s) = (q, w)"
    by fastforce
  with Ok assms show ?thesis
    by (cases q) (auto simp: mount_partition_def Let_def on_world_def bind_op_def)
qed (use assms in \<open>auto simp: mount_partition_def Let_def\<close>)

interpretation mt: mount_table "mount_partition fuel sy" "unmount_partition sy" mounted_volume_at for fuel sy
  by unfold_locales
    (auto simp: mount_partition_Ok mount_partition_Err mounted_volume_at_def insert_mount_def unmount_partition_def
      fun_eq_iff split: option.splits)

end
