(* ===== verification/Watcher.thy ===== *)
theory Watcher
  imports Host_Base "HOL-Library.Multiset"
begin

text \<open>
  \<open>src/device_watcher.rs\<close>: the subscription to disk notifications. The channel's sender lives in a
  \<open>Box\<close> that the system holds a raw pointer to, so the model keeps the live boxes and the
  registrations in force. Using or freeing a box that is not live is undefined behaviour in the code;
  it is a \<open>Panic\<close> here, and must be shown not to happen. Callbacks run on threads of the system, so
  they may come between the two calls of a drop.
\<close>

section \<open>The configuration manager\<close>

datatype cm_notify_action =
    CM_NOTIFY_ACTION_DEVICEINTERFACEARRIVAL
  | CM_NOTIFY_ACTION_DEVICEINTERFACEREMOVAL
  | CM_NOTIFY_ACTION_OTHER i32

record guid =
  data1 :: u32
  data2 :: u16
  data3 :: u16
  data4 :: bytes

record cm_notify_filter =
  cf_flags :: u32
  cf_filter_type_is_device_interface :: bool
  cf_class_guid :: guid

text \<open>
  \<open>CM_Register_Notification\<close> is given the registrations in force, the filter and the context, and
  returns a code and the new registration's handle; \<open>CM_Unregister_Notification\<close> is given the
  registrations in force and a handle, and returns a code. \<open>box_address\<close> is the allocator, given the
  boxes in use. The laws: a box has a new address that is not null, a new registration a new handle,
  and unregistering a registration that is in force succeeds.
\<close>

record 'n config_manager =
  box_address :: "nat list \<Rightarrow> nat"
  CM_Register_Notification :: "('n \<times> nat) list \<Rightarrow> cm_notify_filter \<Rightarrow> nat \<Rightarrow> u32 \<times> 'n"
  CM_Unregister_Notification :: "('n \<times> nat) list \<Rightarrow> 'n \<Rightarrow> u32"

definition CR_SUCCESS :: u32 where "CR_SUCCESS = 0"

definition cm_laws :: "'n config_manager \<Rightarrow> bool" where
  "cm_laws cm \<longleftrightarrow>
     (\<forall>used. box_address cm used \<noteq> 0 \<and> box_address cm used \<notin> set used) \<and>
     (\<forall>regs flt ctx h. CM_Register_Notification cm regs flt ctx = (CR_SUCCESS, h) \<longrightarrow> h \<notin> fst ` set regs) \<and>
     (\<forall>regs h. h \<in> fst ` set regs \<longrightarrow> CM_Unregister_Notification cm regs h = CR_SUCCESS)"

section \<open>The watcher\<close>

definition GUID_DEVINTERFACE_DISK :: guid where
  "GUID_DEVINTERFACE_DISK = \<lparr>data1 = 0x53f56307, data2 = 0xb6bf, data3 = 0x11d0,
     data4 = [0x94, 0xf2, 0x00, 0xa0, 0xc9, 0x1e, 0xfb, 0x8b]\<rparr>"

datatype device_event = Added | Removed

record 'n device_watcher =
  dw_handle :: 'n
  dw_sender_ptr :: nat

text \<open>The state around the watchers: live boxes, registrations in force, and the channel's queue.\<close>

record 'n watch_state =
  ws_boxes :: "nat list"
  ws_registered :: "('n \<times> nat) list"
  ws_channel :: "device_event list"

definition empty_watch_state :: "'n watch_state" where
  "empty_watch_state = \<lparr>ws_boxes = [], ws_registered = [], ws_channel = []\<rparr>"

definition disk_filter :: cm_notify_filter where
  "disk_filter = \<lparr>cf_flags = 0, cf_filter_type_is_device_interface = True, cf_class_guid = GUID_DEVINTERFACE_DISK\<rparr>"

definition watcher_new :: "'n config_manager \<Rightarrow> ('n watch_state, rstr, 'n device_watcher) op" where
  "watcher_new cm s =
     (let sender_ptr = box_address cm (ws_boxes s);
          s = s\<lparr>ws_boxes := sender_ptr # ws_boxes s\<rparr>;
          (result, handle) = CM_Register_Notification cm (ws_registered s) disk_filter sender_ptr in
      if result \<noteq> CR_SUCCESS
      then (Err (lit ''Failed to register device notification: '' @ dec (unat result)),
            s\<lparr>ws_boxes := removeAll sender_ptr (ws_boxes s)\<rparr>)
      else (Ok \<lparr>dw_handle = handle, dw_sender_ptr = sender_ptr\<rparr>,
            s\<lparr>ws_registered := (handle, sender_ptr) # ws_registered s\<rparr>))"

fun event_of_action :: "cm_notify_action \<Rightarrow> device_event option" where
  "event_of_action CM_NOTIFY_ACTION_DEVICEINTERFACEARRIVAL = Some Added"
| "event_of_action CM_NOTIFY_ACTION_DEVICEINTERFACEREMOVAL = Some Removed"
| "event_of_action _ = None"

definition watcher_callback :: "nat \<Rightarrow> cm_notify_action \<Rightarrow> ('n watch_state, rstr, u32) op" where
  "watcher_callback ctx action s =
     (if ctx = 0 then (Ok 0, s)
      else if ctx \<notin> set (ws_boxes s) then (Panic, s)
      else case event_of_action action of
          Some evt \<Rightarrow> (Ok 0, s\<lparr>ws_channel := ws_channel s @ [evt]\<rparr>)
        | None \<Rightarrow> (Ok 0, s))"

text \<open>
  \<open>Drop\<close>: two calls, one after the other. The code of the first is ignored: when it is not success
  the registration stays in force.
\<close>

datatype drop_action = Unregister | Free_Sender

definition watcher_drop_calls :: "drop_action list" where
  "watcher_drop_calls = [Unregister, Free_Sender]"

fun drop_call :: "'n config_manager \<Rightarrow> 'n device_watcher \<Rightarrow> drop_action \<Rightarrow> ('n watch_state, rstr, unit) op" where
  "drop_call cm dw Unregister s =
     (Ok (), if CM_Unregister_Notification cm (ws_registered s) (dw_handle dw) = CR_SUCCESS
             then s\<lparr>ws_registered := filter (\<lambda>(h, _). dw_handle dw \<noteq> h) (ws_registered s)\<rparr> else s)"
| "drop_call cm dw Free_Sender s =
     (if dw_sender_ptr dw \<in> set (ws_boxes s)
      then (Ok (), s\<lparr>ws_boxes := removeAll (dw_sender_ptr dw) (ws_boxes s)\<rparr>)
      else (Panic, s))"

text \<open>The whole drop, when nothing comes between.\<close>

fun run_drop_calls :: "'n config_manager \<Rightarrow> 'n device_watcher \<Rightarrow> drop_action list \<Rightarrow> ('n watch_state, rstr, unit) op" where
  "run_drop_calls cm dw [] = return_op ()"
| "run_drop_calls cm dw (call # calls) = bind_op (drop_call cm dw call) (\<lambda>_. run_drop_calls cm dw calls)"

definition watcher_drop :: "'n config_manager \<Rightarrow> 'n device_watcher \<Rightarrow> ('n watch_state, rstr, unit) op" where
  "watcher_drop cm dw = run_drop_calls cm dw watcher_drop_calls"

section \<open>Live watchers\<close>

text \<open>The boxes and the registrations are those of the live watchers, each once.\<close>

definition watch_ok :: "'n watch_state \<Rightarrow> 'n device_watcher list \<Rightarrow> bool" where
  "watch_ok s ds \<longleftrightarrow>
     ws_boxes s = map dw_sender_ptr ds \<and> distinct (map dw_sender_ptr ds) \<and> 0 \<notin> set (map dw_sender_ptr ds) \<and>
     ws_registered s = map (\<lambda>d. (dw_handle d, dw_sender_ptr d)) ds \<and> distinct (map dw_handle ds)"

lemma watcher_new_ok:
  assumes "cm_laws cm" and "watch_ok s ds"
  shows "watcher_new cm s = (Ok d, t) \<Longrightarrow> watch_ok t (d # ds)"
    and "watcher_new cm s = (Err e, t) \<Longrightarrow> t = s"
proof -
  define p where "p = box_address cm (ws_boxes s)"
  have fresh: "p \<noteq> 0" "p \<notin> set (ws_boxes s)"
    using assms(1) by (simp_all add: p_def cm_laws_def)
  obtain code h where reg: "CM_Register_Notification cm (ws_registered s) disk_filter p = (code, h)"
    by fastforce
  have "h \<notin> fst ` set (ws_registered s)" if "code = CR_SUCCESS"
    using reg that assms(1) unfolding cm_laws_def by blast
  then show "watcher_new cm s = (Ok d, t) \<Longrightarrow> watch_ok t (d # ds)"
    using assms(2) fresh by (auto simp: watcher_new_def Let_def p_def [symmetric] reg watch_ok_def image_image split: if_splits)
  show "watcher_new cm s = (Err e, t) \<Longrightarrow> t = s"
    using fresh by (auto simp: watcher_new_def Let_def p_def [symmetric] reg split: if_splits)
qed

lemma filter_other_keys: "distinct (map f xs) \<Longrightarrow> x \<in> set xs \<Longrightarrow> filter (\<lambda>y. f x \<noteq> f y) xs = remove1 x xs"
proof (induction xs)
  case (Cons y xs)
  show ?case
  proof (cases "x = y")
    case True
    with Cons.prems(1) have "filter (\<lambda>y. f x \<noteq> f y) xs = xs"
      unfolding filter_id_conv by (simp add: True) (metis imageI)
    with True show ?thesis
      by simp
  next
    case False
    with Cons.prems have "f x \<noteq> f y"
      by simp (metis imageI)
    with False Cons show ?thesis
      by simp
  qed
qed simp

text \<open>The laws in a form for rules.\<close>

lemma cm_lawsD:
  assumes "cm_laws cm"
  shows "box_address cm used \<noteq> 0" and "box_address cm used \<notin> set used"
    and "CM_Register_Notification cm regs flt ctx = (CR_SUCCESS, h) \<Longrightarrow> h \<notin> fst ` set regs"
    and "h \<in> fst ` set regs \<Longrightarrow> CM_Unregister_Notification cm regs h = CR_SUCCESS"
  using assms unfolding cm_laws_def by blast+

lemma watcher_drop_ok:
  assumes "cm_laws cm" and "watch_ok s ds" and "d \<in> set ds"
  shows "\<exists>t. watcher_drop cm d s = (Ok (), t) \<and> watch_ok t (remove1 d ds)"
proof -
  define t where "t = s\<lparr>ws_registered := filter (\<lambda>(h, _). dw_handle d \<noteq> h) (ws_registered s),
    ws_boxes := removeAll (dw_sender_ptr d) (ws_boxes s)\<rparr>"
  have ok: "distinct (map dw_handle ds)" "distinct (map dw_sender_ptr ds)" "distinct ds"
    using assms(2) by (simp_all add: watch_ok_def distinct_map)
  have sub: "set (remove1 d ds) \<subseteq> set ds"
    by (rule set_remove1_subset)
  have "ws_boxes t = map dw_sender_ptr (remove1 d ds)"
    using assms(2,3) by (simp add: watch_ok_def t_def removeAll_filter_not_eq filter_map o_def filter_other_keys [OF ok(2)])
  moreover have "ws_registered t = map (\<lambda>d. (dw_handle d, dw_sender_ptr d)) (remove1 d ds)"
    using assms(2,3) by (simp add: watch_ok_def t_def filter_map o_def filter_other_keys [OF ok(1)])
  ultimately have "watch_ok t (remove1 d ds)"
    using assms(2) ok sub by (auto simp: watch_ok_def distinct_map intro: inj_on_subset)
  moreover have "CM_Unregister_Notification cm (ws_registered s) (dw_handle d) = CR_SUCCESS"
    using assms(2,3) by (intro cm_lawsD(4) [OF assms(1)]) (auto simp: watch_ok_def image_image)
  then have "watcher_drop cm d s = (Ok (), t)"
    using assms(2,3) by (simp add: watcher_drop_def watcher_drop_calls_def watch_ok_def t_def)
  ultimately show ?thesis
    by blast
qed

lemma callback_ok:
  assumes "watch_ok s ds" and "(h, ctx) \<in> set (ws_registered s)"
  shows "watcher_callback ctx action s =
    (Ok 0, s\<lparr>ws_channel := ws_channel s @ (case event_of_action action of Some e \<Rightarrow> [e] | None \<Rightarrow> [])\<rparr>)"
  using assms by (auto simp: watch_ok_def watcher_callback_def split: option.splits)

lemma watch_ok_channel [simp]: "watch_ok (s\<lparr>ws_channel := q\<rparr>) ds = watch_ok s ds"
  by (simp add: watch_ok_def)

section \<open>Memory safety\<close>

text \<open>
  The states with the watchers that are live, the drops under way with the calls they have yet to
  make, and the callbacks under way. A callback may be entered for any registration in force, and
  runs at any later time, on whatever is there then. \<open>CM_Unregister_Notification\<close> succeeds only once no
  callback of its registration is under way, and enters none after; any other call of a drop waits
  for nothing.
\<close>

inductive watch_reachable :: "'n config_manager \<Rightarrow> 'n watch_state \<Rightarrow> 'n device_watcher multiset \<Rightarrow>
    ('n device_watcher \<times> drop_action list) multiset \<Rightarrow> ('n \<times> nat \<times> cm_notify_action) multiset \<Rightarrow> bool"
  for cm :: "'n config_manager"
where
  none: "watch_reachable cm empty_watch_state {#} {#} {#}"
| created: "watch_reachable cm s ds drops calls \<Longrightarrow> watcher_new cm s = (Ok d, t) \<Longrightarrow>
    watch_reachable cm t (add_mset d ds) drops calls"
| refused: "watch_reachable cm s ds drops calls \<Longrightarrow> watcher_new cm s = (Err e, t) \<Longrightarrow> watch_reachable cm t ds drops calls"
| entered: "watch_reachable cm s ds drops calls \<Longrightarrow> (h, ctx) \<in> set (ws_registered s) \<Longrightarrow>
    watch_reachable cm s ds drops (add_mset (h, ctx, action) calls)"
| ran: "watch_reachable cm s ds drops (add_mset (h, ctx, action) calls) \<Longrightarrow> watcher_callback ctx action s = (r, t) \<Longrightarrow>
    watch_reachable cm t ds drops calls"
| received: "watch_reachable cm s ds drops calls \<Longrightarrow> watch_reachable cm (s\<lparr>ws_channel := q\<rparr>) ds drops calls"
| dropping: "watch_reachable cm s (add_mset d ds) drops calls \<Longrightarrow>
    watch_reachable cm s ds (add_mset (d, watcher_drop_calls) drops) calls"
| drop_goes_on: "watch_reachable cm s ds (add_mset (d, a # as) drops) calls \<Longrightarrow>
    (a = Unregister \<and> CM_Unregister_Notification cm (ws_registered s) (dw_handle d) = CR_SUCCESS \<Longrightarrow>
      dw_handle d \<notin># image_mset fst calls) \<Longrightarrow>
    drop_call cm d a s = (r', t) \<Longrightarrow> watch_reachable cm t ds (add_mset (d, as) drops) calls"
| drop_ends: "watch_reachable cm s ds (add_mset (d, []) drops) calls \<Longrightarrow> watch_reachable cm s ds drops calls"

text \<open>The watchers whose sender is still to be freed, and those still registered.\<close>

definition boxed :: "'n device_watcher multiset \<Rightarrow> ('n device_watcher \<times> drop_action list) multiset \<Rightarrow> 'n device_watcher multiset" where
  "boxed ds drops = ds + image_mset fst (filter_mset (\<lambda>(d, as). Free_Sender \<in> set as) drops)"

definition registered :: "'n device_watcher multiset \<Rightarrow> ('n device_watcher \<times> drop_action list) multiset \<Rightarrow> 'n device_watcher multiset" where
  "registered ds drops = ds + image_mset fst (filter_mset (\<lambda>(d, as). Unregister \<in> set as) drops)"

definition watch_inv :: "'n watch_state \<Rightarrow> 'n device_watcher multiset \<Rightarrow> ('n device_watcher \<times> drop_action list) multiset \<Rightarrow>
    ('n \<times> nat \<times> cm_notify_action) multiset \<Rightarrow> bool" where
  "watch_inv s ds drops calls \<longleftrightarrow>
     mset (ws_boxes s) = image_mset dw_sender_ptr (boxed ds drops) \<and> distinct (ws_boxes s) \<and> 0 \<notin> set (ws_boxes s) \<and>
     mset (ws_registered s) = image_mset (\<lambda>d. (dw_handle d, dw_sender_ptr d)) (registered ds drops) \<and>
     distinct (map fst (ws_registered s)) \<and>
     (\<forall>(d, as) \<in># drops. as \<in> {[Unregister, Free_Sender], [Free_Sender], []}) \<and>
     (\<forall>(h, ctx, action) \<in># calls. (h, ctx) \<in> set (ws_registered s))"

lemma registered_boxed:
  assumes "\<forall>(d, as) \<in># drops. as \<in> {[Unregister, Free_Sender], [Free_Sender], []}"
  shows "d \<in># registered ds drops \<Longrightarrow> d \<in># boxed ds drops"
  using assms by (fastforce simp: registered_def boxed_def)

lemma inv_callback:
  assumes "watch_inv s ds drops calls" and "(h, ctx) \<in> set (ws_registered s)"
  shows "watcher_callback ctx action s =
    (Ok 0, s\<lparr>ws_channel := ws_channel s @ (case event_of_action action of Some e \<Rightarrow> [e] | None \<Rightarrow> [])\<rparr>)"
proof -
  have "(h, ctx) \<in># image_mset (\<lambda>d. (dw_handle d, dw_sender_ptr d)) (registered ds drops)"
    using assms unfolding watch_inv_def by (metis set_mset_mset)
  then obtain d where d: "d \<in># registered ds drops" "ctx = dw_sender_ptr d"
    by auto
  then have "ctx \<in># image_mset dw_sender_ptr (boxed ds drops)"
    using registered_boxed [of drops d ds] assms(1) by (auto simp: watch_inv_def)
  then have "ctx \<in> set (ws_boxes s)"
    using assms(1) unfolding watch_inv_def by (metis set_mset_mset)
  then show ?thesis
    using assms(1) by (auto simp: watch_inv_def watcher_callback_def split: option.splits)
qed

lemma mset_filter_key:
  "distinct (map fst xs) \<Longrightarrow> (k, v) \<in> set xs \<Longrightarrow> mset (filter (\<lambda>(h, _). k \<noteq> h) xs) = mset xs - {#(k, v)#}"
proof (induction xs)
  case (Cons x xs)
  show ?case
  proof (cases "x = (k, v)")
    case True
    have "filter (\<lambda>(h, _). k \<noteq> h) xs = xs"
      using Cons.prems(1) True by (auto simp: filter_id_conv image_iff)
    with True show ?thesis
      by simp
  next
    case False
    then have "fst x \<noteq> k"
      using Cons.prems by (auto simp: image_iff)
    with False Cons show ?thesis
      by (auto simp: case_prod_unfold)
  qed
qed simp

lemma drop_call_inv:
  assumes "cm_laws cm" and "watch_inv s ds (add_mset (d, a # as) drops) calls" and "drop_call cm d a s = (r, t)"
    and wait: "a = Unregister \<and> CM_Unregister_Notification cm (ws_registered s) (dw_handle d) = CR_SUCCESS \<Longrightarrow>
      dw_handle d \<notin># image_mset fst calls"
  shows "r = Ok ()" and "watch_inv t ds (add_mset (d, as) drops) calls"
proof -
  note inv = assms(2) [unfolded watch_inv_def]
  consider (unregister) "a = Unregister" "as = [Free_Sender]" | (free) "a = Free_Sender" "as = []"
    using inv by auto
  then have "r = Ok () \<and> watch_inv t ds (add_mset (d, as) drops) calls"
  proof cases
    case unregister
    have "(dw_handle d, dw_sender_ptr d) \<in># mset (ws_registered s)"
      using inv unregister by (simp add: registered_def)
    then have reg: "(dw_handle d, dw_sender_ptr d) \<in> set (ws_registered s)"
      by simp
    then have "dw_handle d \<in> fst ` set (ws_registered s)"
      by force
    then have success: "CM_Unregister_Notification cm (ws_registered s) (dw_handle d) = CR_SUCCESS"
      by (rule cm_lawsD(4) [OF assms(1)])
    then have t: "r = Ok ()" "t = s\<lparr>ws_registered := filter (\<lambda>(h, _). dw_handle d \<noteq> h) (ws_registered s)\<rparr>"
      using assms(3) unregister by auto
    have "mset (ws_registered t) = image_mset (\<lambda>d. (dw_handle d, dw_sender_ptr d)) (registered ds (add_mset (d, as) drops))"
      using inv unregister mset_filter_key [OF _ reg] by (simp add: t registered_def)
    moreover have "distinct (map fst (ws_registered t))"
      using inv by (simp add: t distinct_map_filter)
    moreover have "\<forall>(h, ctx, action) \<in># calls. (h, ctx) \<in> set (ws_registered t)"
      using inv wait unregister success by (force simp: t)
    ultimately show ?thesis
      using inv unregister t(1) by (simp add: watch_inv_def t(2) boxed_def)
  next
    case free
    have "dw_sender_ptr d \<in># mset (ws_boxes s)"
      using inv free by (simp add: boxed_def)
    then have t: "r = Ok ()" "t = s\<lparr>ws_boxes := removeAll (dw_sender_ptr d) (ws_boxes s)\<rparr>"
      using assms(3) free by auto
    have "mset (ws_boxes t) = image_mset dw_sender_ptr (boxed ds (add_mset (d, as) drops))"
      using inv free by (simp add: t boxed_def flip: distinct_remove1_removeAll)
    then show ?thesis
      using inv free t(1) by (simp add: watch_inv_def t(2) registered_def distinct_removeAll)
  qed
  then show "r = Ok ()" "watch_inv t ds (add_mset (d, as) drops) calls"
    by simp_all
qed

lemma watcher_new_inv:
  assumes "cm_laws cm" and "watch_inv s ds drops calls"
  shows "watcher_new cm s = (Ok d, t) \<Longrightarrow> watch_inv t (add_mset d ds) drops calls"
    and "watcher_new cm s = (Err e, t) \<Longrightarrow> t = s"
proof -
  define p where "p = box_address cm (ws_boxes s)"
  have fresh: "p \<noteq> 0" "p \<notin> set (ws_boxes s)"
    using cm_lawsD(1,2) [OF assms(1)] by (simp_all add: p_def)
  obtain code h where reg: "CM_Register_Notification cm (ws_registered s) disk_filter p = (code, h)"
    by fastforce
  have new: "h \<notin> fst ` set (ws_registered s)" if "code = CR_SUCCESS"
    using cm_lawsD(3) [OF assms(1)] reg that by blast
  show "watch_inv t (add_mset d ds) drops calls" if "watcher_new cm s = (Ok d, t)"
  proof -
    have "code = CR_SUCCESS" "d = \<lparr>dw_handle = h, dw_sender_ptr = p\<rparr>"
      "t = s\<lparr>ws_boxes := p # ws_boxes s, ws_registered := (h, p) # ws_registered s\<rparr>"
      using that by (auto simp: watcher_new_def Let_def p_def [symmetric] reg split: if_splits)
    then show ?thesis
      using assms(2) fresh new by (auto simp: watch_inv_def boxed_def registered_def)
  qed
  show "watcher_new cm s = (Err e, t) \<Longrightarrow> t = s"
    using fresh by (auto simp: watcher_new_def Let_def p_def [symmetric] reg split: if_splits)
qed

lemma reachable_inv:
  assumes "watch_reachable cm s ds drops calls" and "cm_laws cm"
  shows "watch_inv s ds drops calls"
  using assms(1)
proof induction
  case none
  show ?case
    by (simp add: watch_inv_def empty_watch_state_def boxed_def registered_def)
next
  case (created s ds drops calls d t)
  then show ?case
    using watcher_new_inv(1) [OF assms(2)] by blast
next
  case (refused s ds drops calls e t)
  then show ?case
    using watcher_new_inv(2) [OF assms(2)] by blast
next
  case (ran s ds drops h ctx action calls r t)
  then have "t = s\<lparr>ws_channel := ws_channel t\<rparr>"
    using inv_callback [OF ran.IH, of h ctx action] by (auto simp: watch_inv_def)
  moreover have "watch_inv (s\<lparr>ws_channel := ws_channel t\<rparr>) ds drops calls"
    using ran.IH by (simp add: watch_inv_def)
  ultimately show ?case
    by metis
next
  case (dropping s d ds drops calls)
  then show ?case
    by (simp add: watch_inv_def boxed_def registered_def watcher_drop_calls_def)
next
  case (drop_goes_on s ds d a as drops calls r' t)
  then show ?case
    using drop_call_inv(2) [OF assms(2) drop_goes_on.IH drop_goes_on.hyps(3)] by blast
qed (auto simp: watch_inv_def boxed_def registered_def)

text \<open>
  C11: a notification never runs on a freed sender, and no sender is freed twice or leaked: whatever
  watchers were created, refused and dropped, with callbacks entered and run at any time, also
  between the two calls of a drop, every callback under way, and any that comes, finds its sender
  alive, returns 0 and queues exactly the event of its action; a drop that goes on to free its
  sender finds it alive; and once no watcher is left no box and no registration is. This takes that
  the drop unregisters before it frees, and the assumption that unregistering a registration in force
  succeeds: the code ignores the result, and \<open>failed_unregister_frees_sender\<close> shows what a failure does.
\<close>

theorem watcher_memory_safe:
  assumes "cm_laws cm" and "watch_reachable cm s ds drops calls"
  shows "(\<forall>(h, ctx, action) \<in># calls. watcher_callback ctx action s =
      (Ok 0, s\<lparr>ws_channel := ws_channel s @ (case event_of_action action of Some e \<Rightarrow> [e] | None \<Rightarrow> [])\<rparr>))
    \<and> (\<forall>(h, ctx) \<in> set (ws_registered s). \<forall>action. watcher_callback ctx action s =
      (Ok 0, s\<lparr>ws_channel := ws_channel s @ (case event_of_action action of Some e \<Rightarrow> [e] | None \<Rightarrow> [])\<rparr>))
    \<and> (\<forall>(d, as) \<in># drops. \<forall>bs. as = Free_Sender # bs \<longrightarrow> fst (drop_call cm d Free_Sender s) = Ok ())
    \<and> (ds = {#} \<and> drops = {#} \<longrightarrow> ws_boxes s = [] \<and> ws_registered s = [])"
proof -
  note inv = reachable_inv [OF assms(2,1)]
  have "fst (drop_call cm d Free_Sender s) = Ok ()" if drop: "(d, Free_Sender # bs) \<in># drops" for d bs
  proof -
    obtain rest where "drops = add_mset (d, Free_Sender # bs) rest"
      using drop by (metis insert_DiffM)
    then have "watch_inv s ds (add_mset (d, Free_Sender # bs) rest) calls"
      using inv by simp
    from drop_call_inv(1) [OF assms(1) this surjective_pairing] show ?thesis
      by simp
  qed
  moreover have "ws_boxes s = [] \<and> ws_registered s = []" if "ds = {#}" "drops = {#}"
    using inv that by (simp add: watch_inv_def boxed_def registered_def)
  moreover have "\<forall>(h, ctx, action) \<in># calls. (h, ctx) \<in> set (ws_registered s)"
    using inv by (simp add: watch_inv_def)
  ultimately show ?thesis
    using inv_callback [OF inv] by (auto simp del: drop_call.simps)
qed

text \<open>
  Without the law for unregistering the drop is not safe, since it ignores the code: a failed
  unregistration leaves the callback registered on the freed sender.
\<close>

lemma failed_unregister_frees_sender:
  assumes "CM_Unregister_Notification cm [(h, p)] h \<noteq> CR_SUCCESS" and "p \<noteq> 0"
  shows "\<exists>t. watcher_drop cm \<lparr>dw_handle = h, dw_sender_ptr = p\<rparr>
      \<lparr>ws_boxes = [p], ws_registered = [(h, p)], ws_channel = []\<rparr> = (Ok (), t)
    \<and> (h, p) \<in> set (ws_registered t) \<and> watcher_callback p action t = (Panic, t)"
  using assms by (simp add: watcher_drop_def watcher_drop_calls_def watcher_callback_def)

text \<open>A configuration manager that numbers boxes and registrations.\<close>

definition counting_manager :: "nat config_manager" where
  "counting_manager = \<lparr>box_address = (\<lambda>used. Suc (sum_list used)),
     CM_Register_Notification = (\<lambda>regs _ _. (CR_SUCCESS, Suc (sum_list (map fst regs)))),
     CM_Unregister_Notification = (\<lambda>regs h. if h \<in> fst ` set regs then CR_SUCCESS else 1)\<rparr>"

lemma counting_manager_laws: "cm_laws counting_manager"
proof -
  have "Suc (sum_list xs) \<notin> set xs" for xs :: "nat list"
    by (auto dest: member_le_sum_list)
  from this [of "map fst regs" for regs :: "(nat \<times> nat) list"] this show ?thesis
    by (simp add: cm_laws_def counting_manager_def)
qed

lemma counting_watcher_new:
  "watcher_new counting_manager empty_watch_state =
     (Ok \<lparr>dw_handle = 1, dw_sender_ptr = 1\<rparr>, \<lparr>ws_boxes = [1], ws_registered = [(1, 1)], ws_channel = []\<rparr>)"
  by (simp add: watcher_new_def empty_watch_state_def counting_manager_def Let_def)

text \<open>A removal comes in while the watcher is about to be dropped; after it the drop frees the sender.\<close>

theorem watcher_memory_safe_witness:
  "let d = \<lparr>dw_handle = 1, dw_sender_ptr = 1\<rparr>; s = \<lparr>ws_boxes = [1], ws_registered = [(1 :: nat, 1)], ws_channel = []\<rparr> in
     watch_reachable counting_manager s {#} {#(d, watcher_drop_calls)#}
       {#(1, 1, CM_NOTIFY_ACTION_DEVICEINTERFACEREMOVAL)#}
     \<and> watcher_callback 1 CM_NOTIFY_ACTION_DEVICEINTERFACEREMOVAL s = (Ok 0, s\<lparr>ws_channel := [Removed]\<rparr>)"
proof -
  define d :: "nat device_watcher" where "d = \<lparr>dw_handle = 1, dw_sender_ptr = 1\<rparr>"
  define s :: "nat watch_state" where "s = \<lparr>ws_boxes = [1], ws_registered = [(1, 1)], ws_channel = []\<rparr>"
  have "watch_reachable counting_manager s {#d#} {#} {#}"
    using watch_reachable.created [OF watch_reachable.none counting_watcher_new] by (simp add: d_def s_def)
  then have "watch_reachable counting_manager s {#} {#(d, watcher_drop_calls)#} {#}"
    using watch_reachable.dropping by blast
  then have reach: "watch_reachable counting_manager s {#} {#(d, watcher_drop_calls)#}
      {#(1, 1, CM_NOTIFY_ACTION_DEVICEINTERFACEREMOVAL)#}"
    by (rule watch_reachable.entered) (simp add: s_def)
  from watcher_memory_safe [OF counting_manager_laws this] reach show ?thesis
    by (simp add: Let_def d_def s_def)
qed

end
