(* ===== verification/Daemon.thy ===== *)
theory Daemon
  imports Mounts Watcher
begin

text \<open>
  The daemon of \<open>src/main.rs\<close>: the scan that mounts new partitions and unmounts removed ones, and the
  event loop around it, as one step per turn of the loop. Between two steps the world may change,
  notifications run, and the shutdown signal may arrive.
\<close>

section \<open>Scanning\<close>

text \<open>\<open>known_partitions\<close> is a hash set, here a finite set; a panic ends the loop.\<close>

fun mount_new :: "('s \<Rightarrow> nat list) \<Rightarrow> (apfs_partition \<Rightarrow> nat \<Rightarrow> ('s, 'e, unit) op) \<Rightarrow> apfs_partition list \<Rightarrow>
    (u32 \<times> u32) set \<Rightarrow> ('s, 'e, (u32 \<times> u32) set) op" where
  "mount_new letters mount [] known s = (Ok known, s)"
| "mount_new letters mount (p # ps) known s =
     (let key = partition_key p in
      if key \<notin> known then
        (case letters s of
           drive_letter # _ \<Rightarrow>
             (case mount p drive_letter s of
                (Ok _, s) \<Rightarrow> mount_new letters mount ps (insert key known) s
              | (Err e, s) \<Rightarrow> mount_new letters mount ps known s
              | (Panic, s) \<Rightarrow> (Panic, s)
              | (NoFuel, s) \<Rightarrow> (NoFuel, s))
         | [] \<Rightarrow> mount_new letters mount ps known s)
      else mount_new letters mount ps known s)"

fun unmount_removed :: "(u32 \<times> u32 \<Rightarrow> 's \<Rightarrow> 's) \<Rightarrow> (u32 \<times> u32) list \<Rightarrow> (u32 \<times> u32) set \<Rightarrow> 's \<Rightarrow> (u32 \<times> u32) set \<times> 's" where
  "unmount_removed unmount [] known s = (known, s)"
| "unmount_removed unmount (k # ks) known s = unmount_removed unmount ks (known - {k}) (unmount k s)"

definition scan_and_update :: "nat \<Rightarrow> ('w, 'h, 'c, 'host) host_system \<Rightarrow> (u32 \<times> u32) set \<Rightarrow>
    (('w, 'host) manager, any_error, (u32 \<times> u32) set) op" where
  "scan_and_update fuel sy known s =
     (case scan_apfs_partitions sy (mg_world s) of
        Ok partitions \<Rightarrow>
          let current = set (map partition_key partitions) in
          bind_op (mount_new (\<lambda>s. find_available_drive_letters sy (mg_world s)) (mount_partition fuel sy) partitions known)
            (\<lambda>known s.
              let removed = pair_order sy (known - current) in
              (case unmount_removed (unmount_partition sy) removed known s of (known, s) \<Rightarrow> (Ok known, s))) s
      | Err e \<Rightarrow> (Ok known, s)
      | Panic \<Rightarrow> (Panic, s)
      | NoFuel \<Rightarrow> (NoFuel, s))"

section \<open>The event loop\<close>

record ('w, 'host, 'n) daemon =
  dm_manager :: "('w, 'host) manager"
  dm_known :: "(u32 \<times> u32) set"
  dm_watcher :: "'n device_watcher"
  dm_watch :: "'n watch_state"
  dm_shutdown :: nat \<comment> \<open>messages waiting in \<open>shutdown_rx\<close>\<close>

definition daemon_start :: "nat \<Rightarrow> ('w, 'h, 'c, 'host) host_system \<Rightarrow> 'n config_manager \<Rightarrow> nat \<Rightarrow>
    'w \<Rightarrow> (any_error, ('w, 'host, 'n) daemon) outcome \<times> 'w" where
  "daemon_start fuel sy cm shutdown w =
     (case watcher_new cm empty_watch_state of
        (Ok watcher, watch) \<Rightarrow>
          (case scan_and_update fuel sy {} (manager_new w) of
             (Ok known, s) \<Rightarrow>
               (Ok \<lparr>dm_manager = s, dm_known = known, dm_watcher = watcher, dm_watch = watch, dm_shutdown = shutdown\<rparr>,
                mg_world s)
           | (Err e, s) \<Rightarrow> (Err e, manager_drop sy s)
           | (Panic, s) \<Rightarrow> (Panic, manager_drop sy s)
           | (NoFuel, s) \<Rightarrow> (NoFuel, mg_world s))
      | (Err e, watch) \<Rightarrow> (Err (Any_Message e), w)
      | (Panic, watch) \<Rightarrow> (Panic, w)
      | (NoFuel, watch) \<Rightarrow> (NoFuel, w))"

definition rescan :: "nat \<Rightarrow> ('w, 'h, 'c, 'host) host_system \<Rightarrow> (('w, 'host, 'n) daemon, any_error, bool) op" where
  "rescan fuel sy d =
     (case scan_and_update fuel sy (dm_known d) (dm_manager d) of
        (Ok known, s) \<Rightarrow> (Ok True, d\<lparr>dm_known := known, dm_manager := s\<rparr>)
      | (Err e, s) \<Rightarrow> (Err e, d\<lparr>dm_manager := s\<rparr>)
      | (Panic, s) \<Rightarrow> (Panic, d\<lparr>dm_manager := s\<rparr>)
      | (NoFuel, s) \<Rightarrow> (NoFuel, d\<lparr>dm_manager := s\<rparr>))"

text \<open>
  One turn of the loop; \<open>False\<close> is \<open>break\<close>. The receive operation is chosen when an event waits or
  when the channel is disconnected, which it is once the watcher's sender is freed; after 100 ms
  without either, the default branch looks for the shutdown signal.
\<close>

definition daemon_turn :: "nat \<Rightarrow> ('w, 'h, 'c, 'host) host_system \<Rightarrow> (('w, 'host, 'n) daemon, any_error, bool) op" where
  "daemon_turn fuel sy d =
     (case ws_channel (dm_watch d) of
        event # waiting \<Rightarrow>
          let d = d\<lparr>dm_watch := (dm_watch d)\<lparr>ws_channel := waiting\<rparr>\<rparr> in
          (case event of Added \<Rightarrow> rescan fuel sy d | Removed \<Rightarrow> rescan fuel sy d)
      | [] \<Rightarrow>
          if dw_sender_ptr (dm_watcher d) \<notin> set (ws_boxes (dm_watch d)) then (Ok False, d)
          else if dm_shutdown d > 0 then (Ok False, d\<lparr>dm_shutdown := dm_shutdown d - 1\<rparr>)
          else (Ok True, d))"

text \<open>Leaving the function drops the watcher, then the manager.\<close>

definition daemon_exit :: "('w, 'h, 'c, 'host) host_system \<Rightarrow> 'n config_manager \<Rightarrow> ('w, 'host, 'n) daemon \<Rightarrow> 'w \<times> 'n watch_state" where
  "daemon_exit sy cm d = (manager_drop sy (dm_manager d), snd (watcher_drop cm (dm_watcher d) (dm_watch d)))"

text \<open>The loop on its own, with as much fuel as turns.\<close>

fun daemon_loop :: "nat \<Rightarrow> nat \<Rightarrow> ('w, 'h, 'c, 'host) host_system \<Rightarrow> 'n config_manager \<Rightarrow> ('w, 'host, 'n) daemon \<Rightarrow>
    (any_error, 'w \<times> 'n watch_state) outcome" where
  "daemon_loop 0 fuel sy cm d = NoFuel"
| "daemon_loop (Suc turns) fuel sy cm d =
     (case daemon_turn fuel sy d of
        (Ok continue, d) \<Rightarrow> if continue then daemon_loop turns fuel sy cm d else Ok (daemon_exit sy cm d)
      | (Err e, d) \<Rightarrow> Err e
      | (Panic, d) \<Rightarrow> Panic
      | (NoFuel, d) \<Rightarrow> NoFuel)"

text \<open>The states at the top of the loop. \<open>env\<close> says how the world may change meanwhile.\<close>

inductive daemon_reachable :: "nat \<Rightarrow> ('w, 'h, 'c, 'host) host_system \<Rightarrow> 'n config_manager \<Rightarrow> ('w \<Rightarrow> 'w \<Rightarrow> bool) \<Rightarrow>
    'w \<Rightarrow> ('w, 'host, 'n) daemon \<Rightarrow> bool"
  for fuel :: nat and sy :: "('w, 'h, 'c, 'host) host_system" and cm :: "'n config_manager"
    and env :: "'w \<Rightarrow> 'w \<Rightarrow> bool" and w0 :: 'w
where
  started: "daemon_start fuel sy cm shutdown w0 = (Ok d, w) \<Longrightarrow> daemon_reachable fuel sy cm env w0 d"
| world: "daemon_reachable fuel sy cm env w0 d \<Longrightarrow> env (mg_world (dm_manager d)) w \<Longrightarrow>
    daemon_reachable fuel sy cm env w0 (d\<lparr>dm_manager := (dm_manager d)\<lparr>mg_world := w\<rparr>\<rparr>)"
| notified: "daemon_reachable fuel sy cm env w0 d \<Longrightarrow> (h, ctx) \<in> set (ws_registered (dm_watch d)) \<Longrightarrow>
    watcher_callback ctx action (dm_watch d) = (r, watch) \<Longrightarrow>
    daemon_reachable fuel sy cm env w0 (d\<lparr>dm_watch := watch\<rparr>)"
| signalled: "daemon_reachable fuel sy cm env w0 d \<Longrightarrow>
    daemon_reachable fuel sy cm env w0 (d\<lparr>dm_shutdown := Suc (dm_shutdown d)\<rparr>)"
| turned: "daemon_reachable fuel sy cm env w0 d \<Longrightarrow> daemon_turn fuel sy d = (Ok True, d') \<Longrightarrow>
    daemon_reachable fuel sy cm env w0 d'"

text \<open>
  A whole run, with what happens meanwhile given as a script: changes of the world, notifications,
  shutdown signals and turns of the loop. A script that ends before the loop leaves it running.
\<close>

datatype 'w happening = World_Change "'w \<Rightarrow> 'w" | Notification cm_notify_action | Signal | Turn

definition daemon_happens :: "'w happening \<Rightarrow> ('w, 'host, 'n) daemon \<Rightarrow> ('w, 'host, 'n) daemon" where
  "daemon_happens h d = (case h of
       World_Change f \<Rightarrow> d\<lparr>dm_manager := (dm_manager d)\<lparr>mg_world := f (mg_world (dm_manager d))\<rparr>\<rparr>
     | Notification action \<Rightarrow>
         d\<lparr>dm_watch := snd (watcher_callback (dw_sender_ptr (dm_watcher d)) action (dm_watch d))\<rparr>
     | Signal \<Rightarrow> d\<lparr>dm_shutdown := Suc (dm_shutdown d)\<rparr>
     | Turn \<Rightarrow> d)"

fun daemon_script :: "nat \<Rightarrow> ('w, 'h, 'c, 'host) host_system \<Rightarrow> 'n config_manager \<Rightarrow> 'w happening list \<Rightarrow> ('w, 'host, 'n) daemon \<Rightarrow>
    (any_error, unit) outcome \<times> 'w" where
  "daemon_script fuel sy cm [] d = (NoFuel, mg_world (dm_manager d))"
| "daemon_script fuel sy cm (Turn # hs) d =
     (case daemon_turn fuel sy d of
        (Ok continue, d) \<Rightarrow> if continue then daemon_script fuel sy cm hs d else (Ok (), fst (daemon_exit sy cm d))
      | (Err e, d) \<Rightarrow> (Err e, fst (daemon_exit sy cm d))
      | (Panic, d) \<Rightarrow> (Panic, fst (daemon_exit sy cm d))
      | (NoFuel, d) \<Rightarrow> (NoFuel, mg_world (dm_manager d)))"
| "daemon_script fuel sy cm (h # hs) d = daemon_script fuel sy cm hs (daemon_happens h d)"

definition run_daemon_internal :: "nat \<Rightarrow> ('w, 'h, 'c, 'host) host_system \<Rightarrow> 'n config_manager \<Rightarrow> 'w happening list \<Rightarrow>
    nat \<Rightarrow> ('w, any_error, unit) op" where
  "run_daemon_internal fuel sy cm script shutdown w =
     (case daemon_start fuel sy cm shutdown w of
        (Ok d, w) \<Rightarrow> daemon_script fuel sy cm script d
      | (Err e, w) \<Rightarrow> (Err e, w)
      | (Panic, w) \<Rightarrow> (Panic, w)
      | (NoFuel, w) \<Rightarrow> (NoFuel, w))"

section \<open>The scan over the table's interface\<close>

context mount_table begin

lemma mount_new_mounted:
  assumes "mount_new letters mount ps known s = (Ok known', t)" and "known = mounted s"
  shows "known' = mounted t \<and> known \<subseteq> known' \<and> known' \<subseteq> known \<union> partition_key ` set ps \<and>
    (\<forall>k \<in> known. volume t k = volume s k)"
  using assms
proof (induction ps arbitrary: known s)
  case (Cons p ps)
  show ?case
  proof (cases "partition_key p \<in> known \<or> letters s = []")
    case True
    then have "mount_new letters mount ps known s = (Ok known', t)"
      using Cons.prems(1) by (auto simp: Let_def split: list.splits)
    from Cons.IH [OF this Cons.prems(2)] show ?thesis
      by auto
  next
    case False
    then obtain l ls where new: "partition_key p \<notin> known" "letters s = l # ls"
      by (auto simp: neq_Nil_conv)
    obtain r u where mount: "mount p l s = (r, u)"
      by fastforce
    show ?thesis
    proof (cases r)
      case (Ok x)
      then have m: "mount p l s = (Ok (), u)"
        using mount by simp
      have "mount_new letters mount ps (insert (partition_key p) known) u = (Ok known', t)"
        using Cons.prems(1) new m by (simp add: Let_def)
      note IH = Cons.IH [OF this]
      have u: "insert (partition_key p) known = mounted u"
        using mounted_mount [OF m] Cons.prems(2) by simp
      have keeps: "volume u k = volume s k" if "k \<in> known" for k
        using mount_keeps [OF m] new(1) that by metis
      show ?thesis
      proof (intro conjI ballI)
        fix k
        assume "k \<in> known"
        then show "volume t k = volume s k"
          using IH [OF u] keeps by (metis insertI2)
      qed (use IH [OF u] in auto)
    next
      case (Err e)
      have "mount_new letters mount ps known u = (Ok known', t)"
        using Cons.prems(1) new mount Err by (simp add: Let_def)
      moreover have "volume u = volume s"
        using mount_fails mount Err by blast
      ultimately show ?thesis
        using Cons.IH [of known u] Cons.prems(2) by (auto simp: mounted_def)
    qed (use Cons.prems(1) new mount in \<open>simp_all add: Let_def\<close>)
  qed
qed simp

lemma unmount_removed_mounted:
  "unmount_removed unmount ks known s = (known', t) \<Longrightarrow>
     known' = known - set ks \<and> mounted t = mounted s - set ks \<and> (\<forall>k. k \<notin> set ks \<longrightarrow> volume t k = volume s k)"
proof (induction ks arbitrary: known s)
  case (Cons k ks)
  from Cons.IH [of "known - {k}" "unmount k s"] Cons.prems show ?case
    by (auto simp: mounted_unmount unmounted)
qed simp

lemma update_mounted:
  assumes "mount_new letters mount ps known s = (Ok known1, s1)" and "known = mounted s"
    and "set ks = known1 - partition_key ` set ps"
    and "unmount_removed unmount ks known1 s1 = (known2, s2)"
  shows "known2 = mounted s2 \<and> known2 \<subseteq> partition_key ` set ps \<and> known \<inter> partition_key ` set ps \<subseteq> known2 \<and>
    (\<forall>k \<in> known \<inter> partition_key ` set ps. volume s2 k = volume s k)"
proof (intro conjI ballI)
  note new = mount_new_mounted [OF assms(1,2)] and gone = unmount_removed_mounted [OF assms(4)]
  show "known2 = mounted s2" "known2 \<subseteq> partition_key ` set ps" "known \<inter> partition_key ` set ps \<subseteq> known2"
    using new gone assms(3) by auto
  fix k
  assume k: "k \<in> known \<inter> partition_key ` set ps"
  then have "k \<notin> set ks"
    using assms(3) by blast
  then have "volume s2 k = volume s1 k"
    using gone by blast
  also have "\<dots> = volume s k"
    using new k by blast
  finally show "volume s2 k = volume s k" .
qed

lemma mount_new_all:
  assumes "\<And>s. letters s \<noteq> []" and "\<And>p l s. p \<in> set ps \<Longrightarrow> \<exists>t. mount p l s = (Ok (), t)"
  shows "\<exists>known' t. mount_new letters mount ps known s = (Ok known', t) \<and> known \<union> partition_key ` set ps \<subseteq> known'"
  using assms(2)
proof (induction ps arbitrary: known s)
  case (Cons p ps)
  obtain l ls where l: "letters s = l # ls"
    using assms(1) by (meson neq_Nil_conv)
  obtain t where t: "mount p l s = (Ok (), t)"
    using Cons.prems by fastforce
  show ?case
    using Cons.IH [of known s] Cons.IH [of "insert (partition_key p) known" t] Cons.prems
    by (cases "partition_key p \<in> known") (auto simp: Let_def l t)
qed simp

end

end
