(* ===== verification/Daemon_Correct.thy ===== *)
theory Daemon_Correct
  imports Daemon
begin

text \<open>
  What holds at the top of the daemon's loop: the set of known partitions is the set of mounted ones,
  the hosts that live are those of the mount table, each under a drive letter of its own, and the
  shutdown signal ends the loop.
\<close>

section \<open>Invariants over the interface\<close>

context mount_table begin

lemma mount_new_invariant:
  assumes "mount_new letters mount ps known s = (r, t)" and "r \<noteq> NoFuel" and "known = mounted s" and "I s"
    and step: "\<And>p l ls s t. I s \<Longrightarrow> letters s = l # ls \<Longrightarrow> partition_key p \<notin> mounted s \<Longrightarrow>
      mount p l s = (Ok (), t) \<Longrightarrow> I t"
    and fail: "\<And>p l s r t. I s \<Longrightarrow> mount p l s = (r, t) \<Longrightarrow> r \<noteq> Ok () \<Longrightarrow> r \<noteq> NoFuel \<Longrightarrow> I t"
  shows "I t"
  using assms(1-4)
proof (induction ps arbitrary: known s)
  case (Cons p ps)
  show ?case
  proof (cases "partition_key p \<in> known \<or> letters s = []")
    case True
    then have "mount_new letters mount ps known s = (r, t)"
      using Cons.prems(1) by (auto simp: Let_def split: list.splits)
    with Cons show ?thesis
      by blast
  next
    case False
    then obtain l ls where new: "partition_key p \<notin> known" "letters s = l # ls"
      by (auto simp: neq_Nil_conv)
    obtain q u where mount: "mount p l s = (q, u)"
      by fastforce
    show ?thesis
    proof (cases q)
      case (Ok x)
      then have m: "mount p l s = (Ok (), u)"
        using mount by simp
      have "I u"
        using step [OF Cons.prems(4) new(2) _ m] new(1) Cons.prems(3) by blast
      moreover have "mount_new letters mount ps (insert (partition_key p) known) u = (r, t)"
        using Cons.prems(1) new m by (simp add: Let_def)
      moreover have "insert (partition_key p) known = mounted u"
        using mounted_mount [OF m] Cons.prems(3) by simp
      ultimately show ?thesis
        using Cons.IH Cons.prems(2) by blast
    next
      case (Err e)
      have "mount_new letters mount ps known u = (r, t)"
        using Cons.prems(1) new mount Err by (simp add: Let_def)
      moreover have "known = mounted u"
        using mount_fails mount Err Cons.prems(3) by (simp add: mounted_def)
      moreover have "I u"
        using fail [OF Cons.prems(4) mount] Err by simp
      ultimately show ?thesis
        using Cons.IH Cons.prems(2) by blast
    next
      case Panic
      then have "t = u"
        using Cons.prems(1) new mount by (simp add: Let_def)
      then show ?thesis
        using fail [OF Cons.prems(4) mount] Panic by simp
    next
      case NoFuel
      then show ?thesis
        using Cons.prems(1,2) new mount by (simp add: Let_def)
    qed
  qed
qed simp

lemma unmount_removed_invariant:
  assumes "unmount_removed unmount ks known s = (known', t)" and "I s" and "\<And>k s. I s \<Longrightarrow> I (unmount k s)"
  shows "I t"
  using assms(1,2) by (induction ks arbitrary: known s) (auto intro: assms(3))

end

section \<open>The tables\<close>

text \<open>The set of known partitions, and the keys of the table, are those of the mounted partitions.\<close>

definition tables_ok :: "(u32 \<times> u32) set \<Rightarrow> ('w, 'host) manager \<Rightarrow> bool" where
  "tables_ok known s \<longleftrightarrow>
     known = mt.mounted s \<and>
     (\<forall>k v. mg_mounts s k = Some v \<longrightarrow> k = mount_key (partition_key (mv_partition v)))"

definition keys_ok :: "('w, 'host) manager \<Rightarrow> bool" where
  "keys_ok s \<longleftrightarrow> (\<forall>k v. mg_mounts s k = Some v \<longrightarrow> k = mount_key (partition_key (mv_partition v)))"

lemma tables_ok_iff: "tables_ok known s \<longleftrightarrow> known = mt.mounted s \<and> keys_ok s"
  by (simp add: tables_ok_def keys_ok_def)

lemma tables_ok_new: "tables_ok {} (manager_new w)"
  by (simp add: tables_ok_def manager_new_def mt.mounted_def mounted_volume_at_def)

lemma tables_ok_dom: "tables_ok known s \<Longrightarrow> dom (mg_mounts s) = mount_key ` known"
  by (force simp: tables_ok_def mt.mounted_def mounted_volume_at_def)

lemma keys_ok_mount:
  "keys_ok s \<Longrightarrow> mount_partition fuel sy p l s = (Ok (), t) \<Longrightarrow> keys_ok t"
  "keys_ok s \<Longrightarrow> mount_partition fuel sy p l s = (r, t) \<Longrightarrow> r \<noteq> Ok () \<Longrightarrow> keys_ok t"
  using mount_partition_fails [of fuel sy p l s r t]
  by (auto simp: keys_ok_def mount_partition_Ok insert_mount_def split: if_splits)

lemma keys_ok_unmount: "keys_ok s \<Longrightarrow> keys_ok (unmount_partition sy k s)"
  by (simp add: keys_ok_def unmount_partition_def split: option.split)

lemma scan_and_update_failed:
  "scan_and_update fuel sy known s = (Ok known', t) \<Longrightarrow> \<nexists>ps. scan_apfs_partitions sy (mg_world s) = Ok ps \<Longrightarrow>
    known' = known \<and> t = s"
  by (auto simp: scan_and_update_def split: outcome.splits)

lemma scan_and_update_scanned:
  assumes "scan_and_update fuel sy known s = (Ok known', t)" and "scan_apfs_partitions sy (mg_world s) = Ok ps"
  obtains known1 s1 where
    "mount_new (\<lambda>s. find_available_drive_letters sy (mg_world s)) (mount_partition fuel sy) ps known s = (Ok known1, s1)"
    "unmount_removed (unmount_partition sy) (pair_order sy (known1 - partition_key ` set ps)) known1 s1 = (known', t)"
  using assms(1) unfolding scan_and_update_def assms(2) outcome.case Let_def bind_op_eq_Ok
  by (elim exE conjE) (rule that, assumption, simp split: prod.splits)

lemma keys_ok_mount_new:
  assumes "mount_new letters (mount_partition fuel sy) ps known s = (r, t)" and "r \<noteq> NoFuel"
    and "known = mt.mounted s" and "keys_ok s"
  shows "keys_ok t"
  by (rule mt.mount_new_invariant [where I = keys_ok, OF assms]) (rule keys_ok_mount; assumption)+

text \<open>What the mount loop and every unmount keep, a scan keeps, also one that panics.\<close>

lemma scan_and_update_invariant:
  assumes "scan_and_update fuel sy known s = (r, t)" and "r \<noteq> NoFuel" and "I s"
    and loop: "\<And>ps q u. mount_new (\<lambda>s. find_available_drive_letters sy (mg_world s)) (mount_partition fuel sy) ps known s =
      (q, u) \<Longrightarrow> q \<noteq> NoFuel \<Longrightarrow> I u"
    and removal: "\<And>k s. I s \<Longrightarrow> I (unmount_partition sy k s)"
  shows "I t"
proof (cases "scan_apfs_partitions sy (mg_world s)")
  case (Ok ps)
  obtain q u where mounts: "mount_new (\<lambda>s. find_available_drive_letters sy (mg_world s)) (mount_partition fuel sy) ps known s = (q, u)"
    by fastforce
  show ?thesis
  proof (cases q)
    case known1: (Ok known1)
    obtain known2 v where removed: "unmount_removed (unmount_partition sy)
        (pair_order sy (known1 - partition_key ` set ps)) known1 u = (known2, v)"
      by fastforce
    have "I u"
      using loop [OF mounts] known1 by simp
    then have "I v"
      by (rule mt.unmount_removed_invariant [where I = I, OF removed]) (rule removal)
    moreover have "t = v"
      using assms(1) Ok mounts known1 removed by (simp add: scan_and_update_def Let_def)
    ultimately show ?thesis
      by simp
  qed (use assms(1,2) Ok mounts loop [OF mounts] in \<open>simp_all add: scan_and_update_def Let_def\<close>)
qed (use assms(1-3) in \<open>simp_all add: scan_and_update_def\<close>)

lemma order_removed: "hash_laws sy \<Longrightarrow> set (pair_order sy A) = A"
  unfolding hash_laws_def by (meson finite)

lemma scan_and_update_step:
  assumes "scan_and_update fuel sy known s = (Ok known', t)" and "hash_laws sy" and "tables_ok known s"
    and "scan_apfs_partitions sy (mg_world s) = Ok ps"
  shows "tables_ok known' t" and "known' \<subseteq> partition_key ` set ps" and "known \<inter> partition_key ` set ps \<subseteq> known'"
    and "\<forall>k \<in> known \<inter> partition_key ` set ps. mounted_volume_at t k = mounted_volume_at s k"
proof -
  have known: "known = mt.mounted s" and keys: "keys_ok s"
    using assms(3) by (simp_all add: tables_ok_iff)
  obtain known1 s1 where run:
    "mount_new (\<lambda>s. find_available_drive_letters sy (mg_world s)) (mount_partition fuel sy) ps known s = (Ok known1, s1)"
    "unmount_removed (unmount_partition sy) (pair_order sy (known1 - partition_key ` set ps)) known1 s1 = (known', t)"
    by (rule scan_and_update_scanned [OF assms(1,4)])
  have "keys_ok s1"
    by (rule keys_ok_mount_new [OF run(1) _ known keys]) simp
  then have "keys_ok t"
    by (rule mt.unmount_removed_invariant [where I = keys_ok, OF run(2)]) (rule keys_ok_unmount)
  moreover note updated = mt.update_mounted [OF run(1) known order_removed [OF assms(2)] run(2)]
  ultimately show "tables_ok known' t"
    by (simp add: tables_ok_iff)
  show "known' \<subseteq> partition_key ` set ps" "known \<inter> partition_key ` set ps \<subseteq> known'"
    "\<forall>k \<in> known \<inter> partition_key ` set ps. mounted_volume_at t k = mounted_volume_at s k"
    using updated by blast+
qed

lemma scan_and_update_tables:
  assumes "scan_and_update fuel sy known s = (Ok known', t)" and "hash_laws sy" and "tables_ok known s"
  shows "tables_ok known' t"
  using scan_and_update_step(1) [OF assms] scan_and_update_failed [OF assms(1)] assms(3) by blast

section \<open>The hosts\<close>

text \<open>
  What WinFsp promises of its hosts: \<open>live\<close> are those that were created and not dropped, \<open>at\<close> gives
  the mount point of one. A letter whose root path does not exist is no live host's mount point, and
  what else happens in the world leaves the program's hosts alone.
\<close>

definition winfsp_laws :: "('w, 'h, 'c, 'host) host_system \<Rightarrow> ('w \<Rightarrow> 'host set) \<Rightarrow> ('w \<Rightarrow> 'host \<Rightarrow> rstr option) \<Rightarrow>
    ('w \<Rightarrow> 'w \<Rightarrow> bool) \<Rightarrow> bool" where
  "winfsp_laws sy live at env \<longleftrightarrow>
     (\<forall>vp driver w host w'. host_new sy vp driver w = (Ok host, w') \<longrightarrow>
        host \<notin> live w \<and> live w' = insert host (live w) \<and> at w' = (at w)(host := None)) \<and>
     (\<forall>vp driver w r w'. host_new sy vp driver w = (r, w') \<longrightarrow> (\<forall>x. r \<noteq> Ok x) \<longrightarrow> live w' = live w \<and> at w' = at w) \<and>
     (\<forall>host mp w u w'. host_mount sy host mp w = (Ok u, w') \<longrightarrow> live w' = live w \<and> at w' = (at w)(host := Some mp)) \<and>
     (\<forall>host mp w r w'. host_mount sy host mp w = (r, w') \<longrightarrow> (\<forall>x. r \<noteq> Ok x) \<longrightarrow> live w' = live w \<and> at w' = at w) \<and>
     (\<forall>host w u w'. host_start sy host w = (Ok u, w') \<longrightarrow> live w' = live w \<and> at w' = at w) \<and>
     (\<forall>host w r w'. host_start sy host w = (r, w') \<longrightarrow> (\<forall>x. r \<noteq> Ok x) \<longrightarrow> live w' = live w \<and> at w' = at w) \<and>
     (\<forall>host w. live (host_drop sy host w) = live w - {host} \<and> at (host_drop sy host w) = (at w)(host := None)) \<and>
     (\<forall>w l host. GetDriveTypeW sy w (root_path l) = 1 \<longrightarrow> host \<in> live w \<longrightarrow> at w host \<noteq> Some (letter_mount_point l)) \<and>
     (\<forall>w w'. env w w' \<longrightarrow> live w' = live w \<and> at w' = at w)"

lemma winfsp_lawsD:
  assumes "winfsp_laws sy live at env"
  shows "host_new sy vp driver w = (Ok host, w') \<Longrightarrow>
      host \<notin> live w \<and> live w' = insert host (live w) \<and> at w' = (at w)(host := None)"
    and "host_new sy vp driver w = (q, w') \<Longrightarrow> \<forall>x. q \<noteq> Ok x \<Longrightarrow> live w' = live w \<and> at w' = at w"
    and "host_mount sy host mp w = (Ok u, w') \<Longrightarrow> live w' = live w \<and> at w' = (at w)(host := Some mp)"
    and "host_mount sy host mp w = (r, w') \<Longrightarrow> \<forall>x. r \<noteq> Ok x \<Longrightarrow> live w' = live w \<and> at w' = at w"
    and "host_start sy host w = (Ok u, w') \<Longrightarrow> live w' = live w \<and> at w' = at w"
    and "host_start sy host w = (r, w') \<Longrightarrow> \<forall>x. r \<noteq> Ok x \<Longrightarrow> live w' = live w \<and> at w' = at w"
    and "live (host_drop sy host w) = live w - {host}" and "at (host_drop sy host w) = (at w)(host := None)"
    and "GetDriveTypeW sy w (root_path l) = 1 \<Longrightarrow> host \<in> live w \<Longrightarrow> at w host \<noteq> Some (letter_mount_point l)"
    and "env w w' \<Longrightarrow> live w' = live w \<and> at w' = at w"
proof -
  note laws = assms [unfolded winfsp_laws_def]
  show "host_new sy vp driver w = (Ok host, w') \<Longrightarrow>
      host \<notin> live w \<and> live w' = insert host (live w) \<and> at w' = (at w)(host := None)"
    using laws [THEN conjunct1] by blast
  note laws = laws [THEN conjunct2]
  show "host_new sy vp driver w = (q, w') \<Longrightarrow> \<forall>x. q \<noteq> Ok x \<Longrightarrow> live w' = live w \<and> at w' = at w"
    using laws [THEN conjunct1] by blast
  note laws = laws [THEN conjunct2]
  show "host_mount sy host mp w = (Ok u, w') \<Longrightarrow> live w' = live w \<and> at w' = (at w)(host := Some mp)"
    using laws [THEN conjunct1] by blast
  note laws = laws [THEN conjunct2]
  show "host_mount sy host mp w = (r, w') \<Longrightarrow> \<forall>x. r \<noteq> Ok x \<Longrightarrow> live w' = live w \<and> at w' = at w"
    using laws [THEN conjunct1] by blast
  note laws = laws [THEN conjunct2]
  show "host_start sy host w = (Ok u, w') \<Longrightarrow> live w' = live w \<and> at w' = at w"
    using laws [THEN conjunct1] by blast
  note laws = laws [THEN conjunct2]
  show "host_start sy host w = (r, w') \<Longrightarrow> \<forall>x. r \<noteq> Ok x \<Longrightarrow> live w' = live w \<and> at w' = at w"
    using laws [THEN conjunct1] by blast
  note laws = laws [THEN conjunct2]
  show "live (host_drop sy host w) = live w - {host}" "at (host_drop sy host w) = (at w)(host := None)"
    using laws [THEN conjunct1] by blast+
  note laws = laws [THEN conjunct2]
  show "GetDriveTypeW sy w (root_path l) = 1 \<Longrightarrow> host \<in> live w \<Longrightarrow> at w host \<noteq> Some (letter_mount_point l)"
    using laws [THEN conjunct1] by blast
  show "env w w' \<Longrightarrow> live w' = live w \<and> at w' = at w"
    using laws [THEN conjunct2] by blast
qed

lemma dropping_eq_Ok: "dropping sy host m w = (Ok x, t) \<longleftrightarrow> m w = (Ok x, t)"
  by (auto simp: dropping_def split: prod.splits outcome.splits)

lemma start_host_Ok:
  assumes "winfsp_laws sy live at env" and "start_host sy driver mp w = (Ok host, w')"
  shows "host \<notin> live w" and "live w' = insert host (live w)" and "at w' = (at w)(host := Some mp)"
proof -
  obtain w1 w2 u1 u2 where run: "host_new sy apfs_volume_params driver w = (Ok host, w1)"
    "host_mount sy host mp w1 = (Ok u1, w2)" "host_start sy host w2 = (Ok u2, w')"
    using assms(2) unfolding start_host_def bind_op_eq_Ok map_err_op_eq_Ok dropping_eq_Ok by auto
  show "host \<notin> live w" "live w' = insert host (live w)" "at w' = (at w)(host := Some mp)"
    using winfsp_lawsD(1) [OF assms(1) run(1)] winfsp_lawsD(3) [OF assms(1) run(2)]
      winfsp_lawsD(5) [OF assms(1) run(3)] by simp_all
qed

text \<open>A mount that fails or panics leaves no host behind.\<close>

lemma start_host_fails:
  assumes "winfsp_laws sy live at env" and "start_host sy driver mp w = (r, w')" and "\<forall>h. r \<noteq> Ok h" and "r \<noteq> NoFuel"
  shows "live w' = live w" and "\<forall>host \<in> live w. at w' host = at w host"
proof -
  obtain q w1 where new: "host_new sy apfs_volume_params driver w = (q, w1)"
    by fastforce
  have "live w' = live w \<and> (\<forall>host \<in> live w. at w' host = at w host)"
  proof (cases "\<exists>host. q = Ok host")
    case False
    then have "w' = w1"
      using assms(2) new by (cases q) (auto simp: start_host_def)
    with False winfsp_lawsD(2) [OF assms(1) new] show ?thesis
      by simp
  next
    case True
    then obtain host where q: "q = Ok host"
      by blast
    obtain q2 w2 where mount: "host_mount sy host mp w1 = (q2, w2)"
      by fastforce
    obtain q3 w3 where start: "host_start sy host w2 = (q3, w3)"
      by fastforce
    note created = winfsp_lawsD(1) [OF assms(1) new [unfolded q]]
    have mounted: "live w2 = live w1 \<and> (\<forall>h. h \<noteq> host \<longrightarrow> at w2 h = at w1 h)"
      using winfsp_lawsD(3,4) [OF assms(1)] mount by (cases q2) fastforce+
    have started: "live w3 = live w2 \<and> at w3 = at w2"
      using winfsp_lawsD(5,6) [OF assms(1)] start by (cases q3) fastforce+
    have "w' = host_drop sy host w2 \<or> w' = host_drop sy host w3"
      using assms(2-4) new q mount start
      by (cases q2; cases q3) (auto simp: start_host_def dropping_def)
    then show ?thesis
      using created mounted started by (auto simp: winfsp_lawsD(7,8) [OF assms(1)])
  qed
  then show "live w' = live w" "\<forall>host \<in> live w. at w' host = at w host"
    by simp_all
qed

text \<open>
  The table and the hosts agree: the live hosts are those of the mounted volumes, no two volumes
  share a host or a letter, and each host is at its volume's letter.
\<close>

definition hosts_ok :: "('w \<Rightarrow> 'host set) \<Rightarrow> ('w \<Rightarrow> 'host \<Rightarrow> rstr option) \<Rightarrow> ('w, 'host) manager \<Rightarrow> bool" where
  "hosts_ok live at s \<longleftrightarrow>
     live (mg_world s) = mv_host ` ran (mg_mounts s) \<and>
     (\<forall>k v. mg_mounts s k = Some v \<longrightarrow>
        at (mg_world s) (mv_host v) = Some (letter_mount_point (mv_drive_letter v)) \<and>
        68 \<le> mv_drive_letter v \<and> mv_drive_letter v \<le> 90) \<and>
     (\<forall>k k' v v'. mg_mounts s k = Some v \<longrightarrow> mg_mounts s k' = Some v' \<longrightarrow>
        mv_host v = mv_host v' \<or> mv_drive_letter v = mv_drive_letter v' \<longrightarrow> k = k')"

lemma hosts_okD:
  assumes "hosts_ok live at s" and "mg_mounts s k = Some v"
  shows "mv_host v \<in> live (mg_world s)" and "at (mg_world s) (mv_host v) = Some (letter_mount_point (mv_drive_letter v))"
    and "68 \<le> mv_drive_letter v" and "mv_drive_letter v \<le> 90"
    and "mg_mounts s k' = Some v' \<Longrightarrow> mv_host v = mv_host v' \<or> mv_drive_letter v = mv_drive_letter v' \<Longrightarrow> k = k'"
  using assms by (auto simp: hosts_ok_def ranI)

lemma hosts_ok_world:
  assumes "hosts_ok live at s" and "live w = live (mg_world s)" and "\<forall>host \<in> live w. at w host = at (mg_world s) host"
  shows "hosts_ok live at (s\<lparr>mg_world := w\<rparr>)"
  using assms by (auto simp: hosts_ok_def ranI)

lemma hosts_ok_mount:
  assumes "winfsp_laws sy live at env" and "hosts_ok live at s"
    and "mg_mounts s (mount_key (partition_key p)) = None"
    and "l \<in> set (find_available_drive_letters sy (mg_world s))"
    and "mount_partition fuel sy p l s = (Ok (), t)"
  shows "hosts_ok live at t"
proof -
  obtain driver host w where run: "start_host sy driver (letter_mount_point l) (mg_world s) = (Ok host, w)"
    and t: "t = insert_mount sy (mount_key (partition_key p))
      \<lparr>mv_partition = p, mv_drive_letter = l, mv_host = host\<rparr> (s\<lparr>mg_world := w\<rparr>)"
    using assms(5) by (auto simp: mount_partition_Ok)
  note started = start_host_Ok [OF assms(1) run]
  define v where "v = \<lparr>mv_partition = p, mv_drive_letter = l, mv_host = host\<rparr>"
  have t': "mg_mounts t = (mg_mounts s)(mount_key (partition_key p) \<mapsto> v)" "mg_world t = w"
    using assms(3) by (simp_all add: t insert_mount_def v_def)
  have ran: "ran (mg_mounts t) = insert v (ran (mg_mounts s))"
    by (simp add: t' ran_map_upd [where m = "mg_mounts s", OF assms(3)])
  have l: "68 \<le> l" "l \<le> 90" "GetDriveTypeW sy (mg_world s) (root_path l) = 1"
    using assms(4) by (simp_all add: available_letters)
  have old: "mv_host u \<noteq> host \<and> mv_drive_letter u \<noteq> l \<and>
      at w (mv_host u) = Some (letter_mount_point (mv_drive_letter u)) \<and> 68 \<le> mv_drive_letter u \<and> mv_drive_letter u \<le> 90"
    if "mg_mounts s k = Some u" for k u
  proof -
    note u = hosts_okD [OF assms(2) that]
    have "mv_host u \<noteq> host"
      using u(1) started(1) by metis
    moreover have "mv_drive_letter u \<noteq> l"
      using winfsp_lawsD(9) [OF assms(1) l(3) u(1)] u(2) by auto
    ultimately show ?thesis
      using u(2-4) started(3) by simp
  qed
  have "live w = mv_host ` ran (mg_mounts t)"
    using assms(2) started(2) by (simp add: ran v_def hosts_ok_def)
  then show ?thesis
    using old hosts_okD(5) [OF assms(2)] l(1,2) started(3)
    by (auto simp: hosts_ok_def t' v_def split: if_splits) metis+
qed

lemma hosts_ok_mount_failed:
  assumes "winfsp_laws sy live at env" and "hosts_ok live at s" and "mount_partition fuel sy p l s = (r, t)"
    and "r \<noteq> Ok ()" and "r \<noteq> NoFuel"
  shows "hosts_ok live at t"
  using mount_partition_fails [OF assms(3,4)] start_host_fails [OF assms(1)] assms(2,5)
  by (auto intro!: hosts_ok_world)

lemma hosts_ok_unmount:
  assumes "winfsp_laws sy live at env" and "hosts_ok live at s"
  shows "hosts_ok live at (unmount_partition sy k s)"
proof (cases "mg_mounts s (mount_key k)")
  case (Some v)
  define m where "m = (mg_mounts s)(mount_key k := None)"
  define w where "w = host_drop sy (mv_host v) (mg_world s)"
  have m: "m j = Some u \<longleftrightarrow> mg_mounts s j = Some u \<and> mv_host u \<noteq> mv_host v" for j u
    using Some hosts_okD(5) [OF assms(2) Some, of j u] by (auto simp: m_def)
  then have "ran m = {u \<in> ran (mg_mounts s). mv_host u \<noteq> mv_host v}"
    by (auto simp: ran_def)
  then have live: "live w = mv_host ` ran m"
    using assms(2) by (auto simp: w_def winfsp_lawsD(7) [OF assms(1)] hosts_ok_def)
  have at: "m j = Some u \<Longrightarrow> at w (mv_host u) = at (mg_world s) (mv_host u)" for j u
    by (simp add: m w_def winfsp_lawsD(8) [OF assms(1)])
  have "hosts_ok live at (s\<lparr>mg_mounts := m, mg_world := w\<rparr>)"
    unfolding hosts_ok_def using live at hosts_okD(2-5) [OF assms(2)] m by (simp, metis)
  then show ?thesis
    by (simp add: unmount_partition_def Some m_def w_def)
qed (simp add: unmount_partition_def assms(2))

lemma hosts_ok_mount_new:
  assumes "winfsp_laws sy live at env" and "known = mt.mounted s" and "hosts_ok live at s"
    and "mount_new (\<lambda>s. find_available_drive_letters sy (mg_world s)) (mount_partition fuel sy) ps known s = (r, t)"
    and "r \<noteq> NoFuel"
  shows "hosts_ok live at t"
proof (rule mt.mount_new_invariant [where I = "hosts_ok live at", OF assms(4,5,2,3)])
  fix p l ls s t
  assume step: "hosts_ok live at s" "find_available_drive_letters sy (mg_world s) = l # ls" "partition_key p \<notin> mt.mounted s"
    "mount_partition fuel sy p l s = (Ok (), t)"
  show "hosts_ok live at t"
    by (rule hosts_ok_mount [OF assms(1) step(1) _ _ step(4)])
      (use step(2,3) in \<open>simp_all add: mt.mounted_def mounted_volume_at_def\<close>)
qed (rule hosts_ok_mount_failed [OF assms(1)])

lemma scan_and_update_hosts:
  assumes "winfsp_laws sy live at env" and "tables_ok known s" and "hosts_ok live at s"
    and "scan_and_update fuel sy known s = (r, t)" and "r \<noteq> NoFuel"
  shows "hosts_ok live at t"
proof (rule scan_and_update_invariant [where I = "hosts_ok live at", OF assms(4,5,3)])
  have "known = mt.mounted s"
    using assms(2) by (simp add: tables_ok_def)
  then show "hosts_ok live at u"
    if "mount_new (\<lambda>s. find_available_drive_letters sy (mg_world s)) (mount_partition fuel sy) ps known s = (q, u)" "q \<noteq> NoFuel"
    for ps q u
    by (rule hosts_ok_mount_new [OF assms(1) _ assms(3) that])
qed (rule hosts_ok_unmount [OF assms(1)])

lemma scan_and_update_keys:
  assumes "tables_ok known s" and "scan_and_update fuel sy known s = (r, t)" and "r \<noteq> NoFuel"
  shows "keys_ok t"
proof (rule scan_and_update_invariant [where I = keys_ok, OF assms(2,3)])
  show keys: "keys_ok s"
    using assms(1) by (simp add: tables_ok_iff)
  show "keys_ok u"
    if "mount_new (\<lambda>s. find_available_drive_letters sy (mg_world s)) (mount_partition fuel sy) ps known s = (q, u)" "q \<noteq> NoFuel"
    for ps q u
    by (rule keys_ok_mount_new [OF that _ keys]) (use assms(1) in \<open>simp add: tables_ok_def\<close>)
qed (rule keys_ok_unmount)

section \<open>The loop\<close>

lemma tables_ok_world [simp]: "tables_ok known (s\<lparr>mg_world := w\<rparr>) = tables_ok known s"
  by (simp add: tables_ok_def mt.mounted_def mounted_volume_at_def)

lemma daemon_start_Ok:
  assumes "daemon_start fuel sy cm shutdown w = (Ok d, w')"
  shows "watcher_new cm empty_watch_state = (Ok (dm_watcher d), dm_watch d)"
    and "scan_and_update fuel sy {} (manager_new w) = (Ok (dm_known d), dm_manager d)"
proof -
  obtain r watch where w: "watcher_new cm empty_watch_state = (r, watch)"
    by fastforce
  obtain q s where q: "scan_and_update fuel sy {} (manager_new w) = (q, s)"
    by fastforce
  show "watcher_new cm empty_watch_state = (Ok (dm_watcher d), dm_watch d)"
    "scan_and_update fuel sy {} (manager_new w) = (Ok (dm_known d), dm_manager d)"
    using assms by (auto simp: daemon_start_def w q split: outcome.splits)
qed

text \<open>A turn that goes on either finds nothing to do or handles the first event of the queue.\<close>

lemma daemon_turn_cases:
  assumes "daemon_turn fuel sy d = (Ok b, d')"
  obtains (idle) "ws_channel (dm_watch d) = []" "b" "d' = d"
  | (disconnected) "ws_channel (dm_watch d) = []" "\<not> b" "dw_sender_ptr (dm_watcher d) \<notin> set (ws_boxes (dm_watch d))"
  | (shutdown) "ws_channel (dm_watch d) = []" "\<not> b" "dm_shutdown d > 0" "d' = d\<lparr>dm_shutdown := dm_shutdown d - 1\<rparr>"
  | (event) ev q known t where "ws_channel (dm_watch d) = ev # q" "b"
      "scan_and_update fuel sy (dm_known d) (dm_manager d) = (Ok known, t)"
      "d' = d\<lparr>dm_watch := (dm_watch d)\<lparr>ws_channel := q\<rparr>, dm_known := known, dm_manager := t\<rparr>"
  using assms
  by (auto simp: daemon_turn_def rescan_def Let_def split: list.splits device_event.splits if_splits prod.splits outcome.splits)

lemma reachable_tables:
  assumes "daemon_reachable fuel sy cm env w0 d" and "hash_laws sy" and "cm_laws cm"
  shows "tables_ok (dm_known d) (dm_manager d) \<and> watch_ok (dm_watch d) [dm_watcher d]"
  using assms(1)
proof induction
  case (started shutdown d w)
  note new = daemon_start_Ok [OF started]
  have "watch_ok empty_watch_state []"
    by (simp add: watch_ok_def empty_watch_state_def)
  then show ?case
    using scan_and_update_tables [OF new(2) assms(2) tables_ok_new] watcher_new_ok(1) [OF assms(3) _ new(1)] by blast
next
  case (notified d h ctx action r watch)
  then show ?case
    using callback_ok [of "dm_watch d" "[dm_watcher d]" h ctx action] by auto
next
  case (turned d d')
  from turned.hyps(2) show ?case
  proof (cases rule: daemon_turn_cases)
    case (event ev q known t)
    then show ?thesis
      using turned.IH scan_and_update_tables [OF event(3) assms(2)] by simp
  qed (use turned.IH in simp_all)
qed simp_all

lemma reachable_hosts:
  assumes "daemon_reachable fuel sy cm env w0 d" and "hash_laws sy" and "cm_laws cm"
    and "winfsp_laws sy live at env" and "live w0 = {}"
  shows "hosts_ok live at (dm_manager d)"
  using assms(1)
proof induction
  case (started shutdown d w)
  have "hosts_ok live at (manager_new w0)"
    using assms(5) by (simp add: hosts_ok_def manager_new_def)
  then show ?case
    using scan_and_update_hosts [OF assms(4) tables_ok_new _ daemon_start_Ok(2) [OF started]] by simp
next
  case (world d w)
  then show ?case
    using winfsp_lawsD(10) [OF assms(4) world.hyps(2)] by (auto intro!: hosts_ok_world)
next
  case (turned d d')
  have tables: "tables_ok (dm_known d) (dm_manager d)"
    using reachable_tables [OF turned.hyps(1) assms(2,3)] by simp
  from turned.hyps(2) show ?case
  proof (cases rule: daemon_turn_cases)
    case (event ev q known t)
    then show ?thesis
      using scan_and_update_hosts [OF assms(4) tables turned.IH event(3)] by simp
  qed (use turned.IH in simp_all)
qed simp_all

lemma live_after_drops:
  assumes "winfsp_laws sy live at env"
  shows "live (fold (\<lambda>k. host_drop sy (f k)) ks w) = live w - f ` set ks"
  by (induction ks arbitrary: w) (auto simp: winfsp_lawsD(7) [OF assms])

lemma keys_ok_finite: "keys_ok s \<Longrightarrow> finite (dom (mg_mounts s))"
  by (rule finite_subset [of _ "range mount_key"]) (auto simp: keys_ok_def)

lemma exit_drops_all:
  assumes "winfsp_laws sy live at env" and "hash_laws sy" and "hosts_ok live at s" and "keys_ok s"
  shows "live (manager_drop sy s) = {}"
proof -
  have "set (key_order sy (dom (mg_mounts s))) = dom (mg_mounts s)"
    using assms(2) keys_ok_finite [OF assms(4)] by (simp add: hash_laws_def)
  moreover have "mv_host ` ran (mg_mounts s) = (\<lambda>k. mv_host (the (mg_mounts s k))) ` dom (mg_mounts s)"
    by (force simp: ran_def dom_def image_iff)
  ultimately show ?thesis
    using assms(3) by (simp add: manager_drop_def live_after_drops [OF assms(1)] hosts_ok_def)
qed

section \<open>Whole runs\<close>

text \<open>However a turn ends, the table and the hosts agree after it.\<close>

lemma turn_manager:
  assumes "daemon_turn fuel sy d = (r, d')" and "r \<noteq> NoFuel"
  obtains (same) "dm_manager d' = dm_manager d"
  | (scanned) q where "scan_and_update fuel sy (dm_known d) (dm_manager d) = (q, dm_manager d')" "q \<noteq> NoFuel"
  using assms
  by (auto simp: daemon_turn_def rescan_def Let_def split: list.splits device_event.splits if_splits prod.splits outcome.splits)

lemma turn_hosts:
  assumes "winfsp_laws sy live at env" and "tables_ok (dm_known d) (dm_manager d)" and "hosts_ok live at (dm_manager d)"
    and "daemon_turn fuel sy d = (r, d')" and "r \<noteq> NoFuel"
  shows "hosts_ok live at (dm_manager d') \<and> keys_ok (dm_manager d')"
  using assms(4,5)
proof (cases rule: turn_manager)
  case same
  then show ?thesis
    using assms(2,3) by (simp add: tables_ok_iff)
next
  case (scanned q)
  then show ?thesis
    using scan_and_update_hosts [OF assms(1-3) scanned] scan_and_update_keys [OF assms(2) scanned] by simp
qed

text \<open>What happens between turns is a step of the reachable states.\<close>

lemma happening_reachable:
  assumes "daemon_reachable fuel sy cm env w0 d" and "hash_laws sy" and "cm_laws cm"
    and "\<And>f. h = World_Change f \<Longrightarrow> env (mg_world (dm_manager d)) (f (mg_world (dm_manager d)))"
  shows "daemon_reachable fuel sy cm env w0 (daemon_happens h d)"
proof (cases h)
  case (World_Change f)
  then show ?thesis
    using daemon_reachable.world [OF assms(1) assms(4)] by (simp add: daemon_happens_def)
next
  case (Notification action)
  have "(dw_handle (dm_watcher d), dw_sender_ptr (dm_watcher d)) \<in> set (ws_registered (dm_watch d))"
    using reachable_tables [OF assms(1-3)] by (simp add: watch_ok_def)
  from daemon_reachable.notified [OF assms(1) this surjective_pairing] show ?thesis
    by (simp add: daemon_happens_def Notification)
next
  case Signal
  then show ?thesis
    using daemon_reachable.signalled [OF assms(1)] by (simp add: daemon_happens_def)
qed (use assms(1) in \<open>simp add: daemon_happens_def\<close>)

lemma script_leaves_nothing:
  assumes "hash_laws sy" and "cm_laws cm" and "winfsp_laws sy live at env" and "live w0 = {}"
    and "daemon_reachable fuel sy cm env w0 d" and "\<And>f w. World_Change f \<in> set script \<Longrightarrow> env w (f w)"
    and "daemon_script fuel sy cm script d = (r, w)" and "r \<noteq> NoFuel"
  shows "live w = {}"
  using assms(5-8)
proof (induction script arbitrary: d)
  case (Cons h script)
  show ?case
  proof (cases "h = Turn")
    case False
    then have "daemon_script fuel sy cm script (daemon_happens h d) = (r, w)"
      using Cons.prems(3) by (cases h) simp_all
    moreover have "daemon_reachable fuel sy cm env w0 (daemon_happens h d)"
      by (rule happening_reachable [OF Cons.prems(1) assms(1,2)]) (use Cons.prems(2) in simp)
    ultimately show ?thesis
      using Cons.IH Cons.prems(2,4) by simp
  next
    case True
    obtain q d' where turn: "daemon_turn fuel sy d = (q, d')"
      by fastforce
    show ?thesis
    proof (cases "q = Ok True \<or> q = NoFuel")
      case False
      then have "w = manager_drop sy (dm_manager d')"
        using Cons.prems(3,4) True turn by (cases q) (auto simp: daemon_exit_def)
      moreover have "hosts_ok live at (dm_manager d') \<and> keys_ok (dm_manager d')"
        using turn_hosts [OF assms(3) _ reachable_hosts [OF Cons.prems(1) assms(1-4)] turn]
          reachable_tables [OF Cons.prems(1) assms(1,2)] False by simp
      ultimately show ?thesis
        using exit_drops_all [OF assms(3,1)] by simp
    next
      case ends: True
      then have q: "q = Ok True"
        using Cons.prems(3,4) True turn by auto
      have "daemon_reachable fuel sy cm env w0 d'"
        by (rule daemon_reachable.turned [OF Cons.prems(1) turn [unfolded q]])
      moreover have "daemon_script fuel sy cm script d' = (r, w)"
        using Cons.prems(3) True turn q by simp
      ultimately show ?thesis
        using Cons.IH Cons.prems(2,4) by simp
    qed
  qed
qed simp

lemma start_leaves_nothing:
  assumes "hash_laws sy" and "winfsp_laws sy live at env" and "live w0 = {}"
    and "daemon_start fuel sy cm shutdown w0 = (r, w)" and "r \<noteq> NoFuel" and "\<forall>d. r \<noteq> Ok d"
  shows "live w = {}"
proof -
  obtain q watch where new: "watcher_new cm empty_watch_state = (q, watch)"
    by fastforce
  obtain p s where scan: "scan_and_update fuel sy {} (manager_new w0) = (p, s)"
    by fastforce
  have start: "hosts_ok live at (manager_new w0)"
    using assms(3) by (simp add: hosts_ok_def manager_new_def)
  have "w = w0 \<or> (p \<noteq> NoFuel \<and> w = manager_drop sy s)"
    using assms(4-6) new scan by (auto simp: daemon_start_def split: outcome.splits)
  then show ?thesis
    using exit_drops_all [OF assms(2,1) scan_and_update_hosts [OF assms(2) tables_ok_new start scan]
        scan_and_update_keys [OF tables_ok_new scan]] assms(3) by blast
qed

end
