(* ===== verification/Service.thy ===== *)
theory Service
  imports Daemon_Correct
begin

text \<open>
  \<open>src/service.rs\<close>: the Windows service around the daemon, its installation and its removal. The
  \<open>windows-service\<close> crate, the clock and WinFsp's initialisation are parameters; the statuses
  reported to the service control manager are kept in order.
\<close>

section \<open>Statuses and controls\<close>

datatype service_state = Stopped | Start_Pending | Running

datatype service_exit_code = Exit_Win32 u32 | Exit_Service_Specific u32

datatype service_type = OWN_PROCESS

record service_status =
  ss_service_type :: service_type
  ss_current_state :: service_state
  ss_accepts_stop :: bool
  ss_exit_code :: service_exit_code
  ss_checkpoint :: u32
  ss_wait_hint :: nat \<comment> \<open>milliseconds\<close>
  ss_process_id :: "u32 option"

datatype service_control = Control_Stop | Control_Interrogate | Control_Other u32

datatype handler_result = NoError | NotImplemented

text \<open>\<open>set_service_status\<close> may fail; \<open>winfsp_init_or_die\<close> ends the process when it does.\<close>

record 'w service_system =
  register_handler :: "('w, any_error, unit) op"
  winfsp_init :: "'w \<Rightarrow> bool \<times> 'w"
  winfsp_init_or_die :: "('w, any_error, unit) op"
  instant_now :: "'w \<Rightarrow> nat" \<comment> \<open>milliseconds\<close>
  sleep_ms :: "nat \<Rightarrow> 'w \<Rightarrow> 'w"
  set_service_status :: "service_status \<Rightarrow> ('w, any_error, unit) op"

definition WINFSP_WAIT_TIMEOUT :: nat where "WINFSP_WAIT_TIMEOUT = 60000"
definition WINFSP_POLL_INTERVAL :: nat where "WINFSP_POLL_INTERVAL = 500"

definition unavailable_status :: service_status where
  "unavailable_status = \<lparr>ss_service_type = OWN_PROCESS, ss_current_state = Stopped, ss_accepts_stop = False,
     ss_exit_code = Exit_Service_Specific 1, ss_checkpoint = 0, ss_wait_hint = 0, ss_process_id = None\<rparr>"

definition pending_status :: "u32 \<Rightarrow> service_status" where
  "pending_status checkpoint = \<lparr>ss_service_type = OWN_PROCESS, ss_current_state = Start_Pending, ss_accepts_stop = False,
     ss_exit_code = Exit_Win32 0, ss_checkpoint = checkpoint, ss_wait_hint = WINFSP_WAIT_TIMEOUT, ss_process_id = None\<rparr>"

definition running_status :: service_status where
  "running_status = \<lparr>ss_service_type = OWN_PROCESS, ss_current_state = Running, ss_accepts_stop = True,
     ss_exit_code = Exit_Win32 0, ss_checkpoint = 0, ss_wait_hint = 0, ss_process_id = None\<rparr>"

definition stopped_status :: service_status where
  "stopped_status = \<lparr>ss_service_type = OWN_PROCESS, ss_current_state = Stopped, ss_accepts_stop = False,
     ss_exit_code = Exit_Win32 0, ss_checkpoint = 0, ss_wait_hint = 0, ss_process_id = None\<rparr>"

text \<open>The control handler sends a shutdown message, or answers that it does not know the control.\<close>

definition service_event_handler :: "service_control \<Rightarrow> nat \<Rightarrow> handler_result \<times> nat" where
  "service_event_handler control messages =
     (case control of
        Control_Stop \<Rightarrow> (NoError, Suc messages)
      | Control_Interrogate \<Rightarrow> (NoError, Suc messages)
      | Control_Other _ \<Rightarrow> (NotImplemented, messages))"

section \<open>Running\<close>

text \<open>The state of a run: the world and the statuses set so far.\<close>

record 'w service_run =
  sr_world :: 'w
  sr_reported :: "service_status list"

definition in_world :: "('w, 'e, 'a) op \<Rightarrow> ('w service_run, 'e, 'a) op" where
  "in_world m s = (case m (sr_world s) of (r, w) \<Rightarrow> (r, s\<lparr>sr_world := w\<rparr>))"

definition report_status :: "'w service_system \<Rightarrow> service_status \<Rightarrow> ('w service_run, any_error, unit) op" where
  "report_status sv st s =
     (case set_service_status sv st (sr_world s) of
        (Ok _, w) \<Rightarrow> (Ok (), s\<lparr>sr_world := w, sr_reported := sr_reported s @ [st]\<rparr>)
      | (r, w) \<Rightarrow> (r, s\<lparr>sr_world := w\<rparr>))"

text \<open>The wait loop, with fuel: \<open>wait_bounded\<close> shows how much is enough.\<close>

fun wait_for_winfsp :: "nat \<Rightarrow> 'w service_system \<Rightarrow> nat \<Rightarrow> u32 \<Rightarrow> ('w service_run, any_error, unit) op" where
  "wait_for_winfsp 0 sv deadline checkpoint s = (NoFuel, s)"
| "wait_for_winfsp (Suc polls) sv deadline checkpoint s =
     (let (available, w) = winfsp_init sv (sr_world s); s = s\<lparr>sr_world := w\<rparr> in
      if available then (Ok (), s)
      else if instant_now sv (sr_world s) \<ge> deadline then
        bind_op (report_status sv unavailable_status) (\<lambda>_.
          lift_op (Err (Any_Message (lit ''WinFsp not available after 60s'')))) s
      else
        let checkpoint = checkpoint + 1 in
        bind_op (report_status sv (pending_status checkpoint)) (\<lambda>_ s.
          wait_for_winfsp polls sv deadline checkpoint
            (s\<lparr>sr_world := sleep_ms sv WINFSP_POLL_INTERVAL (sr_world s)\<rparr>)) s)"

text \<open>\<open>daemon\<close> is \<open>run_daemon_internal\<close>, which ends by what happens while it runs.\<close>

definition run_service :: "nat \<Rightarrow> 'w service_system \<Rightarrow> ('w, any_error, unit) op \<Rightarrow> ('w service_run, any_error, unit) op" where
  "run_service polls sv daemon =
     bind_op (in_world (register_handler sv)) (\<lambda>_ s.
       let deadline = instant_now sv (sr_world s) + WINFSP_WAIT_TIMEOUT in
       bind_op (wait_for_winfsp polls sv deadline 0) (\<lambda>_.
       bind_op (in_world (winfsp_init_or_die sv)) (\<lambda>_.
       bind_op (report_status sv running_status) (\<lambda>_.
       bind_op (in_world daemon) (\<lambda>_.
       report_status sv stopped_status)))) s)"

text \<open>\<open>service_main\<close> logs an error and returns.\<close>

definition service_main :: "nat \<Rightarrow> 'w service_system \<Rightarrow> ('w, any_error, unit) op \<Rightarrow> ('w service_run, any_error, unit) op" where
  "service_main polls sv daemon s =
     (case run_service polls sv daemon s of
        (Err e, s) \<Rightarrow> (Ok (), s)
      | r \<Rightarrow> r)"

section \<open>Installing and uninstalling\<close>

datatype service_start_type = AutoStart

datatype service_error_control = Error_Normal

record service_info =
  si_name :: rstr
  si_display_name :: rstr
  si_service_type :: service_type
  si_start_type :: service_start_type
  si_error_control :: service_error_control
  si_executable_path :: rstr
  si_launch_arguments :: "rstr list"
  si_dependencies :: "rstr list" \<comment> \<open>services\<close>
  si_account_name :: "rstr option"
  si_account_password :: "rstr option"

text \<open>
  The service manager, on its own state \<open>'m\<close>: each call is given the access rights the code asks for
  and acts on the service opened or created before it.
\<close>

datatype service_access = CHANGE_CONFIG | START_ACCESS | QUERY_STATUS | STOP_ACCESS | DELETE_ACCESS

record 'm service_manager =
  manager_connect :: "bool \<Rightarrow> ('m, any_error, unit) op" \<comment> \<open>whether services may be created\<close>
  current_exe :: "('m, any_error, rstr) op"
  create_service :: "service_info \<Rightarrow> service_access list \<Rightarrow> ('m, any_error, unit) op"
  set_description :: "rstr \<Rightarrow> ('m, any_error, unit) op"
  start_service :: "('m, any_error, unit) op"
  open_service :: "rstr \<Rightarrow> service_access list \<Rightarrow> ('m, any_error, unit) op"
  query_status :: "('m, any_error, service_state) op"
  stop_service :: "('m, any_error, unit) op"
  pause_ms :: "nat \<Rightarrow> 'm \<Rightarrow> 'm"
  delete_service :: "('m, any_error, unit) op"
  start_dispatcher :: "rstr \<Rightarrow> ('m, any_error, unit) op"

definition SERVICE_NAME :: rstr where "SERVICE_NAME = lit ''ARFW''"
definition SERVICE_DISPLAY_NAME :: rstr where
  "SERVICE_DISPLAY_NAME = lit ''APFS Read-only File System for Windows''"
definition SERVICE_DESCRIPTION :: rstr where
  "SERVICE_DESCRIPTION = lit ''Automatically mounts APFS partitions as read-only drives''"
definition WINFSP_LAUNCHER_SERVICE :: rstr where "WINFSP_LAUNCHER_SERVICE = lit ''WinFsp.Launcher''"

definition with_context :: "rstr \<Rightarrow> ('m, any_error, 'a) op \<Rightarrow> ('m, any_error, 'a) op" where
  "with_context msg = map_err_op (Any_Context msg)"

definition install_service :: "'m service_manager \<Rightarrow> ('m, any_error, unit) op" where
  "install_service sm =
     bind_op (manager_connect sm True) (\<lambda>_.
     bind_op (current_exe sm) (\<lambda>exe_path.
     bind_op (with_context (lit ''Failed to create service'') (create_service sm
         \<lparr>si_name = SERVICE_NAME, si_display_name = SERVICE_DISPLAY_NAME, si_service_type = OWN_PROCESS,
          si_start_type = AutoStart, si_error_control = Error_Normal, si_executable_path = exe_path, si_launch_arguments = [lit ''service''],
          si_dependencies = [WINFSP_LAUNCHER_SERVICE],
          si_account_name = None, si_account_password = None\<rparr> [CHANGE_CONFIG, START_ACCESS])) (\<lambda>_.
     bind_op (with_context (lit ''Failed to set service description'') (set_description sm SERVICE_DESCRIPTION)) (\<lambda>_.
     with_context (lit ''Failed to start service'') (start_service sm)))))"

definition uninstall_service :: "'m service_manager \<Rightarrow> ('m, any_error, unit) op" where
  "uninstall_service sm =
     bind_op (manager_connect sm False) (\<lambda>_.
     bind_op (with_context (lit ''Failed to open service'')
         (open_service sm SERVICE_NAME [QUERY_STATUS, STOP_ACCESS, DELETE_ACCESS])) (\<lambda>_.
     bind_op (query_status sm) (\<lambda>current_state.
     bind_op
       (if current_state \<noteq> Stopped then
          bind_op (with_context (lit ''Failed to stop service'') (stop_service sm)) (\<lambda>_ s. (Ok (), pause_ms sm 2000 s))
        else return_op ()) (\<lambda>_.
     with_context (lit ''Failed to delete service'') (delete_service sm)))))"

definition run_service_dispatcher :: "'m service_manager \<Rightarrow> ('m, any_error, unit) op" where
  "run_service_dispatcher sm =
     with_context (lit ''Failed to start service dispatcher'') (start_dispatcher sm SERVICE_NAME)"

section \<open>The wait for WinFsp\<close>

text \<open>
  Time does not run backwards and a sleep lasts at least as long as asked; the calls return.
\<close>

definition clock_laws :: "'w service_system \<Rightarrow> bool" where
  "clock_laws sv \<longleftrightarrow>
     (\<forall>w. instant_now sv w \<le> instant_now sv (snd (winfsp_init sv w))) \<and>
     (\<forall>ms w. instant_now sv w + ms \<le> instant_now sv (sleep_ms sv ms w)) \<and>
     (\<forall>st w. instant_now sv w \<le> instant_now sv (snd (set_service_status sv st w)) \<and>
        fst (set_service_status sv st w) \<noteq> NoFuel)"

lemma clock_lawsD:
  assumes "clock_laws sv"
  shows "instant_now sv w \<le> instant_now sv (snd (winfsp_init sv w))"
    and "instant_now sv w + ms \<le> instant_now sv (sleep_ms sv ms w)"
    and "instant_now sv w \<le> instant_now sv (snd (set_service_status sv st w))"
    and "fst (set_service_status sv st w) \<noteq> NoFuel"
  using assms unfolding clock_laws_def by blast+

lemma bind_op_stops:
  assumes "bind_op m f s = (r, u)" and "m s = (q, t)" and "q \<noteq> Ok ()" and "q \<noteq> NoFuel"
  shows "(r :: ('e, unit) outcome) = q \<and> u = t"
  using assms by (cases q) auto

lemma report_status_cases:
  assumes "report_status sv st s = (r, t)"
  obtains (reported) "r = Ok ()" "t = s\<lparr>sr_world := snd (set_service_status sv st (sr_world s)),
      sr_reported := sr_reported s @ [st]\<rparr>"
  | (failed) "r \<noteq> Ok ()" "set_service_status sv st (sr_world s) = (r, sr_world t)" "sr_reported t = sr_reported s"
  using assms by (cases "set_service_status sv st (sr_world s)"; cases "fst (set_service_status sv st (sr_world s))")
    (auto simp: report_status_def)

text \<open>
  How the wait ends: WinFsp has answered; or the deadline has passed, and the unavailable status was
  the last report; or a report failed, and the wait ends with its error and reports no more.
\<close>

definition wait_ended :: "'w service_system \<Rightarrow> nat \<Rightarrow> (any_error, unit) outcome \<Rightarrow> 'w service_run \<Rightarrow>
    service_status list \<Rightarrow> bool" where
  "wait_ended sv deadline r t final \<longleftrightarrow>
     r = Ok () \<and> final = [] \<and> (\<exists>w. winfsp_init sv w = (True, sr_world t)) \<or>
     r = Err (Any_Message (lit ''WinFsp not available after 60s'')) \<and> final = [unavailable_status] \<and>
       deadline \<le> instant_now sv (sr_world t) \<or>
     r \<noteq> Ok () \<and> final = [] \<and> (\<exists>st w. set_service_status sv st w = (r, sr_world t))"

lemma wait_ended_final: "wait_ended sv deadline r t final \<Longrightarrow> final \<in> {[], [unavailable_status]} \<and> (r = Ok () \<longrightarrow> final = [])"
  by (auto simp: wait_ended_def)

text \<open>
  Every round that goes on moves the clock by a poll interval, so the rounds left are at most the time
  left over the interval; the statuses are the pending ones with their checkpoints counted up.
\<close>

lemma wait_last:
  assumes "clock_laws sv" and "wait_for_winfsp (Suc polls) sv deadline c s = (r, t)"
    and "winfsp_init sv (sr_world s) = (available, w)" and "available \<or> instant_now sv w \<ge> deadline"
  shows "r \<noteq> NoFuel \<and> (\<exists>final. sr_reported t = sr_reported s @ final \<and> wait_ended sv deadline r t final)"
proof (cases available)
  case False
  define s1 where "s1 = s\<lparr>sr_world := w\<rparr>"
  obtain r1 t1 where rep: "report_status sv unavailable_status s1 = (r1, t1)"
    by fastforce
  have stopped: "bind_op (report_status sv unavailable_status)
      (\<lambda>_. lift_op (Err (Any_Message (lit ''WinFsp not available after 60s'')))) s1 = (r, t)"
    using assms(2-4) False by (simp add: s1_def Let_def)
  from rep show ?thesis
  proof (cases rule: report_status_cases)
    case reported
    have "deadline \<le> instant_now sv w"
      using assms(4) False by simp
    also have "\<dots> \<le> instant_now sv (sr_world t1)"
      using clock_lawsD(3) [OF assms(1), of w] reported(2) by (simp add: s1_def)
    finally show ?thesis
      using stopped rep reported by (auto simp: s1_def wait_ended_def)
  next
    case failed
    have returns: "r1 \<noteq> NoFuel"
      using failed(2) clock_lawsD(4) [OF assms(1), of unavailable_status w] by (simp add: s1_def)
    note ends = bind_op_stops [where m = "report_status sv unavailable_status", OF stopped rep failed(1) returns]
    show ?thesis
      using failed returns ends by (intro conjI exI [of _ "[]"]) (auto simp: s1_def wait_ended_def)
  qed
qed (use assms(2,3) in \<open>auto simp: wait_ended_def\<close>)

lemma wait_step:
  assumes "clock_laws sv" and "wait_for_winfsp (Suc polls) sv deadline c s = (r, t)"
    and "deadline \<le> instant_now sv (sr_world s) + WINFSP_POLL_INTERVAL * polls"
  shows "r \<noteq> NoFuel \<and> (\<exists>k \<le> polls. \<exists>final. sr_reported t = sr_reported s @
      map (\<lambda>i. pending_status (c + word_of_nat (Suc i))) [0..<k] @ final \<and> wait_ended sv deadline r t final)"
  using assms(2,3)
proof (induction polls arbitrary: c s)
  case 0
  obtain available w where init: "winfsp_init sv (sr_world s) = (available, w)"
    by fastforce
  then have "deadline \<le> instant_now sv w"
    using clock_lawsD(1) [OF assms(1), of "sr_world s"] 0(2) by simp
  then show ?case
    using wait_last [OF assms(1) 0(1) init] by auto
next
  case (Suc polls)
  obtain available w where init: "winfsp_init sv (sr_world s) = (available, w)"
    by fastforce
  have now: "instant_now sv (sr_world s) \<le> instant_now sv w"
    using clock_lawsD(1) [OF assms(1), of "sr_world s"] by (simp add: init)
  define s1 where "s1 = s\<lparr>sr_world := w\<rparr>"
  show ?case
  proof (cases "available \<or> instant_now sv w \<ge> deadline")
    case True
    then show ?thesis
      using wait_last [OF assms(1) Suc.prems(1) init] by auto
  next
    case False
    then have pending: "\<not> available" "instant_now sv w < deadline"
      by simp_all
    obtain r1 t1 where rep: "report_status sv (pending_status (c + 1)) s1 = (r1, t1)"
      by fastforce
    from rep show ?thesis
    proof (cases rule: report_status_cases)
      case failed
      have returns: "r1 \<noteq> NoFuel"
        using failed(2) clock_lawsD(4) [OF assms(1), of "pending_status (c + 1)" w] by (simp add: s1_def)
      have stopped: "bind_op (report_status sv (pending_status (c + 1))) (\<lambda>_ s.
          wait_for_winfsp (Suc polls) sv deadline (c + 1)
            (s\<lparr>sr_world := sleep_ms sv WINFSP_POLL_INTERVAL (sr_world s)\<rparr>)) s1 = (r, t)"
        using Suc.prems(1) pending init by (simp add: s1_def Let_def)
      note ends = bind_op_stops [where m = "report_status sv (pending_status (c + 1))", OF stopped rep failed(1) returns]
      show ?thesis
        using failed returns ends by (intro conjI exI [of _ "0 :: nat"] exI [of _ "[]"]) (auto simp: s1_def wait_ended_def)
    next
      case reported
      define s2 where "s2 = t1\<lparr>sr_world := sleep_ms sv WINFSP_POLL_INTERVAL (sr_world t1)\<rparr>"
      have run: "wait_for_winfsp (Suc polls) sv deadline (c + 1) s2 = (r, t)"
        using Suc.prems(1) pending init rep reported(1) by (simp add: s1_def s2_def Let_def)
      have "instant_now sv w \<le> instant_now sv (sr_world t1)"
        using clock_lawsD(3) [OF assms(1), of w] reported(2) by (simp add: s1_def)
      also have "\<dots> + WINFSP_POLL_INTERVAL \<le> instant_now sv (sr_world s2)"
        using clock_lawsD(2) [OF assms(1)] by (simp add: s2_def)
      finally have "deadline \<le> instant_now sv (sr_world s2) + WINFSP_POLL_INTERVAL * polls"
        using Suc.prems(2) now by simp
      from Suc.IH [OF run this] obtain k final where IH: "r \<noteq> NoFuel" "k \<le> polls" "wait_ended sv deadline r t final"
        "sr_reported t = sr_reported s2 @ map (\<lambda>i. pending_status (c + 1 + word_of_nat (Suc i))) [0..<k] @ final"
        by blast
      have "map (\<lambda>i. pending_status (c + word_of_nat (Suc i))) [0..<Suc k] =
          pending_status (c + 1) # map (\<lambda>i. pending_status (c + 1 + word_of_nat (Suc i))) [0..<k]"
        by (simp only: upt_conv_Cons map_Suc_upt [symmetric] list.map map_map o_def zero_less_Suc)
          (simp add: add.assoc)
      moreover have "sr_reported s2 = sr_reported s @ [pending_status (c + 1)]"
        by (simp add: s2_def reported(2) s1_def)
      ultimately show ?thesis
        using IH by (intro conjI exI [of _ "Suc k"] exI [of _ final]) auto
    qed
  qed
qed

text \<open>The timeout is 120 poll intervals, so that 121 rounds are enough.\<close>

lemma wait_bounded:
  assumes "clock_laws sv"
    and "wait_for_winfsp 121 sv (instant_now sv (sr_world s) + WINFSP_WAIT_TIMEOUT) 0 s = (r, t)"
  shows "r \<noteq> NoFuel \<and> (\<exists>k \<le> 120. \<exists>final. sr_reported t = sr_reported s @
      map (\<lambda>i. pending_status (word_of_nat (Suc i))) [0..<k] @ final
      \<and> wait_ended sv (instant_now sv (sr_world s) + WINFSP_WAIT_TIMEOUT) r t final)"
proof -
  have "(121 :: nat) = Suc 120"
    by simp
  then have run: "wait_for_winfsp (Suc 120) sv (instant_now sv (sr_world s) + WINFSP_WAIT_TIMEOUT) 0 s = (r, t)"
    using assms(2) by (simp only:)
  have "instant_now sv (sr_world s) + WINFSP_WAIT_TIMEOUT \<le> instant_now sv (sr_world s) + WINFSP_POLL_INTERVAL * 120"
    by (simp add: WINFSP_WAIT_TIMEOUT_def WINFSP_POLL_INTERVAL_def)
  from wait_step [OF assms(1) run this] show ?thesis
    unfolding add_0 .
qed

end
