(* ===== verification/Daemon_Mounts.thy ===== *)
theory Daemon_Mounts
  imports Daemon_Correct
begin

text \<open>
  The properties of the daemon: \<open>src/main.rs\<close> with \<open>src/mount_manager.rs\<close>,
  \<open>src/device_monitor.rs\<close> and \<open>src/device_watcher.rs\<close>.
\<close>

section \<open>The tables agree\<close>

text \<open>
  C5: at the top of the loop, after any scans, notifications and changes of the world, the set of known
  partitions is exactly the set of mounted ones: the table's keys are those of the known partitions,
  each volume is stored under the key of its own partition, and the manager answers
  \<open>is_mounted\<close> for the known partitions and no other.
\<close>

theorem daemon_tracks_mounts:
  assumes "hash_laws sy" and "cm_laws cm" and "daemon_reachable fuel sy cm env w0 d"
  shows "dom (mg_mounts (dm_manager d)) = mount_key ` dm_known d
    \<and> (\<forall>k v. mg_mounts (dm_manager d) k = Some v \<longrightarrow> k = mount_key (partition_key (mv_partition v)))
    \<and> (\<forall>key. is_mounted key (dm_manager d) \<longleftrightarrow> key \<in> dm_known d)"
proof -
  have tables: "tables_ok (dm_known d) (dm_manager d)"
    using reachable_tables [OF assms(3,1,2)] by simp
  show ?thesis
    using tables tables_ok_dom [OF tables]
    by (auto simp: tables_ok_def mt.mounted_def mounted_volume_at_def is_mounted_def)
qed

text \<open>
  C4: no file system host leaks and no two volumes share a drive letter: the hosts alive are exactly
  those of the mounted volumes, each mounted at its volume's letter, the letters are distinct and
  between D and Z, and once the loop is left no host is alive, the notification is unregistered
  and its sender freed.
\<close>

theorem daemon_hosts_safe:
  assumes "hash_laws sy" and "cm_laws cm" and "winfsp_laws sy live at env" and "live w0 = {}"
    and "daemon_reachable fuel sy cm env w0 d"
  shows "live (mg_world (dm_manager d)) = mv_host ` ran (mg_mounts (dm_manager d))
    \<and> (\<forall>k v. mg_mounts (dm_manager d) k = Some v \<longrightarrow>
         at (mg_world (dm_manager d)) (mv_host v) = Some (letter_mount_point (mv_drive_letter v))
         \<and> 68 \<le> mv_drive_letter v \<and> mv_drive_letter v \<le> 90)
    \<and> (\<forall>k k' v v'. mg_mounts (dm_manager d) k = Some v \<longrightarrow> mg_mounts (dm_manager d) k' = Some v' \<longrightarrow>
         mv_host v = mv_host v' \<or> mv_drive_letter v = mv_drive_letter v' \<longrightarrow> k = k')
    \<and> live (fst (daemon_exit sy cm d)) = {}
    \<and> ws_registered (snd (daemon_exit sy cm d)) = [] \<and> ws_boxes (snd (daemon_exit sy cm d)) = []"
proof -
  have hosts: "hosts_ok live at (dm_manager d)"
    by (rule reachable_hosts [OF assms(5,1,2,3,4)])
  have tables: "tables_ok (dm_known d) (dm_manager d)" and watch: "watch_ok (dm_watch d) [dm_watcher d]"
    using reachable_tables [OF assms(5,1,2)] by simp_all
  then have "live (manager_drop sy (dm_manager d)) = {}"
    using exit_drops_all [OF assms(3,1) hosts] by (simp add: tables_ok_iff)
  moreover have "watch_ok (snd (watcher_drop cm (dm_watcher d) (dm_watch d))) []"
    using watcher_drop_ok [OF assms(2) watch, of "dm_watcher d"] by auto
  ultimately show ?thesis
    using hosts by (simp add: hosts_ok_def watch_ok_def daemon_exit_def)
qed

text \<open>
  C10: no run of the daemon leaves a file system host behind, whatever ends it: after a run that
  returns, fails to start or panics (say, on a corrupt volume that another disk brings), with disks
  coming and going, notifications and signals in any order meanwhile, no host it started is alive.
\<close>

theorem daemon_run_leaves_nothing:
  assumes "hash_laws sy" and "cm_laws cm" and "winfsp_laws sy live at env" and "live w0 = {}"
    and "\<And>f w. World_Change f \<in> set script \<Longrightarrow> env w (f w)"
    and "run_daemon_internal fuel sy cm script shutdown w0 = (r, w)" and "r \<noteq> NoFuel"
  shows "live w = {}"
proof (cases "\<exists>d w1. daemon_start fuel sy cm shutdown w0 = (Ok d, w1)")
  case True
  then obtain d w1 where start: "daemon_start fuel sy cm shutdown w0 = (Ok d, w1)"
    by blast
  then have run: "daemon_script fuel sy cm script d = (r, w)"
    using assms(6) by (simp add: run_daemon_internal_def)
  show ?thesis
    by (rule script_leaves_nothing [OF assms(1-4) daemon_reachable.started [OF start] _ run assms(7)])
      (rule assms(5))
next
  case False
  obtain q w1 where start: "daemon_start fuel sy cm shutdown w0 = (q, w1)"
    by fastforce
  then have "w = w1 \<and> q \<noteq> NoFuel"
    using assms(6,7) False by (cases q) (auto simp: run_daemon_internal_def)
  then show ?thesis
    using start_leaves_nothing [OF assms(1,3,4) start] False start by auto
qed

section \<open>One scan\<close>

text \<open>
  C6: what a scan does to the mounted set, at any moment of the daemon: every partition that
  disappeared is unmounted, every partition that was mounted and is still there keeps its volume, and
  what is newly mounted was found by the scan. The known set stays the mounted set.
\<close>

theorem scan_follows_disks:
  assumes "hash_laws sy" and "cm_laws cm" and "daemon_reachable fuel sy cm env w0 d"
    and "scan_apfs_partitions sy (mg_world (dm_manager d)) = Ok ps"
    and "scan_and_update fuel sy (dm_known d) (dm_manager d) = (Ok known, s)"
  shows "known \<subseteq> partition_key ` set ps \<and> dm_known d \<inter> partition_key ` set ps \<subseteq> known
    \<and> (\<forall>key \<in> dm_known d - partition_key ` set ps. \<not> is_mounted key s)
    \<and> (\<forall>key \<in> dm_known d \<inter> partition_key ` set ps.
         mg_mounts s (mount_key key) = mg_mounts (dm_manager d) (mount_key key))
    \<and> (\<forall>key. is_mounted key s \<longleftrightarrow> key \<in> known)"
proof -
  have tables: "tables_ok (dm_known d) (dm_manager d)"
    using reachable_tables [OF assms(3,1,2)] by simp
  note step = scan_and_update_step [OF assms(5,1) tables assms(4)]
  have "is_mounted key s \<longleftrightarrow> key \<in> known" for key
    using step(1) by (auto simp: tables_ok_def mt.mounted_def mounted_volume_at_def is_mounted_def)
  with step(2-4) show ?thesis
    unfolding mounted_volume_at_def by blast
qed

section \<open>An exchanged disk\<close>

text \<open>
  The daemon's steps from a state on: changes of the world, notifications, signals, and turns of the
  loop, which are taken in worlds that satisfy \<open>seen\<close> only.
\<close>

inductive daemon_step :: "nat \<Rightarrow> ('w, 'h, 'c, 'host) host_system \<Rightarrow> ('w \<Rightarrow> 'w \<Rightarrow> bool) \<Rightarrow> ('w \<Rightarrow> bool) \<Rightarrow>
    ('w, 'host, 'n) daemon \<Rightarrow> ('w, 'host, 'n) daemon \<Rightarrow> bool"
  for fuel :: nat and sy :: "('w, 'h, 'c, 'host) host_system" and env :: "'w \<Rightarrow> 'w \<Rightarrow> bool" and seen :: "'w \<Rightarrow> bool"
where
  step_world: "env (mg_world (dm_manager d)) w \<Longrightarrow>
    daemon_step fuel sy env seen d (d\<lparr>dm_manager := (dm_manager d)\<lparr>mg_world := w\<rparr>\<rparr>)"
| step_notified: "(h, ctx) \<in> set (ws_registered (dm_watch d)) \<Longrightarrow> watcher_callback ctx action (dm_watch d) = (r, watch) \<Longrightarrow>
    daemon_step fuel sy env seen d (d\<lparr>dm_watch := watch\<rparr>)"
| step_signalled: "daemon_step fuel sy env seen d (d\<lparr>dm_shutdown := Suc (dm_shutdown d)\<rparr>)"
| step_turned: "daemon_turn fuel sy d = (Ok True, d') \<Longrightarrow> seen (mg_world (dm_manager d)) \<Longrightarrow> daemon_step fuel sy env seen d d'"

definition scan_shows :: "('w, 'h, 'c, 'host) host_system \<Rightarrow> apfs_partition \<Rightarrow> 'w \<Rightarrow> bool" where
  "scan_shows sy p w \<longleftrightarrow> (\<forall>ps. scan_apfs_partitions sy w = Ok ps \<longrightarrow> p \<in> set ps)"

lemma daemon_step_reachable:
  "daemon_reachable fuel sy cm env w0 d \<Longrightarrow> daemon_step fuel sy env seen d d' \<Longrightarrow> daemon_reachable fuel sy cm env w0 d'"
  by (erule daemon_step.cases) (auto intro: daemon_reachable.intros)

lemma daemon_step_keeps:
  assumes "hash_laws sy" and "tables_ok (dm_known d) (dm_manager d)" and "daemon_step fuel sy env (scan_shows sy p) d d'"
    and "mg_mounts (dm_manager d) (mount_key (partition_key p)) = Some volume"
  shows "mg_mounts (dm_manager d') (mount_key (partition_key p)) = Some volume"
  using assms(3)
proof cases
  case step_turned
  from step_turned(1) show ?thesis
  proof (cases rule: daemon_turn_cases)
    case (event ev q known s)
    have known: "partition_key p \<in> dm_known d"
      using assms(2,4) by (simp add: tables_ok_def mt.mounted_def mounted_volume_at_def)
    show ?thesis
    proof (cases "\<exists>ps. scan_apfs_partitions sy (mg_world (dm_manager d)) = Ok ps")
      case True
      then obtain ps where ps: "scan_apfs_partitions sy (mg_world (dm_manager d)) = Ok ps"
        by blast
      then have "p \<in> set ps"
        using step_turned(2) by (simp add: scan_shows_def)
      then show ?thesis
        using scan_and_update_step(4) [OF event(3) assms(1,2) ps] known assms(4)
        by (simp add: event(4) mounted_volume_at_def)
    next
      case False
      then show ?thesis
        using scan_and_update_failed [OF event(3)] assms(4) by (simp add: event(4))
    qed
  qed (use assms(4) in simp_all)
qed (use assms(4) in simp_all)

text \<open>
  C8: a disk that is exchanged for another with the same drive and partition numbers, before a
  scan sees it missing, is not noticed for as long as the new one stays: whatever
  notifications, signals and turns follow, and however many scans find the new partition \<open>p\<close>, the old
  disk's volume stays mounted under its drive letter, its host alive, and no mounted volume is ever
  that of \<open>p\<close>, although its offset differs from the one the mounted volume is read at.
\<close>

theorem exchanged_disk_keeps_old_volume:
  assumes "hash_laws sy" and "cm_laws cm" and "winfsp_laws sy live at env" and "live w0 = {}"
    and "daemon_reachable fuel sy cm env w0 d"
    and "mg_mounts (dm_manager d) (mount_key (partition_key p)) = Some volume"
    and "ap_offset p \<noteq> ap_offset (mv_partition volume)"
    and "(daemon_step fuel sy env (scan_shows sy p))\<^sup>*\<^sup>* d d'"
  shows "mg_mounts (dm_manager d') (mount_key (partition_key p)) = Some volume
    \<and> (\<forall>k v. mg_mounts (dm_manager d') k = Some v \<longrightarrow> mv_partition v \<noteq> p)
    \<and> mv_host volume \<in> live (mg_world (dm_manager d'))
    \<and> at (mg_world (dm_manager d')) (mv_host volume) = Some (letter_mount_point (mv_drive_letter volume))"
proof -
  have "daemon_reachable fuel sy cm env w0 d' \<and> mg_mounts (dm_manager d') (mount_key (partition_key p)) = Some volume"
    using assms(8)
  proof induction
    case (step e e')
    have "tables_ok (dm_known e) (dm_manager e)"
      using reachable_tables [of fuel sy cm env w0 e] assms(1,2) step.IH by simp
    then show ?case
      using daemon_step_reachable [OF _ step.hyps(2)] daemon_step_keeps [OF assms(1) _ step.hyps(2)] step.IH by blast
  qed (simp add: assms(5,6))
  then have reach: "daemon_reachable fuel sy cm env w0 d'"
    and kept: "mg_mounts (dm_manager d') (mount_key (partition_key p)) = Some volume"
    by simp_all
  have "mv_partition v \<noteq> p" if "mg_mounts (dm_manager d') k = Some v" for k v
    using reachable_tables [OF reach assms(1,2)] kept that assms(7) by (auto simp: tables_ok_def)
  with kept show ?thesis
    using hosts_okD(1,2) [OF reachable_hosts [OF reach assms(1-4)] kept] by simp
qed

section \<open>Shutdown\<close>

text \<open>The scans that \<open>n\<close> events trigger, one after the other, return.\<close>

fun scans_return :: "nat \<Rightarrow> nat \<Rightarrow> ('w, 'h, 'c, 'host) host_system \<Rightarrow> (u32 \<times> u32) set \<Rightarrow> ('w, 'host) manager \<Rightarrow> bool" where
  "scans_return 0 fuel sy known s = True"
| "scans_return (Suc n) fuel sy known s =
     (case scan_and_update fuel sy known s of
        (Ok known, s) \<Rightarrow> scans_return n fuel sy known s
      | _ \<Rightarrow> False)"

lemma loop_ends:
  assumes "dw_sender_ptr (dm_watcher d) \<in> set (ws_boxes (dm_watch d))" and "dm_shutdown d > 0"
    and "scans_return (length (ws_channel (dm_watch d))) fuel sy (dm_known d) (dm_manager d)"
  shows "\<exists>res. daemon_loop (Suc (length (ws_channel (dm_watch d)))) fuel sy cm d = Ok res"
  using assms
proof (induction "ws_channel (dm_watch d)" arbitrary: d)
  case Nil
  then show ?case
    by (simp add: daemon_turn_def)
next
  case (Cons ev q)
  note channel = Cons.hyps(2) [symmetric]
  have "scans_return (Suc (length q)) fuel sy (dm_known d) (dm_manager d)"
    using Cons.prems(3) by (simp only: channel length_Cons)
  then obtain known s where scan: "scan_and_update fuel sy (dm_known d) (dm_manager d) = (Ok known, s)"
    "scans_return (length q) fuel sy known s"
    by (auto split: prod.splits outcome.splits)
  define d' where "d' = d\<lparr>dm_watch := (dm_watch d)\<lparr>ws_channel := q\<rparr>, dm_known := known, dm_manager := s\<rparr>"
  have "daemon_turn fuel sy d = (Ok True, d')"
    by (cases ev) (simp_all add: daemon_turn_def channel rescan_def scan(1) d'_def)
  moreover have "\<exists>res. daemon_loop (Suc (length (ws_channel (dm_watch d')))) fuel sy cm d' = Ok res"
    using Cons.hyps(1) [of d'] Cons.prems(1,2) scan(2) by (simp add: d'_def)
  ultimately show ?case
    by (simp add: channel d'_def)
qed

text \<open>
  C7: the daemon stops when it is told to and only then: from any reachable state with the shutdown
  signal sent, if no more notifications come, the loop handles the waiting events and returns
  within one turn more than there are events, given that their scans return; and a turn that
  leaves the loop found the signal and an empty queue, the branch for a disconnected channel being
  dead while the watcher lives.
\<close>

theorem daemon_shuts_down:
  assumes "hash_laws sy" and "cm_laws cm" and "daemon_reachable fuel sy cm env w0 d"
  shows "(dm_shutdown d > 0 \<longrightarrow> scans_return (length (ws_channel (dm_watch d))) fuel sy (dm_known d) (dm_manager d) \<longrightarrow>
           (\<exists>res. daemon_loop (length (ws_channel (dm_watch d)) + 1) fuel sy cm d = Ok res))
    \<and> (\<forall>d'. daemon_turn fuel sy d = (Ok False, d') \<longrightarrow> dm_shutdown d > 0 \<and> ws_channel (dm_watch d) = [])"
proof -
  have sender: "dw_sender_ptr (dm_watcher d) \<in> set (ws_boxes (dm_watch d))"
    using reachable_tables [OF assms(3,1,2)] by (simp add: watch_ok_def)
  have "dm_shutdown d > 0 \<and> ws_channel (dm_watch d) = []" if "daemon_turn fuel sy d = (Ok False, d')" for d'
    using that by (cases rule: daemon_turn_cases) (use sender in simp_all)
  moreover have "\<exists>res. daemon_loop (length (ws_channel (dm_watch d)) + 1) fuel sy cm d = Ok res"
    if "dm_shutdown d > 0" "scans_return (length (ws_channel (dm_watch d))) fuel sy (dm_known d) (dm_manager d)"
    using loop_ends [OF sender that] by (simp only: Suc_eq_plus1)
  ultimately show ?thesis
    by blast
qed

end
