(* ===== verification/Program.thy ===== *)
theory Program
  imports Service Daemon_Mounts
begin

text \<open>
  The rest of \<open>src/main.rs\<close>: the DLL directory, the manual mount, the daemon command and the
  dispatch on the command line. Parsing the command line (\<open>clap\<close>), the Ctrl+C handler, the registry
  and the loader are parameters; logging is left out.
\<close>

section \<open>The process\<close>

datatype command =
    Mount rstr rstr nat bool \<comment> \<open>device, mount point, volume index, debug\<close>
  | Daemon_Command bool
  | Install
  | Uninstall
  | Service_Command

text \<open>
  \<open>RegGetValueW\<close> writes the value over the zeroed buffer of 260 units; \<open>parse_args\<close> ends the process on
  a bad command line; \<open>receive_signal\<close> is \<open>recv\<close> on the channel of the Ctrl+C handler.
\<close>

record 'w process =
  RegGetValueW :: "'w \<Rightarrow> (u32, u16 list) outcome"
  SetDllDirectoryW :: "u16 list \<Rightarrow> ('w, windows_error, unit) op"
  parse_args :: "('w, any_error, command option) op"
  set_ctrlc_handler :: "('w, any_error, unit) op"
  receive_signal :: "('w, any_error, unit) op"

definition setup_winfsp_dll_path :: "'w process \<Rightarrow> ('w, any_error, unit) op" where
  "setup_winfsp_dll_path pr w =
     (case RegGetValueW pr w of
        Ok written \<Rightarrow>
          let path = take 260 (written @ replicate 260 0);
              bin_path = from_utf16_lossy (takeWhile (\<lambda>c. c \<noteq> 0) path) @ [BACKSLASH] @ lit ''bin'';
              wide = encode_utf16 bin_path @ [0] in
          map_err_op Any_Windows (SetDllDirectoryW pr wide) w
      | Err e \<Rightarrow> (Err (Any_Message (lit ''Failed to read WinFsp registry key'')), w)
      | Panic \<Rightarrow> (Panic, w)
      | NoFuel \<Rightarrow> (NoFuel, w))"

section \<open>Commands\<close>

text \<open>\<open>str::len\<close> counts UTF-8 bytes: two of them, the last a colon, is a drive letter.\<close>

definition manual_mount_point :: "rstr \<Rightarrow> rstr" where
  "manual_mount_point mount_point =
     (if length (utf8 mount_point) = 2 \<and> mount_point \<noteq> [] \<and> last mount_point = 58
      then [BACKSLASH, BACKSLASH, 46, BACKSLASH] @ mount_point else mount_point)"

definition run_manual_mount :: "nat \<Rightarrow> ('w, 'h, 'c, 'host) host_system \<Rightarrow> 'w process \<Rightarrow> rstr \<Rightarrow> rstr \<Rightarrow> nat \<Rightarrow> bool \<Rightarrow>
    ('w, any_error, unit) op" where
  "run_manual_mount fuel sy pr device mount_point volume_index debug w =
     (let partition_offset = 1048576 in
      bind_op (lift_op (load_driver fuel sy w device partition_offset)) (\<lambda>driver.
      bind_op (start_host sy driver (manual_mount_point mount_point)) (\<lambda>host.
      bind_op (dropping sy host
          (bind_op (set_ctrlc_handler pr) (\<lambda>_. receive_signal pr))) (\<lambda>_ w.
        (Ok (), host_drop sy host w)))) w)"

definition run_daemon :: "nat \<Rightarrow> ('w, 'h, 'c, 'host) host_system \<Rightarrow> 'n config_manager \<Rightarrow> 'w happening list \<Rightarrow>
    'w process \<Rightarrow> bool \<Rightarrow> ('w, any_error, unit) op" where
  "run_daemon fuel sy cm script pr debug =
     bind_op (set_ctrlc_handler pr) (\<lambda>_. run_daemon_internal fuel sy cm script 0)"

definition run_main :: "nat \<Rightarrow> ('w, 'h, 'c, 'host) host_system \<Rightarrow> 'n config_manager \<Rightarrow> 'w happening list \<Rightarrow>
    'w service_system \<Rightarrow> 'w service_manager \<Rightarrow> 'w process \<Rightarrow> ('w, any_error, unit) op" where
  "run_main fuel sy cm script sv sm pr =
     bind_op (setup_winfsp_dll_path pr) (\<lambda>_.
     bind_op (parse_args pr) (\<lambda>command.
     bind_op (case command of Some Service_Command \<Rightarrow> return_op () | _ \<Rightarrow> winfsp_init_or_die sv) (\<lambda>_.
     case command of
       Some (Mount device mount_point volume_index debug) \<Rightarrow>
         run_manual_mount fuel sy pr device mount_point volume_index debug
     | Some (Daemon_Command debug) \<Rightarrow> run_daemon fuel sy cm script pr debug
     | Some Install \<Rightarrow> install_service sm
     | Some Uninstall \<Rightarrow> uninstall_service sm
     | Some Service_Command \<Rightarrow> run_service_dispatcher sm
     | None \<Rightarrow> run_daemon fuel sy cm script pr False)))"

section \<open>The DLL directory\<close>

text \<open>
  C34: the loader is given the \<open>bin\<close> directory under WinFsp's installation directory: for a
  registry value that is any text without NUL, terminated within the buffer, the directory set is
  that text with \<open>\bin\<close> appended, NUL-terminated, whatever follows in the buffer.
\<close>

theorem dll_directory_set:
  assumes "list_all is_scalar dir" and "0 \<notin> set dir" and "length (encode_utf16 dir) < 260"
    and "RegGetValueW pr w = Ok (encode_utf16 dir @ 0 # rest)"
  shows "setup_winfsp_dll_path pr w =
    map_err_op Any_Windows (SetDllDirectoryW pr (path_to_wide (dir @ BACKSLASH # lit ''bin''))) w"
proof -
  have nonzero: "c \<noteq> 0" if "c \<in> set (encode_utf16 dir)" for c
    using utf16_nonzero [OF assms(1,2)] that by metis
  obtain tail where "take 260 ((encode_utf16 dir @ 0 # rest) @ replicate 260 0) = encode_utf16 dir @ 0 # tail"
  proof (cases "260 - length (encode_utf16 dir)")
    case (Suc k)
    then show ?thesis
      using assms(3) by (intro that [of "take k (rest @ replicate 260 0)"]) (simp add: take_Cons')
  qed (use assms(3) in simp)
  moreover have "takeWhile (\<lambda>c. c \<noteq> 0) (encode_utf16 dir @ 0 # tail) = encode_utf16 dir" for tail
    by (subst takeWhile_append2) (simp_all add: nonzero)
  ultimately show ?thesis
    by (simp add: setup_winfsp_dll_path_def assms(4) Let_def from_utf16_encode [OF assms(1)] path_to_wide_def)
qed

section \<open>The manual mount\<close>

lemma dropping_eq_Err: "dropping sy host m w = (Err e, t) \<longleftrightarrow> (\<exists>w'. m w = (Err e, w') \<and> t = host_drop sy host w')"
  by (auto simp: dropping_def split: prod.splits outcome.splits)

text \<open>
  C33: a manual mount leaves no host behind: whether it ends after Ctrl+C or fails at any step, the
  hosts alive are those of before. When it succeeds, the volume was read at 1 MiB of the device,
  whatever its partition table says, and its host was alive at the mount point asked for, a bare
  drive letter being taken as the global one, when the wait for Ctrl+C began.
\<close>

theorem manual_mount_releases:
  assumes "winfsp_laws sy live at env"
    and "run_manual_mount fuel sy pr device mount_point volume_index debug w = (r, w')"
    and "r = Ok () \<or> (\<exists>e. r = Err e)"
    and "\<And>v q v'. set_ctrlc_handler pr v = (q, v') \<Longrightarrow> live v' = live v"
    and "\<And>v q v'. receive_signal pr v = (q, v') \<Longrightarrow> live v' = live v"
  shows "live w' = live w \<and> (r = Ok () \<longrightarrow> (\<exists>driver host v. load_driver fuel sy w device 1048576 = Ok driver
    \<and> start_host sy driver (manual_mount_point mount_point) w = (Ok host, v)
    \<and> host \<in> live v \<and> at v host = Some (manual_mount_point mount_point)))"
proof -
  define wait where "wait = bind_op (set_ctrlc_handler pr) (\<lambda>_. receive_signal pr)"
  have wait: "live v' = live v" if "wait v = (q, v')" for v q v'
    using that assms(4,5) by (auto simp: wait_def bind_op_def split: prod.splits outcome.splits)
  from assms(3) show ?thesis
  proof
    assume "r = Ok ()"
    then obtain driver host v q where load: "load_driver fuel sy w device 1048576 = Ok driver"
      and run: "start_host sy driver (manual_mount_point mount_point) w = (Ok host, v)"
      "wait v = (Ok (), q)" "w' = host_drop sy host q"
      using assms(2) by (auto simp: run_manual_mount_def wait_def bind_op_eq_Ok lift_op_def dropping_eq_Ok)
    have "live w' = live w"
      using start_host_Ok(1,2) [OF assms(1) run(1)] wait [OF run(2)] by (simp add: run(3) winfsp_lawsD(7) [OF assms(1)])
    then show ?thesis
      using start_host_Ok(2,3) [OF assms(1) run(1)] load run(1) by auto
  next
    assume "\<exists>e. r = Err e"
    then obtain e where e: "r = Err e"
      by blast
    then consider (load) "w' = w"
      | (start) driver where "start_host sy driver (manual_mount_point mount_point) w = (Err e, w')"
      | (signal) driver host v q where "start_host sy driver (manual_mount_point mount_point) w = (Ok host, v)"
          "wait v = (Err e, q)" "w' = host_drop sy host q"
      using assms(2) unfolding run_manual_mount_def Let_def wait_def [symmetric] e bind_op_eq_Err dropping_eq_Err
      by (auto simp: lift_op_def dropping_eq_Ok)
    then have "live w' = live w"
    proof cases
      case start
      show ?thesis
        using start_host_fails(1) [OF assms(1) start] by simp
    next
      case signal
      show ?thesis
        using start_host_Ok(1,2) [OF assms(1) signal(1)] wait [OF signal(2)]
        by (simp add: signal(3) winfsp_lawsD(7) [OF assms(1)])
    qed simp
    then show ?thesis
      by (simp add: e)
  qed
qed

end
