(* ===== verification/Service_Correct.thy ===== *)
theory Service_Correct
  imports Service Daemon_Mounts
begin

text \<open>
  The properties of \<open>src/service.rs\<close>: the wait for WinFsp is bounded, the statuses come in order, and
  which controls end the service.
\<close>

section \<open>The wait\<close>

text \<open>
  C30: the service does not wait for WinFsp for ever: with the clock moving on, the wait loop ends
  within 121 rounds, that is the 60 seconds at one poll each 500 ms, and reports StartPending at most
  120 times meanwhile, with checkpoints 1, 2, 3 and so on. It ends in one of three ways: WinFsp
  answers that it is available, and no more is reported; or the 60 seconds have passed, and it gives
  up with its error after Stopped with the service's error 1 as the last report; or a report fails,
  and its failure is the result, with no report after it.
\<close>

theorem service_wait_bounded:
  assumes "clock_laws sv"
    and "wait_for_winfsp 121 sv (instant_now sv (sr_world s) + WINFSP_WAIT_TIMEOUT) 0 s = (r, t)"
  shows "r \<noteq> NoFuel \<and> (\<exists>k \<le> 120. \<exists>final. sr_reported t = sr_reported s @
      map (\<lambda>i. pending_status (word_of_nat (Suc i))) [0..<k] @ final
      \<and> (r = Ok () \<and> final = [] \<and> (\<exists>w. winfsp_init sv w = (True, sr_world t))
        \<or> r = Err (Any_Message (lit ''WinFsp not available after 60s'')) \<and> final = [unavailable_status]
          \<and> instant_now sv (sr_world s) + WINFSP_WAIT_TIMEOUT \<le> instant_now sv (sr_world t)
        \<or> r \<noteq> Ok () \<and> final = [] \<and> (\<exists>st w. set_service_status sv st w = (r, sr_world t))))"
  using wait_bounded [OF assms] unfolding wait_ended_def .

section \<open>The order of the reports\<close>

lemma in_world_reported: "in_world m s = (r, t) \<Longrightarrow> sr_reported t = sr_reported s"
  by (auto simp: in_world_def split: prod.splits)

lemma report_status_reported:
  "report_status sv st s = (r, t) \<Longrightarrow> sr_reported t = sr_reported s @ (if r = Ok () then [st] else [])"
  by (auto simp: report_status_def split: prod.splits outcome.splits)

text \<open>Sequencing: the first part ended the run, or the second went on from where it stopped.\<close>

lemma bind_op_parts:
  assumes "bind_op m f s = (r, u)"
  obtains (stopped) q where "m s = (q, u)" "\<forall>x. q \<noteq> Ok x" "\<forall>x. r \<noteq> Ok x"
  | (went_on) x t where "m s = (Ok x, t)" "f x t = (r, u)"
  using assms by (auto simp: bind_op_def split: prod.splits outcome.splits)

lemma after_wait_reported:
  assumes "bind_op (in_world (winfsp_init_or_die sv)) (\<lambda>_.
      bind_op (report_status sv running_status) (\<lambda>_.
      bind_op (in_world daemon) (\<lambda>_. report_status sv stopped_status))) s = (r, t)"
  shows "\<exists>tail. sr_reported t = sr_reported s @ tail \<and> tail \<in> {[], [running_status], [running_status, stopped_status]} \<and>
    (r = Ok () \<longleftrightarrow> tail = [running_status, stopped_status])"
  using assms
proof (cases rule: bind_op_parts)
  case (stopped q)
  then show ?thesis
    using in_world_reported [OF stopped(1)] by auto
next
  case (went_on x s1)
  note init = in_world_reported [OF went_on(1)]
  from went_on(2) show ?thesis
  proof (cases rule: bind_op_parts)
    case (stopped q)
    then show ?thesis
      using report_status_reported [OF stopped(1)] init by auto
  next
    case (went_on y s2)
    note running = report_status_reported [OF went_on(1)]
    from went_on(2) show ?thesis
    proof (cases rule: bind_op_parts)
      case (stopped q)
      then show ?thesis
        using in_world_reported [OF stopped(1)] running init by auto
    next
      case (went_on z s3)
      show ?thesis
        using report_status_reported [OF went_on(2)] in_world_reported [OF went_on(1)] running init by auto
    qed
  qed
qed

lemma status_distinct:
  "pending_status c \<noteq> running_status" "pending_status c \<noteq> stopped_status" "unavailable_status \<noteq> stopped_status"
  "running_status \<noteq> stopped_status" "running_status \<noteq> unavailable_status"
  by (simp_all add: pending_status_def running_status_def stopped_status_def unavailable_status_def)

text \<open>
  C31: what the service control manager hears in one run, whatever the daemon does: first the pending
  reports of the wait, then nothing, or Stopped with error 1, or Running, or Running and Stopped,
  and the last exactly when the run succeeds. A daemon that fails once Running was reported
  therefore leaves the service reported as running: no Stopped status follows.
\<close>

theorem service_reports_in_order:
  assumes "clock_laws sv" and "run_service 121 sv daemon s = (r, t)" and "sr_reported s = []"
  shows "\<exists>k \<le> 120. \<exists>tail. sr_reported t = map (\<lambda>i. pending_status (word_of_nat (Suc i))) [0..<k] @ tail
    \<and> tail \<in> {[], [unavailable_status], [running_status], [running_status, stopped_status]}
    \<and> (r = Ok () \<longleftrightarrow> tail = [running_status, stopped_status])
    \<and> (r \<noteq> Ok () \<longrightarrow> stopped_status \<notin> set (sr_reported t))"
proof -
  have "\<exists>k \<le> 120. \<exists>tail. sr_reported t = map (\<lambda>i. pending_status (word_of_nat (Suc i))) [0..<k] @ tail
      \<and> tail \<in> {[], [unavailable_status], [running_status], [running_status, stopped_status]}
      \<and> (r = Ok () \<longleftrightarrow> tail = [running_status, stopped_status])"
    using assms(2) unfolding run_service_def Let_def
  proof (cases rule: bind_op_parts)
    case (stopped q)
    then show ?thesis
      using in_world_reported [OF stopped(1)] assms(3) by (intro exI [of _ "0 :: nat"]) simp
  next
    case (went_on x s1)
    have start: "sr_reported s1 = []"
      using in_world_reported [OF went_on(1)] assms(3) by simp
    have waited: "\<exists>k \<le> 120. \<exists>final. sr_reported u = map (\<lambda>i. pending_status (word_of_nat (Suc i))) [0..<k] @ final
        \<and> final \<in> {[], [unavailable_status]} \<and> (q = Ok () \<longrightarrow> final = [])"
      if "wait_for_winfsp 121 sv (instant_now sv (sr_world s1) + WINFSP_WAIT_TIMEOUT) 0 s1 = (q, u)" for q u
      using wait_bounded [OF assms(1) that] wait_ended_final by (simp add: start del: of_nat_Suc) blast
    from went_on(2) show ?thesis
    proof (cases rule: bind_op_parts)
      case (stopped q)
      then show ?thesis
        using waited [OF stopped(1)] by auto
    next
      case (went_on y s2)
      show ?thesis
        using waited [OF went_on(1)] after_wait_reported [OF went_on(2)] by auto
    qed
  qed
  then obtain k tail where reports: "k \<le> 120"
    "sr_reported t = map (\<lambda>i. pending_status (word_of_nat (Suc i))) [0..<k] @ tail"
    "tail \<in> {[], [unavailable_status], [running_status], [running_status, stopped_status]}"
    "r = Ok () \<longleftrightarrow> tail = [running_status, stopped_status]"
    by blast
  have "stopped_status \<notin> set (sr_reported t)" if "r \<noteq> Ok ()"
    using that reports(3,4) status_distinct [symmetric] by (auto simp: reports(2))
  with reports show ?thesis
    by blast
qed

section \<open>Controls\<close>

text \<open>What the handler of a control puts into the daemon's shutdown channel.\<close>

definition control_messages :: "service_control \<Rightarrow> 'w happening list" where
  "control_messages control = replicate (snd (service_event_handler control 0)) Signal"

text \<open>The state after a script that leaves the loop running.\<close>

fun daemon_after :: "nat \<Rightarrow> ('w, 'h, 'c, 'host) host_system \<Rightarrow> 'w happening list \<Rightarrow> ('w, 'host, 'n) daemon \<Rightarrow>
    ('w, 'host, 'n) daemon option" where
  "daemon_after fuel sy [] d = Some d"
| "daemon_after fuel sy (Turn # hs) d = (case daemon_turn fuel sy d of (Ok True, d) \<Rightarrow> daemon_after fuel sy hs d | _ \<Rightarrow> None)"
| "daemon_after fuel sy (h # hs) d = daemon_after fuel sy hs (daemon_happens h d)"

lemma script_after:
  "daemon_after fuel sy before d = Some d' \<Longrightarrow> daemon_script fuel sy cm (before @ rest) d = daemon_script fuel sy cm rest d'"
  by (induction fuel sy before d rule: daemon_after.induct) (auto split: prod.splits outcome.splits bool.splits)

lemma after_append:
  "daemon_after fuel sy before d = Some d' \<Longrightarrow> daemon_after fuel sy (before @ rest) d = daemon_after fuel sy rest d'"
  by (induction fuel sy before d rule: daemon_after.induct) (auto split: prod.splits outcome.splits bool.splits)

lemma after_reachable:
  assumes "hash_laws sy" and "cm_laws cm"
  shows "daemon_after fuel sy before d = Some d' \<Longrightarrow> daemon_reachable fuel sy cm env w0 d \<Longrightarrow>
    (\<And>f w. World_Change f \<in> set before \<Longrightarrow> env w (f w)) \<Longrightarrow> daemon_reachable fuel sy cm env w0 d'"
proof (induction before arbitrary: d)
  case (Cons h hs)
  show ?case
  proof (cases "h = Turn")
    case True
    then obtain e where "daemon_turn fuel sy d = (Ok True, e)" "daemon_after fuel sy hs e = Some d'"
      using Cons.prems(1) by (auto split: prod.splits outcome.splits bool.splits)
    then show ?thesis
      using Cons.IH daemon_reachable.turned [OF Cons.prems(2)] Cons.prems(3) by simp
  next
    case False
    then have "daemon_after fuel sy hs (daemon_happens h d) = Some d'"
      using Cons.prems(1) by (cases h) simp_all
    moreover have "daemon_reachable fuel sy cm env w0 (daemon_happens h d)"
      by (rule happening_reachable [OF Cons.prems(2) assms]) (use Cons.prems(3) in simp)
    ultimately show ?thesis
      using Cons.IH Cons.prems(3) by simp
  qed
qed simp

text \<open>As many turns as events wait, and one more: the loop ends if a signal was sent, and goes on if none was.\<close>

lemma event_turn:
  assumes "ws_channel (dm_watch d) = ev # q" and "scans_return (Suc (length q)) fuel sy (dm_known d) (dm_manager d)"
  obtains known t where "daemon_turn fuel sy d = (Ok True, d\<lparr>dm_watch := (dm_watch d)\<lparr>ws_channel := q\<rparr>, dm_known := known, dm_manager := t\<rparr>)"
    and "scans_return (length q) fuel sy known t"
proof -
  obtain known t where scan: "scan_and_update fuel sy (dm_known d) (dm_manager d) = (Ok known, t)" "scans_return (length q) fuel sy known t"
    using assms(2) by (auto split: prod.splits outcome.splits)
  show thesis
    by (rule that [OF _ scan(2)]) (cases ev; simp add: daemon_turn_def assms(1) rescan_def scan(1))
qed

lemma signalled_script_ends:
  assumes "dw_sender_ptr (dm_watcher d) \<in> set (ws_boxes (dm_watch d))" and "dm_shutdown d > 0"
    and "scans_return (length (ws_channel (dm_watch d))) fuel sy (dm_known d) (dm_manager d)"
  shows "\<exists>w. daemon_script fuel sy cm (replicate (Suc (length (ws_channel (dm_watch d)))) Turn) d = (Ok (), w)"
  using assms
proof (induction "ws_channel (dm_watch d)" arbitrary: d)
  case Nil
  then show ?case
    by (simp add: daemon_turn_def)
next
  case (Cons ev q)
  note channel = Cons.hyps(2) [symmetric]
  have "scans_return (Suc (length q)) fuel sy (dm_known d) (dm_manager d)"
    using Cons.prems(3) by (simp only: channel length_Cons)
  then obtain known t where turn: "daemon_turn fuel sy d =
      (Ok True, d\<lparr>dm_watch := (dm_watch d)\<lparr>ws_channel := q\<rparr>, dm_known := known, dm_manager := t\<rparr>)"
    "scans_return (length q) fuel sy known t"
    by (rule event_turn [OF channel])
  then show ?case
    using Cons.hyps(1) [of "d\<lparr>dm_watch := (dm_watch d)\<lparr>ws_channel := q\<rparr>, dm_known := known, dm_manager := t\<rparr>"] Cons.prems(1,2)
    by (simp add: channel)
qed

lemma unsignalled_script_goes_on:
  assumes "dw_sender_ptr (dm_watcher d) \<in> set (ws_boxes (dm_watch d))" and "dm_shutdown d = 0"
    and "scans_return (length (ws_channel (dm_watch d))) fuel sy (dm_known d) (dm_manager d)"
  shows "\<exists>d'. daemon_after fuel sy (replicate (Suc (length (ws_channel (dm_watch d)))) Turn) d = Some d'"
  using assms
proof (induction "ws_channel (dm_watch d)" arbitrary: d)
  case Nil
  then show ?case
    by (simp add: daemon_turn_def)
next
  case (Cons ev q)
  note channel = Cons.hyps(2) [symmetric]
  have "scans_return (Suc (length q)) fuel sy (dm_known d) (dm_manager d)"
    using Cons.prems(3) by (simp only: channel length_Cons)
  then obtain known t where turn: "daemon_turn fuel sy d =
      (Ok True, d\<lparr>dm_watch := (dm_watch d)\<lparr>ws_channel := q\<rparr>, dm_known := known, dm_manager := t\<rparr>)"
    "scans_return (length q) fuel sy known t"
    by (rule event_turn [OF channel])
  then show ?case
    using Cons.hyps(1) [of "d\<lparr>dm_watch := (dm_watch d)\<lparr>ws_channel := q\<rparr>, dm_known := known, dm_manager := t\<rparr>"] Cons.prems(1,2)
    by (simp add: channel)
qed

text \<open>The service up to the point where it has reported that it runs.\<close>

definition service_up :: "nat \<Rightarrow> 'w service_system \<Rightarrow> ('w service_run, any_error, unit) op" where
  "service_up polls sv =
     bind_op (in_world (register_handler sv)) (\<lambda>_ s.
       bind_op (wait_for_winfsp polls sv (instant_now sv (sr_world s) + WINFSP_WAIT_TIMEOUT) 0) (\<lambda>_.
       bind_op (in_world (winfsp_init_or_die sv)) (\<lambda>_. report_status sv running_status)) s)"

lemma run_service_up:
  "service_up polls sv s = (Ok (), s1) \<Longrightarrow>
    run_service polls sv daemon s = bind_op (in_world daemon) (\<lambda>_. report_status sv stopped_status) s1"
  unfolding service_up_def bind_op_eq_Ok by (elim exE conjE) (simp add: run_service_def Let_def)

text \<open>
  C32: a Stop control ends the service cleanly, and so does an Interrogate control, by which the service
  control manager only asks for the status: once either is handled while the service runs, whatever
  disks, notifications and turns came before, the daemon handles the events that wait, their scans
  returning, leaves its loop at the turn after them, and drops every mounted host; then the service reports
  Stopped. Any other control is declined, and the daemon goes on through the same turns, unless a
  signal had been sent before.
\<close>

theorem control_ends_service:
  assumes "hash_laws sy" and "cm_laws cm" and "winfsp_laws sy live at env"
    and up: "service_up polls sv s = (Ok (), s1)" "live (sr_world s1) = {}"
    and started: "daemon_start fuel sy cm early (sr_world s1) = (Ok d, w1)"
    and before: "daemon_after fuel sy before d = Some d'" "\<And>f w. World_Change f \<in> set before \<Longrightarrow> env w (f w)"
    and scans: "scans_return (length (ws_channel (dm_watch d'))) fuel sy (dm_known d') (dm_manager d')"
    and script: "script = before @ control_messages control @ replicate (Suc (length (ws_channel (dm_watch d')))) Turn"
  shows "(control \<in> {Control_Stop, Control_Interrogate} \<longrightarrow>
      (\<exists>w. live w = {} \<and> run_service polls sv (run_daemon_internal fuel sy cm script early) s =
        report_status sv stopped_status (s1\<lparr>sr_world := w\<rparr>)))
    \<and> (\<forall>c. control = Control_Other c \<longrightarrow> service_event_handler control 0 = (NotImplemented, 0) \<and>
        (dm_shutdown d' = 0 \<longrightarrow> (\<exists>e. daemon_after fuel sy script d = Some e)))"
proof (intro conjI impI allI)
  have reach: "daemon_reachable fuel sy cm env (sr_world s1) d'"
    by (rule after_reachable [OF assms(1,2) before(1) daemon_reachable.started [OF started] before(2)])
  then have sender: "dw_sender_ptr (dm_watcher d') \<in> set (ws_boxes (dm_watch d'))"
    using reachable_tables [OF _ assms(1,2)] by (fastforce simp: watch_ok_def)
  {
    assume "control \<in> {Control_Stop, Control_Interrogate}"
    then have "control_messages control = [Signal :: 'a happening]"
      by (auto simp: control_messages_def service_event_handler_def)
    then have "daemon_script fuel sy cm script d = daemon_script fuel sy cm
        (replicate (Suc (length (ws_channel (dm_watch d')))) Turn) (daemon_happens Signal d')"
      using script_after [OF before(1)] by (simp add: script)
    moreover obtain w where "daemon_script fuel sy cm
        (replicate (Suc (length (ws_channel (dm_watch d')))) Turn) (daemon_happens Signal d') = (Ok (), w)"
      using signalled_script_ends [of "daemon_happens Signal d'" fuel sy cm] sender scans by (auto simp: daemon_happens_def)
    ultimately have run: "daemon_script fuel sy cm script d = (Ok (), w)"
      by simp
    moreover have "live w = {}"
      by (rule script_leaves_nothing [OF assms(1-3) up(2) daemon_reachable.started [OF started] _ run])
        (use before(2) \<open>control_messages control = [Signal]\<close> in \<open>auto simp: script\<close>)
    ultimately show "\<exists>w. live w = {} \<and> run_service polls sv (run_daemon_internal fuel sy cm script early) s =
        report_status sv stopped_status (s1\<lparr>sr_world := w\<rparr>)"
      by (intro exI [of _ w]) (simp add: run_service_up [OF up(1)] in_world_def run_daemon_internal_def started)
  }
  fix c
  assume other: "control = Control_Other c"
  then show "service_event_handler control 0 = (NotImplemented, 0)"
    by (simp add: service_event_handler_def)
  then show "\<exists>e. daemon_after fuel sy script d = Some e" if "dm_shutdown d' = 0"
    using unsignalled_script_goes_on [OF sender that scans] after_append [OF before(1)]
    by (simp add: script control_messages_def del: replicate_Suc)
qed

section \<open>A sample service\<close>

text \<open>The world is the clock; WinFsp is available after a second.\<close>

definition sample_service :: "nat service_system" where
  "sample_service = \<lparr>register_handler = return_op (), winfsp_init = (\<lambda>w. (1000 \<le> w, w)),
     winfsp_init_or_die = return_op (), instant_now = id, sleep_ms = (\<lambda>ms w. w + ms),
     set_service_status = (\<lambda>_. return_op ())\<rparr>"

lemma sample_clock_laws: "clock_laws sample_service"
  by (simp add: clock_laws_def sample_service_def)

text \<open>Without WinFsp, the sample service gives up.\<close>

definition hopeless_service :: "nat service_system" where
  "hopeless_service = sample_service\<lparr>winfsp_init := Pair False\<rparr>"

theorem service_wait_bounded_witness:
  "\<exists>t k. wait_for_winfsp 121 hopeless_service 60000 0 \<lparr>sr_world = 0, sr_reported = []\<rparr> =
      (Err (Any_Message (lit ''WinFsp not available after 60s'')), t)
    \<and> sr_reported t = map (\<lambda>i. pending_status (word_of_nat (Suc i))) [0..<k] @ [unavailable_status] \<and> 60000 \<le> sr_world t"
proof -
  have laws: "clock_laws hopeless_service"
    by (simp add: clock_laws_def hopeless_service_def sample_service_def)
  obtain r t where run: "wait_for_winfsp 121 hopeless_service 60000 0 \<lparr>sr_world = 0, sr_reported = []\<rparr> = (r, t)"
    by fastforce
  have "instant_now hopeless_service (sr_world \<lparr>sr_world = 0, sr_reported = []\<rparr>) + WINFSP_WAIT_TIMEOUT = 60000"
    by (simp add: hopeless_service_def sample_service_def WINFSP_WAIT_TIMEOUT_def)
  then show ?thesis
    using service_wait_bounded [OF laws, of "\<lparr>sr_world = 0, sr_reported = []\<rparr>" r t] run
    by (auto simp: hopeless_service_def sample_service_def WINFSP_WAIT_TIMEOUT_def)
qed

lemma sample_run_service:
  "\<exists>t. run_service 121 sample_service (return_op ()) \<lparr>sr_world = 0, sr_reported = []\<rparr> = (Ok (), t)"
proof -
  have round: "wait_for_winfsp (Suc n) sample_service 60000 c \<lparr>sr_world = w, sr_reported = st\<rparr> =
      (if 1000 \<le> w then (Ok (), \<lparr>sr_world = w, sr_reported = st\<rparr>)
       else wait_for_winfsp n sample_service 60000 (c + 1) \<lparr>sr_world = w + 500, sr_reported = st @ [pending_status (c + 1)]\<rparr>)"
    if "w < 60000" for n c w st
    using that by (simp add: sample_service_def report_status_def WINFSP_POLL_INTERVAL_def Let_def)
  have "wait_for_winfsp 121 sample_service 60000 0 \<lparr>sr_world = 0, sr_reported = []\<rparr> =
      (Ok (), \<lparr>sr_world = 1000, sr_reported = [pending_status 1, pending_status 2]\<rparr>)"
    using round [of 0 120 0 "[]"] round [of 500 119 1 "[pending_status 1]"]
      round [of 1000 118 2 "[pending_status 1, pending_status 2]"] by simp
  then show ?thesis
    by (simp add: run_service_def) (simp add: sample_service_def in_world_def report_status_def WINFSP_WAIT_TIMEOUT_def)
qed

theorem service_reports_in_order_witness:
  "\<exists>t k. run_service 121 sample_service (return_op ()) \<lparr>sr_world = 0, sr_reported = []\<rparr> = (Ok (), t)
     \<and> sr_reported t = map (\<lambda>i. pending_status (word_of_nat (Suc i))) [0..<k] @ [running_status, stopped_status]"
proof -
  obtain t where run: "run_service 121 sample_service (return_op ()) \<lparr>sr_world = 0, sr_reported = []\<rparr> = (Ok (), t)"
    using sample_run_service by blast
  from service_reports_in_order [OF sample_clock_laws run] run show ?thesis
    by auto
qed

end
