(* ===== verification/Disk_Correct.thy ===== *)
theory Disk_Correct
  imports Driver
begin

text \<open>
  What the disk reader of \<open>src/disk.rs\<close> delivers on a raw device: unaligned reads return the bytes
  they ask for, the reader is a \<open>Read + Seek\<close> source over its partition, and the hand-written
  offsets of the superblock fields are those of the parser. Also where the object map search goes
  wrong.
\<close>

section \<open>Single calls\<close>

lemma raw_device_bounds: "raw_device w on_dev ptr img \<Longrightarrow> 512 dvd length img \<and> length img < 2 ^ 63"
  by (simp add: raw_device_def SECTOR_SIZE_def)

lemma raw_device_seek:
  "raw_device w on_dev ptr img \<Longrightarrow> on_dev h \<Longrightarrow> 0 \<le> sint d \<Longrightarrow>
    \<exists>h'. SetFilePointerEx w d FILE_BEGIN h = (Ok d, h') \<and> on_dev h' \<and> ptr h' = unat d"
  unfolding raw_device_def by (elim conjE allE [of _ h] allE [of _ d]) simp

lemma raw_device_tell:
  "raw_device w on_dev ptr img \<Longrightarrow> on_dev h \<Longrightarrow> ptr h < 2 ^ 63 \<Longrightarrow>
    \<exists>h'. SetFilePointerEx w 0 FILE_CURRENT h = (Ok (word_of_nat (ptr h)), h') \<and> on_dev h' \<and> ptr h' = ptr h"
  unfolding raw_device_def by (elim conjE allE [of _ h]) simp

lemma raw_device_read:
  "raw_device w on_dev ptr img \<Longrightarrow> on_dev h \<Longrightarrow> 512 dvd ptr h \<Longrightarrow> 512 dvd n \<Longrightarrow> n < 2 ^ 32 \<Longrightarrow>
    ptr h + n \<le> length img \<Longrightarrow>
    \<exists>h'. ReadFile w n h = (Ok (take n (drop (ptr h) img)), h') \<and> on_dev h' \<and> ptr h' = ptr h + n"
  unfolding raw_device_def SECTOR_SIZE_def by (elim conjE allE [of _ h] allE [of _ n]) simp

lemma raw_device_stays:
  "raw_device w on_dev ptr img \<Longrightarrow> on_dev h \<Longrightarrow> on_dev (snd (SetFilePointerEx w d method h))"
  "raw_device w on_dev ptr img \<Longrightarrow> on_dev h \<Longrightarrow> on_dev (snd (ReadFile w n h))"
  by (simp_all add: raw_device_def)

lemma sys_seek:
  assumes "raw_device w on_dev ptr img" and "on_dev (dr_handle d)" and "unat p < 2 ^ 63"
  obtains h where "sys (SetFilePointerEx w p FILE_BEGIN) d = (Ok p, d\<lparr>dr_handle := h\<rparr>)"
    and "on_dev h" and "ptr h = unat p"
proof -
  obtain h where "SetFilePointerEx w p FILE_BEGIN (dr_handle d) = (Ok p, h)" "on_dev h" "ptr h = unat p"
    using raw_device_seek [OF assms(1,2) sint_nonneg_u64 [OF assms(3)]] by blast
  then show thesis
    by (intro that [of h]) (simp_all add: sys_def)
qed

lemma sys_tell:
  assumes "raw_device w on_dev ptr img" and "on_dev (dr_handle d)" and "ptr (dr_handle d) < 2 ^ 63"
  obtains h where "sys (SetFilePointerEx w 0 FILE_CURRENT) d = (Ok (word_of_nat (ptr (dr_handle d))), d\<lparr>dr_handle := h\<rparr>)"
    and "on_dev h" and "ptr h = ptr (dr_handle d)"
proof -
  obtain h where "SetFilePointerEx w 0 FILE_CURRENT (dr_handle d) = (Ok (word_of_nat (ptr (dr_handle d))), h)"
    "on_dev h" "ptr h = ptr (dr_handle d)"
    using raw_device_tell [OF assms] by blast
  then show thesis
    by (intro that [of h]) (simp_all add: sys_def)
qed

lemma sys_read:
  assumes "raw_device w on_dev ptr img" and "on_dev (dr_handle d)" and "512 dvd ptr (dr_handle d)"
    and "512 dvd n" and "n < 2 ^ 32" and "ptr (dr_handle d) + n \<le> length img"
  obtains h where "sys (ReadFile w n) d = (Ok (take n (drop (ptr (dr_handle d)) img)), d\<lparr>dr_handle := h\<rparr>)"
    and "on_dev h" and "ptr h = ptr (dr_handle d) + n"
proof -
  obtain h where "ReadFile w n (dr_handle d) = (Ok (take n (drop (ptr (dr_handle d)) img)), h)"
    "on_dev h" "ptr h = ptr (dr_handle d) + n"
    using raw_device_read [OF assms] by blast
  then show thesis
    by (intro that [of h]) (simp_all add: sys_def)
qed

section \<open>Aligned reads\<close>

text \<open>The sectors around a range of the device lie on the device, and hold the range.\<close>

lemma sector_bounds:
  fixes pos n sz :: nat
  assumes "512 dvd sz" and "pos + n \<le> sz"
  defines "L \<equiv> (pos mod 512 + n + 511) div 512 * 512"
  shows "pos - pos mod 512 + L \<le> sz" and "pos mod 512 + n \<le> L" and "L \<le> n + 1022"
    and "512 dvd pos - pos mod 512"
proof -
  obtain k where k: "sz = 512 * k"
    using assms(1) by (elim dvdE)
  define m where "m = (pos mod 512 + n + 511) div 512"
  define q where "q = pos div 512"
  have m: "512 * m \<le> pos mod 512 + n + 511" "pos mod 512 + n + 511 < 512 * m + 512"
    using div_times_less_eq_dividend [of "pos mod 512 + n + 511" 512]
      dividend_less_div_times [of 512 "pos mod 512 + n + 511"] by (simp_all add: m_def)
  have pos: "pos = 512 * q + pos mod 512" "pos mod 512 < 512"
    by (simp_all add: q_def)
  then have "512 * q \<le> 512 * k"
    using assms(2) k by linarith
  then obtain j where j: "k = q + j"
    using le_Suc_ex [of q k] by auto
  have "512 * m < 512 * (j + 1)"
    using pos m(1) assms(2) unfolding k j add_mult_distrib2 by linarith
  then have "512 * q + 512 * m \<le> sz"
    unfolding k j by simp
  moreover have L: "L = 512 * m"
    by (simp add: L_def m_def)
  ultimately show "pos - pos mod 512 + L \<le> sz"
    using pos(1) by linarith
  show "pos mod 512 + n \<le> L" "L \<le> n + 1022"
    using m pos(2) L by linarith+
  show "512 dvd pos - pos mod 512"
    by (simp add: minus_mod_eq_mult_div)
qed

lemma sector_read_slice:
  assumes "raw_device w on_dev ptr img" and "on_dev (dr_handle d)"
    and "unat pos + n \<le> length img" and "0 < n" and "n \<le> 2 ^ 32 - 1024"
  obtains h where "sector_read w pos n d = (Ok (take n (drop (unat pos) img)), d\<lparr>dr_handle := h\<rparr>)" and "on_dev h"
proof -
  define s where "s = unat pos mod 512"
  define L where "L = (s + n + 511) div 512 * 512"
  define p where "p = pos - word_of_nat s"
  note b = raw_device_bounds [OF assms(1)]
  note sec = sector_bounds [OF conjunct1 [OF b] assms(3), folded s_def L_def]
  have small: "s \<le> unat pos" "s < 2 ^ 64"
    using le_less_trans [OF _ unat_less_pow64, of s pos] by (simp_all add: s_def)
  then have up: "unat p = unat pos - s"
    by (simp add: p_def unat_sub word_le_nat_alt unat_of_nat)
  have "unat p < 2 ^ 63"
    using b assms(3) up by linarith
  then obtain h where h: "sys (SetFilePointerEx w p FILE_BEGIN) d = (Ok p, d\<lparr>dr_handle := h\<rparr>)"
    "on_dev h" "ptr h = unat p"
    using sys_seek [OF assms(1,2)] by blast
  have "ptr (dr_handle (d\<lparr>dr_handle := h\<rparr>)) + L \<le> length img" "512 dvd ptr (dr_handle (d\<lparr>dr_handle := h\<rparr>))"
    "L < 2 ^ 32" "512 dvd L"
    using sec h(3) up assms(5) by (simp_all add: s_def L_def)
  then obtain h' where h': "sys (ReadFile w L) (d\<lparr>dr_handle := h\<rparr>) = (Ok (take L (drop (ptr h) img)), d\<lparr>dr_handle := h'\<rparr>)" "on_dev h'"
    using sys_read [of w on_dev ptr img "d\<lparr>dr_handle := h\<rparr>" L] assms(1) h(2) by auto
  define tmp where "tmp = take L (drop (ptr h) img)"
  have len: "length tmp = L"
    using sec(1) h(3) up by (simp add: L_def [symmetric] tmp_def)
  have cut: "take n (drop s tmp) = take n (drop (unat pos) img)"
    using sec(2) small(1) h(3) up by (simp add: drop_take min_absorb1 L_def [symmetric] tmp_def)
  have L: "(511 + (s + n)) div 512 * 512 = L" "min (L - s) n = n"
    using sec(2) by (simp_all add: L_def add.commute [of 511] min_absorb2)
  have "sector_read w pos n d = (Ok (take n (drop (unat pos) img)), d\<lparr>dr_handle := h'\<rparr>)"
    using h(1) h'(1) len cut L
    by (simp add: tmp_def [symmetric] sector_read_def SECTOR_SIZE_def Let_def s_def [symmetric] p_def [symmetric])
  with h'(2) show thesis
    by (rule that [rotated])
qed

section \<open>Reads at the file pointer\<close>

lemma disk_read_slice:
  assumes "raw_device w on_dev ptr img" and "on_dev (dr_handle d)"
    and "ptr (dr_handle d) + n \<le> length img" and "n \<le> 2 ^ 32 - 1024"
  obtains h where "disk_read w n d = (Ok (take n (drop (ptr (dr_handle d)) img)), d\<lparr>dr_handle := h\<rparr>)"
    and "on_dev h" and "ptr h = ptr (dr_handle d) + n"
proof (cases "n = 0")
  case True
  then show thesis
    using that [of "dr_handle d"] assms(2) by (simp add: disk_read_def)
next
  case False
  define p where "p = ptr (dr_handle d)"
  define pos :: u64 where "pos = word_of_nat p"
  note b = raw_device_bounds [OF assms(1)]
  have bounds: "p < 2 ^ 63" "p + n < 2 ^ 63"
    using assms(3) b False by (simp_all add: p_def)
  then have pos: "unat pos = p" "unat (pos + word_of_nat n) = p + n"
    by (simp_all add: pos_def unat_of_nat flip: of_nat_add)
  obtain h1 where h1: "sys (SetFilePointerEx w 0 FILE_CURRENT) d = (Ok pos, d\<lparr>dr_handle := h1\<rparr>)" "on_dev h1"
    using sys_tell [OF assms(1,2)] bounds(1) unfolding p_def pos_def by metis
  obtain h2 where h2: "sector_read w pos n (d\<lparr>dr_handle := h1\<rparr>) =
      (Ok (take n (drop p img)), d\<lparr>dr_handle := h2\<rparr>)" "on_dev h2"
    using sector_read_slice [OF assms(1), of "d\<lparr>dr_handle := h1\<rparr>" pos n] h1(2) assms(3,4) False pos(1)
    by (auto simp: p_def)
  have len: "length (take n (drop p img)) = n"
    using assms(3) by (simp add: p_def)
  obtain h3 where h3: "sys (SetFilePointerEx w (pos + word_of_nat n) FILE_BEGIN) (d\<lparr>dr_handle := h2\<rparr>) =
      (Ok (pos + word_of_nat n), d\<lparr>dr_handle := h3\<rparr>)" "on_dev h3" "ptr h3 = p + n"
    using sys_seek [OF assms(1), of "d\<lparr>dr_handle := h2\<rparr>" "pos + word_of_nat n"] h2(2) bounds(2) pos(2) by auto
  have "disk_read w n d = (Ok (take n (drop p img)), d\<lparr>dr_handle := h3\<rparr>)"
    unfolding disk_read_def using False h1 h2 h3 len by (simp del: length_take length_drop)
  then show thesis
    using that [of h3] h3(2,3) by (simp add: p_def)
qed

lemma read_exact_by_full:
  assumes "rd n s = (Ok bs, s')" and "length bs = n"
  shows "read_exact_by rd n s = (Ok bs, if n = 0 then s else s')"
  using assms by (subst read_exact_by.simps) (auto simp: read_exact_by.simps [of rd 0])

lemma read_exact_slice:
  assumes "raw_device w on_dev ptr img" and "on_dev (dr_handle d)"
    and "ptr (dr_handle d) + n \<le> length img" and "n \<le> 2 ^ 32 - 1024"
  obtains h where "disk_read_exact w n d = (Ok (take n (drop (ptr (dr_handle d)) img)), d\<lparr>dr_handle := h\<rparr>)"
    and "on_dev h" and "ptr h = ptr (dr_handle d) + n"
proof -
  obtain h where h: "disk_read w n d = (Ok (take n (drop (ptr (dr_handle d)) img)), d\<lparr>dr_handle := h\<rparr>)"
    "on_dev h" "ptr h = ptr (dr_handle d) + n"
    using disk_read_slice [OF assms] by blast
  show thesis
  proof (cases "n = 0")
    case True
    then show ?thesis
      using that [of "dr_handle d"] assms(2) by (simp add: disk_read_exact_def read_exact_by.simps)
  next
    case False
    then show ?thesis
      using that [of h] h read_exact_by_full [of "disk_read w", OF h(1)] assms(3) by (simp add: disk_read_exact_def)
  qed
qed

lemma seek_start_pointer:
  assumes "raw_device w on_dev ptr img" and "on_dev (dr_handle d)"
    and "unat (dr_offset d) + unat pos < 2 ^ 63"
  obtains h where "disk_seek w (Start pos) d = (Ok pos, d\<lparr>dr_handle := h\<rparr>)"
    and "on_dev h" and "ptr h = unat (dr_offset d) + unat pos"
proof -
  have sum: "unat (dr_offset d + pos) = unat (dr_offset d) + unat pos"
    using assms(3) by (intro unat_add_no_wrap) simp
  obtain h where h: "sys (SetFilePointerEx w (dr_offset d + pos) FILE_BEGIN) d = (Ok (dr_offset d + pos), d\<lparr>dr_handle := h\<rparr>)"
    "on_dev h" "ptr h = unat (dr_offset d) + unat pos"
    using sys_seek [OF assms(1,2), of "dr_offset d + pos"] assms(3) sum by auto
  have "dr_offset d \<le> dr_offset d + pos"
    using sum by (simp add: word_le_nat_alt)
  then have "disk_seek w (Start pos) d = (Ok pos, d\<lparr>dr_handle := h\<rparr>)"
    using h(1) by (simp add: disk_seek_def saturating_sub_def)
  with h(2,3) show thesis
    using that by blast
qed

section \<open>The reader over a partition\<close>

text \<open>The bytes of the device from the partition's offset on.\<close>

definition partition_bytes :: "'h disk_reader \<Rightarrow> bytes \<Rightarrow> bytes" where
  "partition_bytes d img = drop (unat (dr_offset d)) img"

lemma seek_then_read:
  assumes "raw_device w on_dev ptr img" and "on_dev (dr_handle d)"
    and "unat (dr_offset d) + unat pos + n \<le> length img" and "n \<le> 2 ^ 32 - 1024"
  obtains h where "bind_op (disk_seek w (Start pos)) (\<lambda>_. disk_read_exact w n) d =
      (Ok (take n (drop (unat pos) (partition_bytes d img))), d\<lparr>dr_handle := h\<rparr>)" and "on_dev h"
proof -
  have "unat (dr_offset d) + unat pos < 2 ^ 63"
    using raw_device_bounds [OF assms(1)] assms(3) by linarith
  then obtain h where h: "disk_seek w (Start pos) d = (Ok pos, d\<lparr>dr_handle := h\<rparr>)" "on_dev h"
    "ptr h = unat (dr_offset d) + unat pos"
    using seek_start_pointer [OF assms(1,2)] by blast
  then obtain h' where "disk_read_exact w n (d\<lparr>dr_handle := h\<rparr>) =
      (Ok (take n (drop (ptr h) img)), d\<lparr>dr_handle := h'\<rparr>)" "on_dev h'"
    using read_exact_slice [OF assms(1), of "d\<lparr>dr_handle := h\<rparr>" n] assms(3,4) by auto
  with h show thesis
    by (intro that [of h']) (simp_all add: partition_bytes_def add.commute)
qed

lemma read_at_slice:
  assumes "raw_device w on_dev ptr img" and "on_dev (dr_handle d)"
    and "unat (dr_offset d) + unat pos + n \<le> length img" and "n \<le> 2 ^ 32 - 1024"
  obtains h where "read_at w pos n d = (Ok (take n (drop (unat pos) (partition_bytes d img))), d\<lparr>dr_handle := h\<rparr>)"
    and "on_dev h"
proof (cases "n = 0")
  case True
  then show thesis
    using that [of "dr_handle d"] assms(2) by (simp add: read_at_def read_at_absolute_def)
next
  case False
  have "unat (dr_offset d) + unat pos < 2 ^ 64"
    using raw_device_bounds [OF assms(1)] assms(3) by simp
  then have sum: "unat (dr_offset d + pos) = unat (dr_offset d) + unat pos"
    by (rule unat_add_no_wrap)
  then obtain h where "sector_read w (dr_offset d + pos) n d =
      (Ok (take n (drop (unat (dr_offset d) + unat pos) img)), d\<lparr>dr_handle := h\<rparr>)" "on_dev h"
    using sector_read_slice [OF assms(1,2), of "dr_offset d + pos" n] assms(3,4) False by auto
  with False that show thesis
    by (simp add: read_at_def read_at_absolute_def partition_bytes_def add.commute)
qed

text \<open>
  C12: on a raw device, whatever its file pointer is, seeking to a byte offset of the partition and
  reading, and the positioned read that keeps no position, both return exactly the bytes of the
  partition at that offset, although the device itself only transfers whole sectors.
\<close>

theorem disk_reads_partition:
  assumes "raw_device w on_dev ptr img" and "on_dev (dr_handle d)"
    and "unat (dr_offset d) + unat pos + n \<le> length img" and "n \<le> 2 ^ 32 - 1024"
  shows "fst (bind_op (disk_seek w (Start pos)) (\<lambda>_. disk_read_exact w n) d) =
           Ok (take n (drop (unat pos) (partition_bytes d img)))
    \<and> fst (read_at w pos n d) = Ok (take n (drop (unat pos) (partition_bytes d img)))"
proof
  show "fst (bind_op (disk_seek w (Start pos)) (\<lambda>_. disk_read_exact w n) d) =
      Ok (take n (drop (unat pos) (partition_bytes d img)))"
    by (rule seek_then_read [OF assms]) simp
  show "fst (read_at w pos n d) = Ok (take n (drop (unat pos) (partition_bytes d img)))"
    by (rule read_at_slice [OF assms]) simp
qed

lemma disk_as_reader_upto:
  assumes "raw_device w on_dev ptr img" and "on_dev (dr_handle d)" and "lim \<le> 2 ^ 32 - 1024"
    and "unat (dr_offset d) \<le> length img"
  shows "reads_upto lim (disk_as_reader w d) (partition_bytes d img)"
  unfolding reads_upto_def
proof (intro allI impI)
  fix pos :: u64 and n
  assume n: "n \<le> lim" "unat pos + n \<le> length (partition_bytes d img)"
  then have inside: "unat (dr_offset d) + unat pos + n \<le> length img"
    using assms(4) by (simp add: partition_bytes_def)
  then have "unat (dr_offset d) + unat pos < 2 ^ 63"
    using raw_device_bounds [OF assms(1)] by linarith
  then have "fst (disk_seek w (Start pos) d) = Ok pos"
    using seek_start_pointer [OF assms(1,2)] by (metis fst_conv)
  moreover have "fst (bind_op (disk_seek w (Start pos)) (\<lambda>_. disk_read_exact w n) d) =
      Ok (take n (drop (unat pos) (partition_bytes d img)))"
    by (rule seek_then_read [OF assms(1,2) inside]) (use n assms(3) in simp_all)
  ultimately show "rd_seek (disk_as_reader w d) pos = Ok () \<and>
      rd_read_exact (disk_as_reader w d) pos n = Ok (take n (drop (unat pos) (partition_bytes d img)))"
    by (simp add: disk_as_reader_def)
qed

text \<open>
  Why the library may be given a reader without a state: any accesses of it, made one after the other
  on the stateful reader, give what \<open>disk_as_reader\<close> gives for each alone, wherever the ones before
  left the file pointer.
\<close>

fun accesses :: "'h win32 \<Rightarrow> (u64 \<times> nat) list \<Rightarrow> ('h disk_reader, io_error, bytes list) op" where
  "accesses w [] = return_op []"
| "accesses w ((pos, n) # as) =
     bind_op (bind_op (disk_seek w (Start pos)) (\<lambda>_. disk_read_exact w n)) (\<lambda>bs.
     bind_op (accesses w as) (\<lambda>bss. return_op (bs # bss)))"

lemma accesses_as_reader:
  assumes "raw_device w on_dev ptr img" and "on_dev (dr_handle d0)"
  shows "on_dev (dr_handle d) \<Longrightarrow> dr_offset d = dr_offset d0 \<Longrightarrow>
    (\<And>pos n. (pos, n) \<in> set as \<Longrightarrow> unat (dr_offset d0) + unat pos + n \<le> length img \<and> n \<le> 2 ^ 32 - 1024) \<Longrightarrow>
    \<exists>bss. fst (accesses w as d) = Ok bss \<and> list_all2 (\<lambda>(pos, n) bs. rd_read_exact (disk_as_reader w d0) pos n = Ok bs) as bss"
proof (induction as arbitrary: d)
  case (Cons a as)
  obtain pos n where a: "a = (pos, n)"
    by fastforce
  have inside: "unat (dr_offset d0) + unat pos + n \<le> length img" "n \<le> 2 ^ 32 - 1024"
    using Cons.prems(3) [of pos n] by (simp_all add: a)
  obtain h where h: "bind_op (disk_seek w (Start pos)) (\<lambda>_. disk_read_exact w n) d =
      (Ok (take n (drop (unat pos) (partition_bytes d img))), d\<lparr>dr_handle := h\<rparr>)" "on_dev h"
    using seek_then_read [OF assms(1) Cons.prems(1), of pos n] inside Cons.prems(2) by auto
  obtain h0 where "bind_op (disk_seek w (Start pos)) (\<lambda>_. disk_read_exact w n) d0 =
      (Ok (take n (drop (unat pos) (partition_bytes d0 img))), d0\<lparr>dr_handle := h0\<rparr>)"
    by (rule seek_then_read [OF assms inside])
  then have one: "rd_read_exact (disk_as_reader w d0) pos n = Ok (take n (drop (unat pos) (partition_bytes d img)))"
    by (simp add: disk_as_reader_def partition_bytes_def Cons.prems(2))
  obtain bss where bss: "fst (accesses w as (d\<lparr>dr_handle := h\<rparr>)) = Ok bss"
    "list_all2 (\<lambda>(pos, n) bs. rd_read_exact (disk_as_reader w d0) pos n = Ok bs) as bss"
    using Cons.IH [of "d\<lparr>dr_handle := h\<rparr>"] h(2) Cons.prems(2,3) by auto
  obtain e where "accesses w as (d\<lparr>dr_handle := h\<rparr>) = (Ok bss, e)"
    using bss(1) by (cases "accesses w as (d\<lparr>dr_handle := h\<rparr>)") simp
  then have "accesses w (a # as) d = (Ok (take n (drop (unat pos) (partition_bytes d img)) # bss), e)"
    unfolding a accesses.simps by (subst bind_op_def) (simp add: h(1))
  with one bss(2) show ?case
    by (simp add: a)
qed simp

section \<open>The container size\<close>

lemma read_4096_slice:
  assumes "raw_device w on_dev ptr img" and "on_dev (dr_handle d)"
    and "unat (dr_offset d) + unat pos + 4096 \<le> length img"
  obtains h where "read_4096_at w pos d = (Ok (take 4096 (drop (unat pos) (partition_bytes d img))), d\<lparr>dr_handle := h\<rparr>)"
    and "on_dev h"
proof (rule seek_then_read [OF assms])
  show "(4096 :: nat) \<le> 2 ^ 32 - 1024"
    by simp
  fix h
  assume "bind_op (disk_seek w (Start pos)) (\<lambda>_. disk_read_exact w 4096) d =
      (Ok (take 4096 (drop (unat pos) (partition_bytes d img))), d\<lparr>dr_handle := h\<rparr>)" and "on_dev h"
  then show thesis
    using that [of h] by (simp only: read_4096_at_def op_simps map_err.simps)
qed

text \<open>
  C36: the size that the driver reports is computed from two fields read at hand-written offsets of
  the first block; they are the block count and the block size that the superblock parser of the
  library reads from the same block.
\<close>

theorem container_size_matches_superblock:
  assumes "raw_device w on_dev ptr img" and "on_dev (dr_handle d)"
    and "unat (dr_offset d) + 4096 \<le> length img"
    and "parse_nx_superblock (take 4096 (partition_bytes d img)) = Ok sb"
  shows "fst (read_apfs_container_size w d) = Ok (nx_block_count sb * ucast (nx_block_size sb))"
proof -
  obtain h where "read_4096_at w 0 d = (Ok (take 4096 (partition_bytes d img)), d\<lparr>dr_handle := h\<rparr>)"
    by (rule read_4096_slice [OF assms(1,2), of 0]) (use assms(3) in simp_all)
  then show ?thesis
    by (simp add: read_apfs_container_size_def Let_def parse_nx_superblock_fields(4,5) [OF assms(4)])
qed

section \<open>The object map search of \<open>read_apfs_volume_space\<close>\<close>

lemma encoded_omap_keys:
  fixes h :: object_header and bs :: nat
  assumes "length es = 4" and "es = omap_entry o0 x0 p0 # omap_entry o1 x1 p1 # es'"
  defines "block \<equiv> encode_node h omap_root_shape bs es"
  shows "u64_at block 72 = o0" and "u64_at block 96 = x1" and "104 \<le> length block"
proof -
  define pre where "pre = encode_object_header h @ le16 (flags_of omap_root_shape) @ le16 0 @
     le32 (of_nat (length es)) @ le16 0 @ le16 (of_nat (toc_len omap_root_shape (length es))) @
     replicate 12 0 @ encode_toc True 0 0 es"
  have pre: "length pre = 72"
    using assms(1) by (simp add: pre_def)
  have keys: "concat (map fst es) = le64 o0 @ le64 x0 @ le64 o1 @ le64 x1 @ concat (map fst es')"
    by (simp add: assms(2) omap_entry_def)
  have fixed: "ns_fixed omap_root_shape = True"
    by (simp add: omap_root_shape_def)
  obtain rest where block: "block = pre @ le64 o0 @ le64 x0 @ le64 o1 @ le64 x1 @ rest"
    unfolding block_def encode_node_def pre_def keys fixed append_assoc by blast
  show "u64_at block 72 = o0"
    unfolding block using at_append(3) [OF pre, of o0] by simp
  have "length (pre @ le64 o0 @ le64 x0 @ le64 o1) = 96"
    using pre by simp
  then show "u64_at block 96 = x1"
    unfolding block using at_append(3) [of "pre @ le64 o0 @ le64 x0 @ le64 o1" 96 x1 rest] by simp
  show "104 \<le> length block"
    unfolding block using pre by simp
qed

text \<open>
  C37: the search of \<open>read_apfs_volume_space\<close> takes the bytes after a key for its value, but the
  format keeps all keys together and the values at the other end of the block: on an object map
  leaf of four volumes it returns the transaction number of the second mapping instead of the
  block of the first, which the object map lookup of the library finds in the same block.
\<close>

theorem volume_search_returns_next_key:
  assumes "es = [omap_entry o0 x0 p0, omap_entry o1 x1 p1, omap_entry o2 x2 p2, omap_entry o3 x3 p3]"
    and "o0 < o1" and "o1 < o2" and "o2 < o3" and "0 < x1" and "x1 < 1000000000"
    and "node_fits omap_root_shape (unat bs) es"
  shows "search_btree_node (encode_node h omap_root_shape (unat bs) es) o0 = Ok x1
    \<and> omap_lookup 1 (image_reader (encode_node h omap_root_shape (unat bs) es)) 0 bs o0 = Ok p0"
proof
  let ?block = "encode_node h omap_root_shape (unat bs) es"
  show "search_btree_node ?block o0 = Ok x1"
    unfolding search_btree_node_def using encoded_omap_keys [OF _ assms(1), of h "unat bs"] assms(1,5,6) by (subst search_from.simps) (simp add: Let_def)
  have read: "read_block (image_reader ?block) 0 bs = Ok ?block"
    using assms(7) by (simp add: read_block_def seek_start_def read_exact_def image_reader_def node_fits_def)
  have lt: "o0 < o2" "o0 < o3" "o1 < o3"
    using assms(2-4) by (blast intro: less_trans)+
  have asc: "ascending omap_rank es"
    using assms(2-4) lt by (simp add: assms(1) ascending_def omap_entry_def omap_rank_def less_imp_le)
  have "omap_at (image_reader ?block) 0 bs (ALeaf es)"
    by (rule omap_at_leaf [OF read assms(7) asc])
  moreover have "tree_lookup (omap_compare o0) (ALeaf es) = Some (snd (omap_entry o0 x0 p0))"
    by (simp add: assms(1) omap_entry_def omap_compare_def cmp_ord_def)
  ultimately show "omap_lookup 1 (image_reader ?block) 0 bs o0 = Ok p0"
    using omap_lookup_outcome [of "image_reader ?block" 0 bs "ALeaf es" 1 o0] by (simp add: omap_entry_def)
qed

section \<open>The handle stays on the device\<close>

lemma bind_op_state: "P (snd (m s)) \<Longrightarrow> (\<And>x t. P t \<Longrightarrow> P (snd (f x t))) \<Longrightarrow> P (snd (bind_op m f s))"
  by (auto simp: bind_op_def split: prod.splits outcome.splits)

lemma sector_read_stays:
  fixes d :: "'h disk_reader"
  assumes "raw_device w on_dev ptr img" and "on_dev (dr_handle d)"
  shows "on_dev (dr_handle (snd (sector_read w pos n d))) \<and> dr_offset (snd (sector_read w pos n d)) = dr_offset d"
proof -
  define P where "P = (\<lambda>t :: 'h disk_reader. on_dev (dr_handle t) \<and> dr_offset t = dr_offset d)"
  have sys: "P (snd (sys (SetFilePointerEx w a m) t))" "P (snd (sys (ReadFile w k) t))" if "P t" for a m k t
    using that raw_device_stays [OF assms(1)] unfolding P_def sys_def
    by (simp_all add: case_prod_beta)
  have "P (snd (sector_read w pos n d))"
    unfolding sector_read_def Let_def
    by (rule bind_op_state [of P], rule sys, simp add: P_def assms(2),
        rule bind_op_state [of P], erule sys, simp)
  then show ?thesis
    by (simp add: P_def)
qed

lemma read_at_absolute_stays:
  assumes "raw_device w on_dev ptr img" and "on_dev (dr_handle d)"
  shows "on_dev (dr_handle (snd (read_at_absolute w off n d)))"
    and "dr_offset (snd (read_at_absolute w off n d)) = dr_offset d"
  using sector_read_stays [OF assms, of off n] assms(2)
  by (auto simp: read_at_absolute_def map_err_op_def split: prod.splits)

section \<open>A simulated device\<close>

text \<open>
  A device with its bytes in memory, which refuses what a raw device refuses: the state of a handle
  is its file pointer.
\<close>

definition sim_disk :: "bytes \<Rightarrow> nat win32" where
  "sim_disk img =
     \<lparr>CreateFileA = (\<lambda>path. Ok 0), handle_is_invalid = (\<lambda>_. False), last_os_error = Io_Error KindOther [],
      SetFilePointerEx = (\<lambda>distance method p.
        let q = (case method of FILE_BEGIN \<Rightarrow> 0 | FILE_CURRENT \<Rightarrow> int p | FILE_END \<Rightarrow> int (length img)) + sint distance in
        if q < 0 then (Err (Windows_Error 131 []), p) else (Ok (word_of_int q), nat q)),
      ReadFile = (\<lambda>n p.
        if 512 dvd p \<and> 512 dvd n then (Ok (take n (drop p img)), p + length (take n (drop p img)))
        else (Err (Windows_Error 87 []), p)),
      GetDriveGeometryEx = (\<lambda>_. Ok (33, word_of_nat (length img)))\<rparr>"

lemma sim_disk_raw_device:
  assumes "512 dvd length img" and "length img < 2 ^ 63"
  shows "raw_device (sim_disk img) (\<lambda>_. True) id img"
proof -
  have "nat (sint d) = unat d" if "0 \<le> sint d" for d :: i64
  proof -
    have "uint d = take_bit 64 (sint d)"
      by (simp add: uint_sint)
    also have "\<dots> = sint d"
      using that sint_i64_range(2) [of d] by (intro take_bit_int_eq_self) simp_all
    finally show ?thesis
      by (metis unat_eq_nat_uint)
  qed
  with assms show ?thesis
    by (auto simp: raw_device_def sim_disk_def SECTOR_SIZE_def Let_def min_def)
qed

definition sample_disk :: "u64 \<Rightarrow> nat \<Rightarrow> nat disk_reader" where
  "sample_disk offset p = \<lparr>dr_handle = p, dr_size = 0, dr_offset = offset, dr_device_path = []\<rparr>"

text \<open>Three bytes across a sector boundary, in a partition that starts at 512.\<close>

theorem disk_reads_partition_witness:
  "let d = sample_disk 512 77; w = sim_disk (replicate 1023 0 @ [1, 2, 3] @ replicate 510 0) in
     fst (bind_op (disk_seek w (Start 511)) (\<lambda>_. disk_read_exact w 3) d) = Ok [1, 2, 3]
     \<and> fst (read_at w 511 3 d) = Ok [1, 2, 3]"
proof -
  define img :: bytes where "img = replicate 1023 0 @ [1, 2, 3] @ replicate 510 0"
  have "raw_device (sim_disk img) (\<lambda>_. True) id img"
    by (rule sim_disk_raw_device) (simp_all add: img_def del: replicate.simps)
  moreover have "take 3 (drop (unat (511 :: u64)) (partition_bytes (sample_disk 512 77) img)) = [1, 2, 3]"
    by (simp add: img_def partition_bytes_def sample_disk_def del: replicate.simps)
  moreover have "unat (dr_offset (sample_disk 512 77)) + unat (511 :: u64) + 3 \<le> length img"
    by (simp add: img_def sample_disk_def)
  ultimately show ?thesis
    unfolding Let_def img_def [symmetric]
    using disk_reads_partition [of "sim_disk img" "\<lambda>_. True" id img "sample_disk 512 77" 511 3] by simp
qed

theorem container_size_matches_superblock_witness:
  "fst (read_apfs_container_size (sim_disk (zeros 512 @ image_nx_block 9)) (sample_disk 512 0)) =
     Ok (nx_block_count (image_nx_sealed 9) * 4096)"
proof -
  have "raw_device (sim_disk (zeros 512 @ image_nx_block 9)) (\<lambda>_. True) id (zeros 512 @ image_nx_block 9)"
    by (rule sim_disk_raw_device) simp_all
  then show ?thesis
    using container_size_matches_superblock [of _ "\<lambda>_. True" id "zeros 512 @ image_nx_block 9" "sample_disk 512 0"
        "image_nx_sealed 9"]
    by (simp add: partition_bytes_def sample_disk_def parse_image_nx_block image_nx_fields)
qed

theorem volume_search_returns_next_key_witness:
  "let block = encode_node sample_header omap_root_shape 4096
         [omap_entry 1026 5 100, omap_entry 1027 6 200, omap_entry 1028 7 300, omap_entry 1029 8 400] in
     search_btree_node block 1026 = Ok 6 \<and> omap_lookup 1 (image_reader block) 0 4096 1026 = Ok 100"
proof -
  have "node_fits omap_root_shape 4096
      [omap_entry 1026 5 100, omap_entry 1027 6 200, omap_entry 1028 7 300, omap_entry 1029 8 400]"
    by (simp add: shape_defs omap_root_shape_def omap_entry_def)
  then show ?thesis
    using volume_search_returns_next_key [OF refl, of 1026 1027 1028 1029 6 4096 5 100 200 7 300 8 400 sample_header]
    by (simp add: Let_def)
qed

end
