(* ===== verification/Driver_Correct.thy ===== *)
theory Driver_Correct
  imports Driver Disk_Correct
begin

text \<open>
  What the callbacks of \<open>src/driver.rs\<close> deliver: the bytes of the file that the library would read,
  coherent metadata from the cache in every reachable state of a mount, and sizes and times within
  their types.
\<close>

section \<open>Reading\<close>

interpretation drv: extent_translation extent_to_physical extent_remaining
proof
  show "extent_to_physical em pos = map_option (\<lambda>(l, p, n). p + (pos - l)) (locate em pos)" for em pos
    by (induction em pos rule: extent_to_physical.induct) auto
  show "extent_remaining em pos = (case locate em pos of None \<Rightarrow> 0 | Some (l, p, n) \<Rightarrow> l + n - pos)" for em pos
    by (induction em pos rule: extent_remaining.induct) auto
qed

text \<open>The extents of a file lie in the partition, follow each other and cover its size.\<close>

definition file_ok :: "bytes \<Rightarrow> extent list \<Rightarrow> u64 \<Rightarrow> bool" where
  "file_ok part em sz \<longleftrightarrow> contiguous 0 em \<and> in_image part em \<and> total_len em < 2 ^ 64 \<and> unat sz \<le> total_len em"

lemma read_at_absolute_slice:
  assumes "raw_device w on_dev ptr img" and "on_dev (dr_handle d)"
    and "unat pos + n \<le> length img" and "n \<le> 2 ^ 32 - 1024"
  obtains h where "read_at_absolute w pos n d = (Ok (take n (drop (unat pos) img)), d\<lparr>dr_handle := h\<rparr>)" and "on_dev h"
proof (cases "n = 0")
  case True
  then show thesis
    using that [of "dr_handle d"] assms(2) by (simp add: read_at_absolute_def)
next
  case False
  then obtain h where "sector_read w pos n d = (Ok (take n (drop (unat pos) img)), d\<lparr>dr_handle := h\<rparr>)" "on_dev h"
    using sector_read_slice [OF assms(1,2,3) _ assms(4)] by auto
  with False that show thesis
    by (simp add: read_at_absolute_def)
qed

text \<open>One round of the loop: some bytes of the file, taken from where its extents put them.\<close>

lemma read_loop_round:
  assumes dev: "raw_device w on_dev ptr img" and part: "part = drop (unat start) img" "unat start \<le> length img"
    and em: "contiguous 0 em" "in_image part em" "total_len em < 2 ^ 64" and small: "to_read \<le> 2 ^ 32 - 1024"
    and d: "on_dev (dr_handle d)" and more: "length got < to_read" "unat offset + length got < total_len em"
  obtains bs h where "read_loop w em start offset to_read got d = read_loop w em start offset to_read (got @ bs) (d\<lparr>dr_handle := h\<rparr>)"
    and "on_dev h" and "0 < length bs" and "length (got @ bs) \<le> to_read" and "unat offset + length (got @ bs) \<le> total_len em"
    and "bs = take (length bs) (drop (unat offset + length got) (content part em))"
proof -
  define pos where "pos = offset + of_nat (length got)"
  have pos: "unat pos = unat offset + length got"
    using more em(3) by (simp add: pos_def unat_add_no_wrap unat_of_nat)
  then have "unat pos < total_len em"
    using more by simp
  then obtain p where p: "extent_to_physical em pos = Some p" "0 < unat (extent_remaining em pos)"
    "unat pos + unat (extent_remaining em pos) \<le> total_len em" "unat p + unat (extent_remaining em pos) \<le> length part"
    "\<And>k. k \<le> unat (extent_remaining em pos) \<Longrightarrow> take k (drop (unat p) part) = take k (drop (unat pos) (content part em))"
    using drv.chunk [OF em] by metis
  define k where "k = min (to_read - length got) (unat (extent_remaining em pos))"
  have k: "0 < k" "length got + k \<le> to_read" "k \<le> unat (extent_remaining em pos)" "k \<le> 2 ^ 32 - 1024"
    using more p(2) small by (auto simp: k_def)
  have inside: "unat start + unat p + k \<le> length img"
    using p(4) k(3) part by simp
  then have "unat start + unat p < 2 ^ 64"
    using raw_device_bounds [OF dev] by simp
  then have sum: "unat (start + p) = unat start + unat p"
    by (rule unat_add_no_wrap)
  obtain h where h: "read_at_absolute w (start + p) k d =
      (Ok (take k (drop (unat start + unat p) img)), d\<lparr>dr_handle := h\<rparr>)" "on_dev h"
    using read_at_absolute_slice [OF dev d, of "start + p" k] inside sum k(4) by auto
  define bs where "bs = take k (drop (unat start + unat p) img)"
  have len: "length bs = k"
    using inside by (simp add: bs_def)
  have "bs = take k (drop (unat pos) (content part em))"
    using p(5) [OF k(3)] by (simp add: bs_def part add.commute)
  moreover have "read_loop w em start offset to_read got d = read_loop w em start offset to_read (got @ bs) (d\<lparr>dr_handle := h\<rparr>)"
    using more p(1,2) h(1) len k(1) unfolding bs_def [symmetric]
    by (subst read_loop.simps) (auto simp: pos_def [symmetric] k_def [symmetric] Let_def)
  moreover have "unat offset + length (got @ bs) \<le> total_len em" "length (got @ bs) \<le> to_read"
    using k p(3) pos len by simp_all
  ultimately show thesis
    by (intro that [of bs h]) (use h(2) k(1) len pos in simp_all)
qed

lemma read_loop_content:
  assumes dev: "raw_device w on_dev ptr img" and part: "part = drop (unat start) img" "unat start \<le> length img"
    and em: "contiguous 0 em" "in_image part em" "total_len em < 2 ^ 64" and range: "unat offset + to_read \<le> total_len em"
    and small: "to_read \<le> 2 ^ 32 - 1024"
  shows "on_dev (dr_handle d) \<Longrightarrow> length got \<le> to_read \<Longrightarrow>
    \<exists>d'. read_loop w em start offset to_read got d =
      (Ok (got @ take (to_read - length got) (drop (unat offset + length got) (content part em))), d')"
proof (induction "to_read - length got" arbitrary: got d rule: less_induct)
  case less
  show ?case
  proof (cases "length got < to_read")
    case False
    then show ?thesis
      by (simp add: read_loop.simps)
  next
    case True
    then obtain bs h where more: "read_loop w em start offset to_read got d =
        read_loop w em start offset to_read (got @ bs) (d\<lparr>dr_handle := h\<rparr>)"
      "on_dev h" "0 < length bs" "length (got @ bs) \<le> to_read"
      "bs = take (length bs) (drop (unat offset + length got) (content part em))"
      using read_loop_round [OF dev part em small less.prems(1), of got offset] range by auto
    have "\<exists>d'. read_loop w em start offset to_read (got @ bs) (d\<lparr>dr_handle := h\<rparr>) =
        (Ok ((got @ bs) @ take (to_read - length (got @ bs)) (drop (unat offset + length (got @ bs)) (content part em))), d')"
      by (rule less.hyps) (use more(2-4) True in \<open>simp_all del: length_greater_0_conv\<close>)
    moreover have "bs @ take (to_read - (length got + length bs)) (drop (unat offset + (length got + length bs)) (content part em)) =
        take (to_read - length got) (drop (unat offset + length got) (content part em))"
      using take_drop_append_take [of "length bs" "to_read - length got" "drop (unat offset + length got) (content part em)"] more(4,5)
      by (simp add: add.commute add.left_commute)
    ultimately show ?thesis
      using more(1) by auto
  qed
qed

text \<open>A range that the extents do not cover is an error, whatever was read before.\<close>

lemma read_loop_uncovered:
  assumes dev: "raw_device w on_dev ptr img" and part: "part = drop (unat start) img" "unat start \<le> length img"
    and em: "contiguous 0 em" "in_image part em" "total_len em < 2 ^ 64" and range: "total_len em < unat offset + to_read"
      "unat offset + to_read < 2 ^ 64" "0 < to_read"
    and small: "to_read \<le> 2 ^ 32 - 1024"
  shows "on_dev (dr_handle d) \<Longrightarrow> length got \<le> to_read \<Longrightarrow> unat offset + length got \<le> max (unat offset) (total_len em) \<Longrightarrow>
    \<exists>d'. read_loop w em start offset to_read got d = (Err (NTSTATUS STATUS_END_OF_FILE), d')"
proof (induction "to_read - length got" arbitrary: got d rule: less_induct)
  case less
  show ?case
  proof (cases "unat offset + length got < total_len em")
    case True
    then have "length got < to_read"
      using range(1) by simp
    then obtain bs h where more: "read_loop w em start offset to_read got d =
        read_loop w em start offset to_read (got @ bs) (d\<lparr>dr_handle := h\<rparr>)"
      "on_dev h" "0 < length bs" "length (got @ bs) \<le> to_read" "unat offset + length (got @ bs) \<le> total_len em"
      by (rule read_loop_round [OF dev part em small less.prems(1) _ True])
    have "\<exists>d'. read_loop w em start offset to_read (got @ bs) (d\<lparr>dr_handle := h\<rparr>) = (Err (NTSTATUS STATUS_END_OF_FILE), d')"
      by (rule less.hyps) (use more(2-5) \<open>length got < to_read\<close> in \<open>simp_all del: length_greater_0_conv\<close>)
    then show ?thesis
      using more(1) by simp
  next
    case False
    have left: "length got < to_read"
      using less.prems(3) range(1,3) by (auto simp: max_def split: if_splits)
    then have "unat (offset + of_nat (length got)) = unat offset + length got"
      using range(2) by (simp add: unat_add_no_wrap unat_of_nat)
    then have "locate em (offset + of_nat (length got)) = None"
      using locate_beyond [OF em(1)] em(3) False by simp
    then have "extent_to_physical em (offset + of_nat (length got)) = None"
      using drv.outside by blast
    then show ?thesis
      using left by (subst read_loop.simps) (simp add: Let_def)
  qed
qed

text \<open>What a read delivers: the bytes of the file from the offset, as many as fit and there are.\<close>

lemma driver_read_content:
  assumes "raw_device w on_dev ptr img" and "on_dev (dr_handle (dv_raw_disk s))" and "\<not> dv_raw_disk_poisoned s"
    and "part = drop (unat (dv_partition_offset s)) img" and "unat (dv_partition_offset s) \<le> length img"
    and "file_ok part (fc_extent_map ctx) (fc_file_size ctx)" and "n \<le> 2 ^ 32 - 1024"
  shows "\<exists>d. driver_read w ctx n off s =
    (let bs = take n (drop (unat off) (take (unat (fc_file_size ctx)) (content part (fc_extent_map ctx))))
     in (Ok (of_nat (length bs), bs), s\<lparr>dv_raw_disk := d\<rparr>))"
proof -
  define em sz where "em = fc_extent_map ctx" and "sz = fc_file_size ctx"
  have ok: "contiguous 0 em" "in_image part em" "total_len em < 2 ^ 64" "unat sz \<le> total_len em"
    using assms(6) by (simp_all add: file_ok_def em_def sz_def)
  note len = length_content [OF ok(2)]
  show ?thesis
  proof (cases "off < sz")
    case False
    then have "drop (unat off) (take (unat sz) xs) = []" for xs :: bytes
      by (simp add: word_less_nat_alt)
    moreover have "sz \<le> off"
      using False by simp
    ultimately show ?thesis
      by (intro exI [of _ "dv_raw_disk s"]) (simp add: driver_read_def sz_def [symmetric] Let_def)
  next
    case True
    define k where "k = min n (unat sz - unat off)"
    have off: "unat (sz - off) = unat sz - unat off"
      using True by (simp add: unat_sub less_imp_le)
    have inside: "unat off + k \<le> total_len em"
      using True ok(4) by (auto simp: k_def word_less_nat_alt)
    have slice: "take k (drop (unat off) (content part em)) = take n (drop (unat off) (take (unat sz) (content part em)))"
      by (simp add: k_def drop_take min.commute)
    have "\<exists>d'. read_loop w em (dv_partition_offset s) off k [] (dv_raw_disk s) =
        (Ok ([] @ take (k - length ([] :: bytes)) (drop (unat off + length ([] :: bytes)) (content part em))), d')"
      by (rule read_loop_content [OF assms(1,4,5) ok(1-3) inside _ assms(2)]) (use assms(7) in \<open>simp_all add: k_def\<close>)
    then obtain d where d: "read_loop w em (dv_partition_offset s) off k [] (dv_raw_disk s) =
        (Ok (take k (drop (unat off) (content part em))), d)"
      by auto
    define bs where "bs = take n (drop (unat off) (take (unat sz) (content part em)))"
    have bs: "take k (drop (unat off) (content part em)) = bs"
      using slice by (simp add: bs_def)
    have "\<exists>d. driver_read w ctx n off s = (Ok (of_nat (length bs), bs), s\<lparr>dv_raw_disk := d\<rparr>)"
    proof (cases "k = 0")
      case True
      then have "bs = []"
        using bs by simp
      then show ?thesis
        using True \<open>off < sz\<close> off
        by (intro exI [of _ "dv_raw_disk s"]) (simp add: driver_read_def Let_def sz_def [symmetric] k_def [symmetric])
    next
      case False
      then show ?thesis
        using off d assms(3) \<open>off < sz\<close> [folded linorder_not_le] unfolding bs
        by (intro exI [of _ d]) (simp add: driver_read_def Let_def sz_def [symmetric] em_def [symmetric] k_def [symmetric])
    qed
    then show ?thesis
      by (simp only: Let_def bs_def em_def sz_def)
  qed
qed

lemma driver_read_uncovered:
  assumes "raw_device w on_dev ptr img" and "on_dev (dr_handle (dv_raw_disk s))" and "\<not> dv_raw_disk_poisoned s"
    and "part = drop (unat (dv_partition_offset s)) img" and "unat (dv_partition_offset s) \<le> length img"
    and em: "contiguous 0 (fc_extent_map ctx)" "in_image part (fc_extent_map ctx)" "total_len (fc_extent_map ctx) < 2 ^ 64"
    and "off < fc_file_size ctx" and "0 < n" and "n \<le> 2 ^ 32 - 1024"
    and "total_len (fc_extent_map ctx) < unat off + min n (unat (fc_file_size ctx - off))"
  shows "\<exists>d. driver_read w ctx n off s = (Err (NTSTATUS STATUS_END_OF_FILE), s\<lparr>dv_raw_disk := d\<rparr>)"
proof -
  define k where "k = min n (unat (fc_file_size ctx - off))"
  have rest: "unat (fc_file_size ctx - off) = unat (fc_file_size ctx) - unat off" "unat off < unat (fc_file_size ctx)"
    using assms(9) by (simp_all add: unat_sub less_imp_le word_less_nat_alt)
  then have k: "0 < k" "k \<le> 2 ^ 32 - 1024"
    using assms(10,11) by (auto simp: k_def min_def)
  have "unat off + k \<le> unat (fc_file_size ctx)"
    using rest by (auto simp: k_def)
  then have "unat off + k < 18446744073709551616"
    by (rule le_less_trans) (rule unat_less_pow64)
  then have inside: "unat off + k < 2 ^ 64"
    by simp
  have "\<exists>d. read_loop w (fc_extent_map ctx) (dv_partition_offset s) off k [] (dv_raw_disk s) = (Err (NTSTATUS STATUS_END_OF_FILE), d)"
    by (rule read_loop_uncovered [OF assms(1,4,5) em _ inside k assms(2)]) (use assms(12) in \<open>simp_all add: k_def\<close>)
  then obtain d where "read_loop w (fc_extent_map ctx) (dv_partition_offset s) off k [] (dv_raw_disk s) = (Err (NTSTATUS STATUS_END_OF_FILE), d)"
    by blast
  then show ?thesis
    using assms(3,9) k(1) by (intro exI [of _ d]) (simp add: driver_read_def Let_def k_def [symmetric] linorder_not_le)
qed

section \<open>The cache\<close>

text \<open>
  What the driver relies on of the \<open>lru\<close> crate, for the view \<open>look\<close> of its content: a new cache is
  empty, \<open>get\<close> returns the content and keeps it, \<open>put\<close> stores its entry and may evict others,
  \<open>contains\<close> tells whether there is an entry.
\<close>

definition lru_laws :: "'c lru_cache \<Rightarrow> ('c \<Rightarrow> rstr \<Rightarrow> cached_stat option) \<Rightarrow> bool" where
  "lru_laws lru look \<longleftrightarrow>
     (\<forall>n p. look (lru_new lru n) p = None) \<and>
     (\<forall>c p. fst (lru_get lru c p) = look c p \<and> look (snd (lru_get lru c p)) = look c) \<and>
     (\<forall>c p v. look (lru_put lru c p v) p = Some v) \<and>
     (\<forall>c p v q u. q \<noteq> p \<longrightarrow> look (lru_put lru c p v) q = Some u \<longrightarrow> look c q = Some u) \<and>
     (\<forall>c p. lru_contains lru c p \<longleftrightarrow> look c p \<noteq> None)"

lemma lru_lawsD:
  assumes "lru_laws lru look"
  shows "look (lru_new lru n) p = None" and "fst (lru_get lru c p) = look c p"
    and "look (snd (lru_get lru c p)) = look c" and "look (lru_put lru c p v) p = Some v"
    and "look (lru_put lru c p v) q = Some u \<Longrightarrow> q \<noteq> p \<Longrightarrow> look c q = Some u"
    and "lru_contains lru c p \<longleftrightarrow> look c p \<noteq> None"
  using assms unfolding lru_laws_def by blast+

text \<open>
  A cached entry is what the library says of the path now: all of it when its extents were
  resolved, otherwise what the listing of its directory says.
\<close>

definition cached_ok :: "nat \<Rightarrow> apfs_volume \<Rightarrow> rstr \<Rightarrow> cached_stat \<Rightarrow> bool" where
  "cached_ok fuel vol path c \<longleftrightarrow>
     (if cs_extents_resolved c
      then stat_and_extents fuel vol path = Ok (cs_stat c, cs_extent_map c, cs_file_size c)
      else \<exists>dir es e. vol_list_directory fuel vol dir = Ok es \<and> e \<in> set es \<and>
             path = child_path (if is_root_path dir then [] else dir) (de_name e) \<and> c = entry_cached e)"

definition cache_ok :: "nat \<Rightarrow> ('c \<Rightarrow> rstr \<Rightarrow> cached_stat option) \<Rightarrow> ('h, 'c) driver \<Rightarrow> bool" where
  "cache_ok fuel look s \<longleftrightarrow>
     (\<forall>p c. look (dv_stat_cache s) p = Some c \<longrightarrow> cached_ok fuel (dv_volume s) p c)"

lemma cache_okD: "cache_ok fuel look s \<Longrightarrow> look (dv_stat_cache s) p = Some c \<Longrightarrow> cached_ok fuel (dv_volume s) p c"
  by (simp add: cache_ok_def)

text \<open>The part of the state that no callback but \<open>read\<close> touches.\<close>

definition same_mount :: "('h, 'c) driver \<Rightarrow> ('h, 'c) driver \<Rightarrow> bool" where
  "same_mount s t \<longleftrightarrow> dv_volume t = dv_volume s \<and> dv_partition_offset t = dv_partition_offset s \<and>
     dv_disk_size t = dv_disk_size s \<and> dv_raw_disk t = dv_raw_disk s \<and> dv_raw_disk_poisoned t = dv_raw_disk_poisoned s"

lemma same_mount_refl [simp]: "same_mount s s"
  by (simp add: same_mount_def)

lemma same_mount_trans: "same_mount s t \<Longrightarrow> same_mount t u \<Longrightarrow> same_mount s u"
  by (simp add: same_mount_def)

definition keeps :: "nat \<Rightarrow> ('c \<Rightarrow> rstr \<Rightarrow> cached_stat option) \<Rightarrow> ('h, 'c) driver \<Rightarrow> ('h, 'c) driver \<Rightarrow> bool" where
  "keeps fuel look s t \<longleftrightarrow> same_mount s t \<and> (cache_ok fuel look s \<longrightarrow> cache_ok fuel look t)"

lemma keeps_refl [simp]: "keeps fuel look s s"
  by (simp add: keeps_def)

lemma keeps_trans: "keeps fuel look s t \<Longrightarrow> keeps fuel look t u \<Longrightarrow> keeps fuel look s u"
  by (auto simp: keeps_def intro: same_mount_trans)

named_theorems keeps_intros \<open>introduction rules: this operation keeps the mount and its cache\<close>

lemma bind_op_keeps [keeps_intros]:
  "keeps fuel look s (snd (m s)) \<Longrightarrow> (\<And>x t. m s = (Ok x, t) \<Longrightarrow> keeps fuel look t (snd (f x t))) \<Longrightarrow>
    keeps fuel look s (snd (bind_op m f s))"
  by (auto simp: bind_op_def split: prod.splits outcome.splits intro: keeps_trans)

lemma return_op_keeps [keeps_intros]: "keeps fuel look s (snd (return_op x s))"
  by simp

lemma case_keeps [keeps_intros]:
  "(v = None \<Longrightarrow> keeps fuel look s (snd (m s))) \<Longrightarrow> (\<And>x. v = Some x \<Longrightarrow> keeps fuel look s (snd (f x s))) \<Longrightarrow>
    keeps fuel look s (snd ((case v of None \<Rightarrow> m | Some x \<Rightarrow> f x) s))"
  "(b \<Longrightarrow> keeps fuel look s (snd (m s))) \<Longrightarrow> (\<not> b \<Longrightarrow> keeps fuel look s (snd (n s))) \<Longrightarrow>
    keeps fuel look s (snd ((if b then m else n) s))"
  by (cases v; simp) (cases b; simp)

section \<open>Every callback keeps the cache coherent\<close>

lemma get_cached_stat_keeps:
  assumes "lru_laws lru look"
  shows "keeps fuel look s (snd (get_cached_stat lru path s))"
    and "get_cached_stat lru path s = (r, t) \<Longrightarrow> r = Ok (look (dv_stat_cache s) path)"
proof -
  obtain found cache where get: "lru_get lru (dv_stat_cache s) path = (found, cache)"
    by fastforce
  have laws: "fst (lru_get lru (dv_stat_cache s) path) = look (dv_stat_cache s) path"
    "look (snd (lru_get lru (dv_stat_cache s) path)) = look (dv_stat_cache s)"
    by (rule lru_lawsD [OF assms])+
  show "keeps fuel look s (snd (get_cached_stat lru path s))"
    using get laws by (simp add: get_cached_stat_def keeps_def same_mount_def cache_ok_def)
  show "get_cached_stat lru path s = (r, t) \<Longrightarrow> r = Ok (look (dv_stat_cache s) path)"
    using get laws by (simp add: get_cached_stat_def)
qed

lemma with_volume_keeps [keeps_intros]: "keeps fuel look s (snd (with_volume status f s))"
  by (auto simp: with_volume_def keeps_def same_mount_def cache_ok_def split: outcome.splits)

lemma with_volume_Ok: "with_volume status f s = (Ok x, t) \<longleftrightarrow> \<not> dv_volume_poisoned s \<and> f (dv_volume s) = Ok x \<and> t = s"
  by (auto simp: with_volume_def split: outcome.splits)

lemma put_keeps:
  assumes "lru_laws lru look" and "cached_ok fuel (dv_volume s) path c"
  shows "keeps fuel look s (s\<lparr>dv_stat_cache := lru_put lru (dv_stat_cache s) path c\<rparr>)"
proof -
  have "cached_ok fuel (dv_volume s) q u"
    if "cache_ok fuel look s" "look (lru_put lru (dv_stat_cache s) path c) q = Some u" for q u
  proof (cases "q = path")
    case True
    then have "u = c"
      using that(2) lru_lawsD(4) [OF assms(1), of "dv_stat_cache s" path c] by (simp only: option.inject)
    with True assms(2) show ?thesis by simp
  next
    case False
    then show ?thesis
      using cache_okD [OF that(1)] lru_lawsD(5) [OF assms(1) that(2)] by blast
  qed
  then show ?thesis
    by (simp add: keeps_def same_mount_def cache_ok_def)
qed

lemma resolve_and_cache_keeps:
  assumes "lru_laws lru look"
  shows "keeps fuel look s (snd (resolve_and_cache fuel lru path s))"
  unfolding resolve_and_cache_def
proof (rule bind_op_keeps [OF with_volume_keeps])
  fix x t
  assume "with_volume STATUS_OBJECT_NAME_NOT_FOUND (\<lambda>vol. stat_and_extents fuel vol path) s = (Ok x, t)"
  then have x: "stat_and_extents fuel (dv_volume t) path = Ok x"
    by (simp add: with_volume_Ok)
  obtain st em sz where [simp]: "x = (st, em, sz)"
    by (cases x)
  have "cached_ok fuel (dv_volume t) path \<lparr>cs_stat = st, cs_extent_map = em, cs_file_size = sz, cs_extents_resolved = True\<rparr>"
    using x by (simp add: cached_ok_def)
  from put_keeps [OF assms this]
  show "keeps fuel look t (snd ((case x of (st, extent_map, file_size) \<Rightarrow>
      let c = \<lparr>cs_stat = st, cs_extent_map = extent_map, cs_file_size = file_size, cs_extents_resolved = True\<rparr>
      in bind_op (put_cached_stat lru path c) (\<lambda>_. return_op c)) t))"
    by (simp add: Let_def put_cached_stat_def)
qed

lemma resolve_and_cache_Ok:
  assumes "resolve_and_cache fuel lru path s = (Ok c, t)"
  shows "stat_and_extents fuel (dv_volume s) path = Ok (cs_stat c, cs_extent_map c, cs_file_size c)"
    and "cs_extents_resolved c"
  using assms
  by (auto simp: resolve_and_cache_def outcome_iffs with_volume_Ok Let_def put_cached_stat_def split: prod.splits)

lemma callbacks_keep:
  assumes "lru_laws lru look"
  shows "keeps fuel look s (snd (get_security_by_name fuel lru name s))"
    and "keeps fuel look s (snd (driver_open fuel lru db name fi s))"
    and "keeps fuel look s (snd (get_file_info fuel lru ctx fi s))"
    and "keeps fuel look s (snd (get_volume_info s))"
proof -
  note rules = keeps_intros get_cached_stat_keeps(1) [OF assms] resolve_and_cache_keeps [OF assms]
  show "keeps fuel look s (snd (get_security_by_name fuel lru name s))"
    unfolding get_security_by_name_def Let_def by (intro rules)
  show "keeps fuel look s (snd (driver_open fuel lru db name fi s))"
    unfolding driver_open_def Let_def by (intro rules)
  show "keeps fuel look s (snd (get_file_info fuel lru ctx fi s))"
    unfolding get_file_info_def by (intro rules)
  show "keeps fuel look s (snd (get_volume_info s))"
    by (simp add: get_volume_info_def)
qed

lemma prepopulate_ok:
  assumes "lru_laws lru look" and "vol_list_directory fuel vol dir = Ok es"
    and "parent = (if is_root_path dir then [] else dir)"
  shows "set fs \<subseteq> set es \<Longrightarrow> (\<forall>p c. look cache p = Some c \<longrightarrow> cached_ok fuel vol p c) \<Longrightarrow>
    look (prepopulate lru parent fs cache) p = Some c \<Longrightarrow> cached_ok fuel vol p c"
proof (induction fs arbitrary: cache)
  case (Cons e fs)
  define path where "path = child_path parent (de_name e)"
  define cache' where "cache' = (if lru_contains lru cache path then cache else lru_put lru cache path (entry_cached e))"
  have new: "cached_ok fuel vol path (entry_cached e)"
    using Cons.prems(1) assms(2,3) by (auto simp: cached_ok_def path_def entry_cached_def)
  have "cached_ok fuel vol q u" if u: "look cache' q = Some u" for q u
  proof (cases "lru_contains lru cache path")
    case True
    with u Cons.prems(2) show ?thesis
      by (simp only: cache'_def if_True)
  next
    case False
    then have put: "look (lru_put lru cache path (entry_cached e)) q = Some u"
      using u by (simp only: cache'_def if_False)
    show ?thesis
    proof (cases "q = path")
      case True
      with put new show ?thesis
        using lru_lawsD(4) [OF assms(1)] by (metis option.inject)
    next
      case False
      with Cons.prems(2) show ?thesis
        using lru_lawsD(5) [OF assms(1) put] by blast
    qed
  qed
  then show ?case
    using Cons.IH [of cache'] Cons.prems by (simp add: Let_def path_def [symmetric] cache'_def [symmetric])
qed simp

lemma read_directory_keeps:
  assumes "lru_laws lru look"
  shows "keeps fuel look s (fst (snd (read_directory fuel lru db marker n (s, ctx))))"
proof (cases "marker \<and> (\<exists>es. vol_list_directory fuel (dv_volume s) (fc_path ctx) = Ok es) \<and> \<not> dv_volume_poisoned s")
  case True
  then obtain es where es: "vol_list_directory fuel (dv_volume s) (fc_path ctx) = Ok es"
    by blast
  define parent where "parent = (if is_root_path (fc_path ctx) then [] else fc_path ctx)"
  define t where "t = s\<lparr>dv_stat_cache := prepopulate lru parent es (dv_stat_cache s)\<rparr>"
  have "fst (snd (read_directory fuel lru db marker n (s, ctx))) = t"
    using True es by (simp add: read_directory_def with_volume_def Let_def is_root_path_def parent_def t_def
        split: outcome.split prod.split)
  moreover have "keeps fuel look s t"
    using prepopulate_ok [OF assms es parent_def subset_refl] by (auto simp: keeps_def same_mount_def cache_ok_def t_def)
  ultimately show ?thesis by simp
next
  case False
  have "\<exists>u. fst (snd (read_directory fuel lru db marker n (s, ctx))) = s\<lparr>dv_volume_poisoned := u\<rparr>"
  proof (cases "vol_list_directory fuel (dv_volume s) (fc_path ctx)")
    case Ok
    with False show ?thesis
      by (intro exI [of _ "dv_volume_poisoned s"]) (auto simp: read_directory_def with_volume_def)
  next
    case Panic
    then show ?thesis
      by (intro exI [of _ "marker \<or> dv_volume_poisoned s"]) (auto simp: read_directory_def with_volume_def)
  qed (intro exI [of _ "dv_volume_poisoned s"]; auto simp: read_directory_def with_volume_def)+
  then show ?thesis
    by (auto simp: keeps_def same_mount_def cache_ok_def)
qed

end
