(* ===== verification/Driver_Mount.thy ===== *)
theory Driver_Mount
  imports Driver_Correct
begin

text \<open>
  The life of a mount: the states that \<open>ApfsDriver::new\<close> and any sequence of callbacks reach, what
  holds in all of them, and the properties of \<open>src/driver.rs\<close> that rest on it.
\<close>

section \<open>Reachable states\<close>

text \<open>The states of one mount: after \<open>new\<close>, any sequence of callbacks, whatever they return.\<close>

inductive driver_reachable ::
    "nat \<Rightarrow> 'h win32 \<Rightarrow> 'c lru_cache \<Rightarrow> 'b dir_buffer \<Rightarrow> 'h disk_reader \<Rightarrow> ('h, 'c) driver \<Rightarrow> bool"
  for fuel :: nat and w :: "'h win32" and lru :: "'c lru_cache" and db :: "'b dir_buffer" and disk :: "'h disk_reader"
where
  mounted: "driver_new fuel w lru disk = Ok s \<Longrightarrow> driver_reachable fuel w lru db disk s"
| security: "driver_reachable fuel w lru db disk s \<Longrightarrow> get_security_by_name fuel lru name s = (r, t) \<Longrightarrow>
    driver_reachable fuel w lru db disk t"
| opened: "driver_reachable fuel w lru db disk s \<Longrightarrow> driver_open fuel lru db name info s = (r', t) \<Longrightarrow>
    driver_reachable fuel w lru db disk t"
| read: "driver_reachable fuel w lru db disk s \<Longrightarrow> driver_read w (ctx :: 'b file_context) n off s = (rd, t) \<Longrightarrow>
    driver_reachable fuel w lru db disk t"
| listed: "driver_reachable fuel w lru db disk s \<Longrightarrow> read_directory fuel lru db marker n (s, ctx) = (rl, t, ctx') \<Longrightarrow>
    driver_reachable fuel w lru db disk t"
| info: "driver_reachable fuel w lru db disk s \<Longrightarrow> get_file_info fuel lru (ctx :: 'b file_context) fi s = (ri, t) \<Longrightarrow>
    driver_reachable fuel w lru db disk t"
| volume_info: "driver_reachable fuel w lru db disk s \<Longrightarrow> get_volume_info s = (rv, t) \<Longrightarrow>
    driver_reachable fuel w lru db disk t"

definition mount_ok :: "nat \<Rightarrow> 'h win32 \<Rightarrow> ('c \<Rightarrow> rstr \<Rightarrow> cached_stat option) \<Rightarrow> ('h \<Rightarrow> bool) \<Rightarrow> 'h disk_reader \<Rightarrow>
    ('h, 'c) driver \<Rightarrow> bool" where
  "mount_ok fuel w look on_dev disk s \<longleftrightarrow>
     cache_ok fuel look s \<and> open_volume fuel (disk_as_reader w disk) = Ok (dv_volume s) \<and>
     dv_partition_offset s = dr_offset disk \<and> on_dev (dr_handle (dv_raw_disk s)) \<and> dr_offset (dv_raw_disk s) = 0"

lemma open_with_offset_Ok:
  assumes "open_with_offset w path off = Ok d" and "opens_device w on_dev path"
  shows "on_dev (dr_handle d)" and "dr_offset d = off" and "dr_device_path d = path"
  using assms by (auto simp: open_with_offset_def opens_device_def outcome_iffs split: if_splits)

lemma driver_new_ok:
  assumes "driver_new fuel w lru disk = Ok s" and "lru_laws lru look" and "opens_device w on_dev (dr_device_path disk)"
  shows "mount_ok fuel w look on_dev disk s"
proof -
  obtain raw where raw: "reopen_raw w disk = Ok raw" "dv_raw_disk s = raw" "dv_partition_offset s = dr_offset disk"
    "open_volume fuel (disk_as_reader w disk) = Ok (dv_volume s)" "dv_stat_cache s = lru_new lru STAT_CACHE_CAPACITY"
    using assms(1) by (auto simp: driver_new_def Let_def outcome_iffs)
  then show ?thesis
    using open_with_offset_Ok [OF _ assms(3)] lru_lawsD(1) [OF assms(2)]
    by (simp add: mount_ok_def cache_ok_def reopen_raw_def)
qed

lemma keeps_mount_ok: "keeps fuel look s t \<Longrightarrow> mount_ok fuel w look on_dev disk s \<Longrightarrow> mount_ok fuel w look on_dev disk t"
  by (simp add: keeps_def same_mount_def mount_ok_def)

lemma read_loop_stays:
  assumes "raw_device w on_dev ptr img"
  shows "on_dev (dr_handle d) \<Longrightarrow> on_dev (dr_handle (snd (read_loop w em start off to_read got d)))
    \<and> dr_offset (snd (read_loop w em start off to_read got d)) = dr_offset d"
proof (induction "to_read - length got" arbitrary: got d rule: less_induct)
  case less
  show ?case
  proof (cases "length got < to_read \<and> (\<exists>p. extent_to_physical em (off + of_nat (length got)) = Some p)
      \<and> extent_remaining em (off + of_nat (length got)) \<noteq> 0")
    case False
    with less.prems show ?thesis
      by (auto simp: read_loop.simps Let_def split: option.splits)
  next
    case True
    then obtain p where p: "extent_to_physical em (off + of_nat (length got)) = Some p" by blast
    define k where "k = min (to_read - length got) (unat (extent_remaining em (off + of_nat (length got))))"
    obtain r d' where r: "read_at_absolute w (start + p) k d = (r, d')" by fastforce
    then have d': "on_dev (dr_handle d')" "dr_offset d' = dr_offset d"
      using read_at_absolute_stays [OF assms less.prems, of "start + p" k] by simp_all
    have loop: "read_loop w em start off to_read got d =
        (case r of Ok bs \<Rightarrow> if bs = [] then (Ok got, d') else read_loop w em start off to_read (got @ bs) d'
          | Err e \<Rightarrow> (Err (NTSTATUS STATUS_END_OF_FILE), d') | Panic \<Rightarrow> (Panic, d') | NoFuel \<Rightarrow> (NoFuel, d'))"
      using True p r by (subst read_loop.simps) (simp add: Let_def k_def split: outcome.split)
    show ?thesis
    proof (cases r)
      case (Ok bs)
      have "to_read - length (got @ bs) < to_read - length got" if "bs \<noteq> []"
        using that True by (intro diff_less_mono2) simp_all
      with less.hyps [of "got @ bs" d'] Ok d' loop show ?thesis
        by (cases "bs = []") simp_all
    qed (use loop d' in simp_all)
  qed
qed

lemma driver_read_mount_ok:
  assumes "raw_device w on_dev ptr img" and "mount_ok fuel w look on_dev disk s"
  shows "mount_ok fuel w look on_dev disk (snd (driver_read w ctx n off s))"
proof -
  obtain r d where loop: "read_loop w (fc_extent_map ctx) (dv_partition_offset s) off
      (min n (unat (fc_file_size ctx - off))) [] (dv_raw_disk s) = (r, d)"
    by fastforce
  have "on_dev (dr_handle (dv_raw_disk s))" "dr_offset (dv_raw_disk s) = 0"
    using assms(2) by (simp_all add: mount_ok_def)
  then have "on_dev (dr_handle d)" "dr_offset d = 0"
    using read_loop_stays [OF assms(1)] by (metis loop snd_conv)+
  then show ?thesis
    using assms(2) unfolding driver_read_def Let_def loop
    by (cases r) (auto simp: mount_ok_def cache_ok_def)
qed

lemma reachable_mount_ok:
  assumes "driver_reachable fuel w lru db disk s"
    and "raw_device w on_dev ptr img" and "lru_laws lru look" and "opens_device w on_dev (dr_device_path disk)"
  shows "mount_ok fuel w look on_dev disk s"
  using assms(1)
proof induction
  case (mounted s)
  then show ?case
    using driver_new_ok assms(3,4) by blast
next
  case (read s ctx n off rd t)
  then show ?case
    using driver_read_mount_ok [OF assms(2)] by (metis snd_conv)
next
  case (listed s marker n ctx rl t ctx')
  then show ?case
    using read_directory_keeps [OF assms(3)] keeps_mount_ok by (metis fst_conv snd_conv)
qed (use callbacks_keep [OF assms(3)] keeps_mount_ok in \<open>metis snd_conv\<close>)+

text \<open>
  C2: in every state that a mount reaches by any sequence of callbacks, each entry of the stat cache
  is what the library says of its path: exactly \<open>stat_and_extents\<close> where the entry claims resolved
  extents, and otherwise the entry of the path in the listing of its directory. The volume stays
  the one that was opened, and the raw handle stays on the device, without offset.
\<close>

theorem stat_cache_coherent:
  assumes "driver_reachable fuel w lru db disk s"
    and "raw_device w on_dev ptr img" and "lru_laws lru look" and "opens_device w on_dev (dr_device_path disk)"
  shows "cache_ok fuel look s \<and> open_volume fuel (disk_as_reader w disk) = Ok (dv_volume s)
    \<and> dv_partition_offset s = dr_offset disk \<and> on_dev (dr_handle (dv_raw_disk s)) \<and> dr_offset (dv_raw_disk s) = 0"
  using reachable_mount_ok [OF assms] by (simp add: mount_ok_def)

section \<open>Reading an opened file\<close>

lemma open_volume_reader: "open_volume fuel rd = Ok vol \<Longrightarrow> av_reader vol = rd"
  by (auto simp: open_volume_def Let_def outcome_iffs)

lemma open_context:
  assumes "cache_ok fuel look s" and "lru_laws lru look"
    and "driver_open fuel lru db name fi s = (Ok (ctx, fi'), t)" and "fi_file_attributes fi' = FILE_ATTRIBUTE_READONLY"
  shows "\<exists>st. stat_and_extents fuel (dv_volume s) (u16_to_path name) = Ok (st, fc_extent_map ctx, fc_file_size ctx)
    \<and> st_kind st \<noteq> Directory"
proof -
  define path where "path = u16_to_path name"
  obtain found s1 where get: "get_cached_stat lru path s = (Ok found, s1)" "found = look (dv_stat_cache s) path"
    "dv_volume s1 = dv_volume s"
    using get_cached_stat_keeps(1) [OF assms(2), where s = s and path = path]
      get_cached_stat_keeps(2) [OF assms(2), where s = s and path = path]
    by (cases "get_cached_stat lru path s") (auto simp: keeps_def same_mount_def)
  obtain c s2 where c: "(case found of
         Some c \<Rightarrow> if cs_extents_resolved c \<or> st_kind (cs_stat c) = Directory then return_op c
                   else resolve_and_cache fuel lru path
       | None \<Rightarrow> resolve_and_cache fuel lru path) s1 = (Ok c, s2)"
    and ctx: "fc_extent_map ctx = cs_extent_map c" "fc_file_size ctx = cs_file_size c"
    and kind: "fi' = fill_file_info fi (cs_stat c) (cs_file_size c)"
    using assms(3) get(1) by (auto simp: driver_open_def Let_def path_def [symmetric] outcome_iffs)
  have is_file: "st_kind (cs_stat c) \<noteq> Directory"
    using kind assms(4) by (auto simp: fill_file_info_def FILE_ATTRIBUTE_READONLY_def FILE_ATTRIBUTE_DIRECTORY_def)
  have "stat_and_extents fuel (dv_volume s) path = Ok (cs_stat c, cs_extent_map c, cs_file_size c)"
  proof (cases "\<exists>c'. found = Some c' \<and> (cs_extents_resolved c' \<or> st_kind (cs_stat c') = Directory)")
    case True
    then have hit: "found = Some c" "cs_extents_resolved c"
      using c is_file by auto
    then have "cached_ok fuel (dv_volume s) path c"
      using cache_okD [OF assms(1)] get(2) by simp
    with hit(2) show ?thesis
      by (simp add: cached_ok_def)
  next
    case False
    then have "resolve_and_cache fuel lru path s1 = (Ok c, s2)"
      using c by (auto split: option.splits if_splits)
    from resolve_and_cache_Ok(1) [OF this] show ?thesis
      by (simp add: get(3))
  qed
  with is_file ctx show ?thesis
    by (auto simp: path_def)
qed

text \<open>What the library and a read of the raw disk make of an opened file, in any reachable state.\<close>

lemma opened_file:
  assumes dev: "raw_device w on_dev ptr img" "opens_device w on_dev (dr_device_path disk)" "on_dev (dr_handle disk)"
      "unat (dr_offset disk) \<le> length img"
    and lru: "lru_laws lru look"
    and opened: "driver_reachable fuel w lru db disk s" "driver_open fuel lru db name fi s = (Ok (ctx, fi'), t)"
      "fi_file_attributes fi' = FILE_ATTRIBUTE_READONLY"
    and extents: "in_image (partition_bytes disk img) (fc_extent_map ctx)" "total_len (fc_extent_map ctx) < 2 ^ 64"
    and blocks: "0 < av_block_size (dv_volume s)" "unat (av_block_size (dv_volume s)) \<le> 2 ^ 32 - 1024"
    and fuel: "0 < fuel" "\<forall>(l, p, k) \<in> set (fc_extent_map ctx). unat k \<le> unat (av_block_size (dv_volume s)) * (fuel - 1)"
  shows "read_file fuel (dv_volume s) (u16_to_path name) =
      Ok (take (unat (fc_file_size ctx)) (content (partition_bytes disk img) (fc_extent_map ctx)))"
    and "contiguous 0 (fc_extent_map ctx)"
proof -
  define part em sz where "part = partition_bytes disk img" and "em = fc_extent_map ctx" and "sz = fc_file_size ctx"
  have s: "mount_ok fuel w look on_dev disk s"
    by (rule reachable_mount_ok [OF opened(1) dev(1) lru dev(2)])
  obtain st where "stat_and_extents fuel (dv_volume s) (u16_to_path name) = Ok (st, em, sz)" "st_kind st \<noteq> Directory"
    using open_context [OF _ lru opened(2,3)] s by (auto simp: mount_ok_def em_def sz_def)
  then have map: "get_file_extents fuel (dv_volume s) (u16_to_path name) = Ok (em, sz)"
    using stat_and_extents_parts by fastforce
  have rd: "av_reader (dv_volume s) = disk_as_reader w disk"
    by (rule open_volume_reader [where fuel = fuel]) (use s in \<open>simp add: mount_ok_def\<close>)
  have "reads_upto (unat (av_block_size (dv_volume s))) (av_reader (dv_volume s)) part"
    unfolding rd part_def by (rule disk_as_reader_upto [OF dev(1,3) blocks(2) dev(4)])
  then show "read_file fuel (dv_volume s) (u16_to_path name) =
      Ok (take (unat (fc_file_size ctx)) (content (partition_bytes disk img) (fc_extent_map ctx)))"
    unfolding em_def [symmetric] sz_def [symmetric] part_def [symmetric]
    by (rule read_file_content) (use blocks(1) map extents(1) fuel in \<open>simp_all add: part_def em_def\<close>)
  obtain es where es: "em = build_extent_map (ucast (av_block_size (dv_volume s))) es 0"
    using map by (auto simp: get_file_extents_def Let_def outcome_iffs)
  show "contiguous 0 (fc_extent_map ctx)"
    using build_contiguous [of 0 es] extents(2) es by (simp add: total_len_build em_def)
qed

text \<open>
  C1: an opened file is served exactly, where its extents hold all of it. Whatever callbacks ran before
  the open and between the open and the read, a read at any offset returns the bytes that the
  library's \<open>read_file\<close> returns for that path, from the offset on, as many as the buffer holds and
  the file has, and their number, although it goes through the cached extents and a second, raw
  handle. The extents must lie in the bytes of the partition, cover the file's size (what a file that
  they do not cover does is a property of its own) and add up to less than 2^64; the partition must
  start within the device; the buffer and the volume's block size are at most 2^32 - 1024 bytes, so
  that the aligned read of a chunk has a length in \<open>u32\<close>, and the block size is not 0; no earlier
  read panicked under the raw disk's lock; and the fuel is enough for the library's copy of the
  longest extent.
\<close>

theorem driver_serves_file:
  assumes dev: "raw_device w on_dev ptr img" "opens_device w on_dev (dr_device_path disk)" "on_dev (dr_handle disk)"
      "unat (dr_offset disk) \<le> length img"
    and lru: "lru_laws lru look"
    and opened: "driver_reachable fuel w lru db disk s" "driver_open fuel lru db name fi s = (Ok (ctx, fi'), t)"
      "fi_file_attributes fi' = FILE_ATTRIBUTE_READONLY"
    and reading: "driver_reachable fuel w lru db disk u" "\<not> dv_raw_disk_poisoned u" "n \<le> 2 ^ 32 - 1024"
    and extents: "in_image (partition_bytes disk img) (fc_extent_map ctx)" "total_len (fc_extent_map ctx) < 2 ^ 64"
      "unat (fc_file_size ctx) \<le> total_len (fc_extent_map ctx)"
    and blocks: "0 < av_block_size (dv_volume s)" "unat (av_block_size (dv_volume s)) \<le> 2 ^ 32 - 1024"
    and fuel: "0 < fuel" "\<forall>(l, p, k) \<in> set (fc_extent_map ctx). unat k \<le> unat (av_block_size (dv_volume s)) * (fuel - 1)"
  shows "\<exists>file u'. read_file fuel (dv_volume s) (u16_to_path name) = Ok file \<and>
    driver_read w ctx n off u = (let bs = take n (drop (unat off) file) in (Ok (of_nat (length bs), bs), u'))"
proof -
  note contents = opened_file [OF dev lru opened extents(1,2) blocks fuel]
  have "mount_ok fuel w look on_dev disk u"
    by (rule reachable_mount_ok [OF reading(1) dev(1) lru dev(2)])
  then have "on_dev (dr_handle (dv_raw_disk u))" "dv_partition_offset u = dr_offset disk"
    by (simp_all add: mount_ok_def)
  then have "\<exists>d. driver_read w ctx n off u = (let bs = take n (drop (unat off)
      (take (unat (fc_file_size ctx)) (content (partition_bytes disk img) (fc_extent_map ctx))))
      in (Ok (of_nat (length bs), bs), u\<lparr>dv_raw_disk := d\<rparr>))"
    by (intro driver_read_content [OF dev(1) _ reading(2)])
      (use contents(2) extents dev(4) reading(3) in \<open>simp_all add: partition_bytes_def file_ok_def\<close>)
  with contents(1) show ?thesis
    by (auto simp: Let_def)
qed

text \<open>
  C28: a file whose extents end before its size, such as a compressed one, whose data are elsewhere,
  is not served: the library's \<open>read_file\<close> returns the bytes that the extents hold, fewer than the
  size, but a read through the driver of a range that goes past them fails with \<open>STATUS_END_OF_FILE\<close>,
  also when the range starts with bytes that the extents do hold and that have been read by then.
  As for covered files, the extents there are must lie in the bytes of the
  partition and add up to less than 2^64, the partition start within the device, the buffer and the
  block size be at most 2^32 - 1024 bytes and not 0, the raw disk's lock not be poisoned, and the
  fuel be enough for the library's copy of the longest extent.
\<close>

theorem uncovered_read_fails:
  assumes dev: "raw_device w on_dev ptr img" "opens_device w on_dev (dr_device_path disk)" "on_dev (dr_handle disk)"
      "unat (dr_offset disk) \<le> length img"
    and lru: "lru_laws lru look"
    and opened: "driver_reachable fuel w lru db disk s" "driver_open fuel lru db name fi s = (Ok (ctx, fi'), t)"
      "fi_file_attributes fi' = FILE_ATTRIBUTE_READONLY"
    and reading: "driver_reachable fuel w lru db disk u" "\<not> dv_raw_disk_poisoned u" "0 < n" "n \<le> 2 ^ 32 - 1024"
    and extents: "in_image (partition_bytes disk img) (fc_extent_map ctx)" "total_len (fc_extent_map ctx) < 2 ^ 64"
    and uncovered: "off < fc_file_size ctx" "total_len (fc_extent_map ctx) < unat off + min n (unat (fc_file_size ctx - off))"
    and blocks: "0 < av_block_size (dv_volume s)" "unat (av_block_size (dv_volume s)) \<le> 2 ^ 32 - 1024"
    and fuel: "0 < fuel" "\<forall>(l, p, k) \<in> set (fc_extent_map ctx). unat k \<le> unat (av_block_size (dv_volume s)) * (fuel - 1)"
  shows "\<exists>file u'. read_file fuel (dv_volume s) (u16_to_path name) = Ok file \<and> length file = total_len (fc_extent_map ctx) \<and>
    length file < unat (fc_file_size ctx) \<and> driver_read w ctx n off u = (Err (NTSTATUS STATUS_END_OF_FILE), u')"
proof -
  note contents = opened_file [OF dev lru opened extents blocks fuel]
  have "mount_ok fuel w look on_dev disk u"
    by (rule reachable_mount_ok [OF reading(1) dev(1) lru dev(2)])
  then have "on_dev (dr_handle (dv_raw_disk u))" "dv_partition_offset u = dr_offset disk"
    by (simp_all add: mount_ok_def)
  then have "\<exists>d. driver_read w ctx n off u = (Err (NTSTATUS STATUS_END_OF_FILE), u\<lparr>dv_raw_disk := d\<rparr>)"
    by (intro driver_read_uncovered [OF dev(1) _ reading(2)])
      (use contents(2) extents dev(4) reading(3,4) uncovered in \<open>simp_all add: partition_bytes_def\<close>)
  moreover have "unat (fc_file_size ctx - off) = unat (fc_file_size ctx) - unat off" "unat off < unat (fc_file_size ctx)"
    using uncovered(1) by (simp_all add: unat_sub less_imp_le word_less_nat_alt)
  then have "total_len (fc_extent_map ctx) < unat (fc_file_size ctx)"
    using uncovered(2) by (simp add: min_def split: if_splits)
  ultimately show ?thesis
    using contents(1) length_content [OF extents(1)] by auto
qed

section \<open>Panics\<close>

lemma with_volume_poisoned: "dv_volume_poisoned s \<Longrightarrow> with_volume status f s = (Panic, s)"
  by (simp add: with_volume_def)

text \<open>One callback of a mount, of any kind and with any result.\<close>

inductive callback_step :: "nat \<Rightarrow> 'h win32 \<Rightarrow> 'c lru_cache \<Rightarrow> 'b dir_buffer \<Rightarrow> ('h, 'c) driver \<Rightarrow> ('h, 'c) driver \<Rightarrow> bool"
  for fuel :: nat and w :: "'h win32" and lru :: "'c lru_cache" and db :: "'b dir_buffer"
where
  step_security: "get_security_by_name fuel lru name s = (r, t) \<Longrightarrow> callback_step fuel w lru db s t"
| step_open: "driver_open fuel lru db name info s = (r', t) \<Longrightarrow> callback_step fuel w lru db s t"
| step_read: "driver_read w (ctx :: 'b file_context) n off s = (rd, t) \<Longrightarrow> callback_step fuel w lru db s t"
| step_list: "read_directory fuel lru db marker n (s, ctx) = (rl, t, ctx') \<Longrightarrow> callback_step fuel w lru db s t"
| step_info: "get_file_info fuel lru (ctx :: 'b file_context) fi s = (ri, t) \<Longrightarrow> callback_step fuel w lru db s t"
| step_volume_info: "get_volume_info s = (rv, t) \<Longrightarrow> callback_step fuel w lru db s t"

text \<open>A poisoned mount stays so, and its cache takes nothing new.\<close>

definition stuck :: "('c \<Rightarrow> rstr \<Rightarrow> cached_stat option) \<Rightarrow> (rstr \<Rightarrow> cached_stat option) \<Rightarrow> ('h, 'c) driver \<Rightarrow> bool" where
  "stuck look known s \<longleftrightarrow> dv_volume_poisoned s \<and> look (dv_stat_cache s) = known"

lemma get_cached_stat_result:
  assumes "lru_laws lru look"
  obtains c where "get_cached_stat lru path s = (Ok (look (dv_stat_cache s) path), s\<lparr>dv_stat_cache := c\<rparr>)"
    and "look c = look (dv_stat_cache s)"
  using lru_lawsD(2,3) [OF assms, of "dv_stat_cache s" path] that
  by (cases "lru_get lru (dv_stat_cache s) path") (simp add: get_cached_stat_def)

lemma resolve_poisoned: "dv_volume_poisoned s \<Longrightarrow> resolve_and_cache fuel lru path s = (Panic, s)"
  by (simp add: resolve_and_cache_def with_volume_poisoned)

lemma stuck_callbacks:
  assumes "lru_laws lru look" and "stuck look known s"
  shows "stuck look known (snd (get_security_by_name fuel lru name s))"
    and "stuck look known (snd (driver_open fuel lru db name fi s))"
    and "stuck look known (snd (get_file_info fuel lru ctx fi s))"
    and "stuck look known (fst (snd (read_directory fuel lru db marker n (s, ctx'))))"
    and "stuck look known (snd (driver_read w ctx' n off s))"
proof -
  have s: "dv_volume_poisoned s" "look (dv_stat_cache s) = known"
    using assms(2) by (simp_all add: stuck_def)
  show "stuck look known (snd (get_security_by_name fuel lru name s))"
    by (rule get_cached_stat_result [OF assms(1), of "u16_to_path name" s])
      (use assms(2) s in \<open>auto simp: get_security_by_name_def Let_def resolve_poisoned stuck_def split: option.split\<close>)
  show "stuck look known (snd (driver_open fuel lru db name fi s))"
    by (rule get_cached_stat_result [OF assms(1), of "u16_to_path name" s])
      (use s in \<open>auto simp: driver_open_def Let_def resolve_poisoned stuck_def split: option.split\<close>)
  show "stuck look known (snd (get_file_info fuel lru ctx fi s))"
    by (rule get_cached_stat_result [OF assms(1), of "fc_path ctx" s])
      (use s in \<open>auto simp: get_file_info_def with_volume_poisoned stuck_def split: option.split\<close>)
  show "stuck look known (fst (snd (read_directory fuel lru db marker n (s, ctx'))))"
    using s by (simp add: read_directory_def with_volume_poisoned stuck_def)
  show "stuck look known (snd (driver_read w ctx' n off s))"
    using assms(2) by (auto simp: driver_read_def Let_def stuck_def split: prod.split outcome.split)
qed

lemma stuck_step:
  assumes "lru_laws lru look" and "stuck look known s" and "callback_step fuel w lru db s t"
  shows "stuck look known t"
  using assms(3)
  by cases (use stuck_callbacks [OF assms(1,2)] assms(2) in \<open>(metis fst_conv snd_conv | simp add: get_volume_info_def stuck_def)+\<close>)

lemma stuck_panics:
  assumes "lru_laws lru look" and "stuck look known s"
  shows "known (u16_to_path name) = None \<Longrightarrow> fst (driver_open fuel lru db name fi s) = Panic"
    and "known (u16_to_path name) = None \<Longrightarrow> u16_to_path name \<notin> {[SLASH], []} \<Longrightarrow>
      fst (get_security_by_name fuel lru name s) = Panic"
    and "known (fc_path ctx) = None \<Longrightarrow> fst (get_file_info fuel lru ctx fi s) = Panic"
    and "read_directory fuel lru db True n (s, ctx') = (Panic, s, ctx')" and "get_volume_info s = (Panic, s)"
proof -
  have s: "dv_volume_poisoned s" "look (dv_stat_cache s) = known"
    using assms(2) by (simp_all add: stuck_def)
  show "fst (driver_open fuel lru db name fi s) = Panic" if "known (u16_to_path name) = None"
    by (rule get_cached_stat_result [OF assms(1), of "u16_to_path name" s])
      (use that s in \<open>simp add: driver_open_def Let_def resolve_poisoned\<close>)
  show "fst (get_security_by_name fuel lru name s) = Panic"
    if "known (u16_to_path name) = None" "u16_to_path name \<notin> {[SLASH], []}"
    by (rule get_cached_stat_result [OF assms(1), of "u16_to_path name" s])
      (use that s in \<open>simp add: get_security_by_name_def Let_def resolve_poisoned\<close>)
  show "fst (get_file_info fuel lru ctx fi s) = Panic" if "known (fc_path ctx) = None"
    by (rule get_cached_stat_result [OF assms(1), of "fc_path ctx" s])
      (use that s in \<open>simp add: get_file_info_def with_volume_poisoned\<close>)
  show "read_directory fuel lru db True n (s, ctx') = (Panic, s, ctx')" "get_volume_info s = (Panic, s)"
    using s(1) by (simp_all add: read_directory_def with_volume_poisoned get_volume_info_def)
qed

text \<open>Reads do not look at the volume's lock.\<close>

lemma read_ignores_volume:
  assumes "dv_raw_disk t = dv_raw_disk s" "dv_raw_disk_poisoned t = dv_raw_disk_poisoned s"
    "dv_partition_offset t = dv_partition_offset s"
  shows "fst (driver_read w ctx n off t) = fst (driver_read w ctx n off s)"
proof -
  define m where "m = min n (unat (fc_file_size ctx - off))"
  obtain r d where "read_loop w (fc_extent_map ctx) (dv_partition_offset s) off m [] (dv_raw_disk s) = (r, d)"
    by fastforce
  then show ?thesis
    unfolding driver_read_def Let_def assms m_def [symmetric] by (cases r) simp_all
qed

text \<open>
  C35: a panic while the volume is locked, which a malformed block can cause, ends the mount's
  metadata for good. An \<open>open\<close> or a security query of an uncached path that meets it panics and
  poisons the lock; after that, whatever callbacks of any kind follow, the lock is poisoned, every
  listing (a \<open>read_directory\<close> without a marker) and every query of the volume information panics,
  and so do \<open>open\<close>, the security query (other than of the root) and \<open>get_file_info\<close> of every path
  that was not in the cache when the lock was poisoned, the path itself among them. Reads do not use the lock and go on as if it were not
  poisoned.
\<close>

theorem volume_panic_is_permanent:
  assumes "stat_and_extents fuel (dv_volume s) (u16_to_path name) = Panic" and "\<not> dv_volume_poisoned s"
    and "lru_laws lru look" and "look (dv_stat_cache s) (u16_to_path name) = None"
  shows "\<exists>t. driver_open fuel lru (db :: 'b dir_buffer) name fi s = (Panic, t)
    \<and> (u16_to_path name \<notin> {[SLASH], []} \<longrightarrow> get_security_by_name fuel lru name s = (Panic, t))
    \<and> (\<forall>(ctx :: 'b file_context) k off. fst (driver_read w ctx k off t) = fst (driver_read w ctx k off s))
    \<and> (\<forall>u. (callback_step fuel w lru db)\<^sup>*\<^sup>* t u \<longrightarrow> dv_volume_poisoned u
        \<and> (\<forall>n ctx. read_directory fuel lru db True n (u, ctx) = (Panic, u, ctx)) \<and> get_volume_info u = (Panic, u)
        \<and> (\<forall>other fi'. look (dv_stat_cache s) (u16_to_path other) = None \<longrightarrow>
             fst (driver_open fuel lru db other fi' u) = Panic
             \<and> (u16_to_path other \<notin> {[SLASH], []} \<longrightarrow> fst (get_security_by_name fuel lru other u) = Panic))
        \<and> (\<forall>(ctx :: 'b file_context) fi'. look (dv_stat_cache s) (fc_path ctx) = None \<longrightarrow> fst (get_file_info fuel lru ctx fi' u) = Panic)
        \<and> (\<forall>(ctx :: 'b file_context) k off. fst (driver_read w ctx k off u) = fst (driver_read w ctx k off (u\<lparr>dv_volume_poisoned := False\<rparr>))))"
proof -
  obtain c where c: "get_cached_stat lru (u16_to_path name) s = (Ok None, s\<lparr>dv_stat_cache := c\<rparr>)" "look c = look (dv_stat_cache s)"
    using get_cached_stat_result [OF assms(3), of "u16_to_path name" s] assms(4) by metis
  define t where "t = s\<lparr>dv_stat_cache := c, dv_volume_poisoned := True\<rparr>"
  have "resolve_and_cache fuel lru (u16_to_path name) (s\<lparr>dv_stat_cache := c\<rparr>) = (Panic, t)"
    using assms(1,2) by (simp add: resolve_and_cache_def with_volume_def t_def)
  then have panics: "driver_open fuel lru db name fi s = (Panic, t)"
    "u16_to_path name \<notin> {[SLASH], []} \<longrightarrow> get_security_by_name fuel lru name s = (Panic, t)"
    by (simp_all add: driver_open_def get_security_by_name_def Let_def c(1))
  have reads: "fst (driver_read w ctx k off t) = fst (driver_read w ctx k off s)" for ctx :: "'b file_context" and k off
    by (rule read_ignores_volume) (simp_all add: t_def)
  have stuck: "stuck look (look (dv_stat_cache s)) u" if "(callback_step fuel w lru db)\<^sup>*\<^sup>* t u" for u
    using that
  proof induction
    case base
    show ?case
      by (simp add: t_def stuck_def c(2))
  next
    case (step u v)
    show ?case
      by (rule stuck_step [OF assms(3) step.IH step.hyps(2)])
  qed
  show ?thesis
  proof (intro exI [of _ t] conjI allI impI panics(1) reads)
    fix u
    assume "(callback_step fuel w lru db)\<^sup>*\<^sup>* t u"
    note u = stuck [OF this]
    show "dv_volume_poisoned u"
      using u by (simp add: stuck_def)
    show "fst (driver_read w ctx k off u) = fst (driver_read w ctx k off (u\<lparr>dv_volume_poisoned := False\<rparr>))"
      for ctx :: "'b file_context" and k off
      by (rule read_ignores_volume) simp_all
  qed (use panics(2) stuck_panics [OF assms(3) stuck] in simp_all)
qed

section \<open>Sizes, times and paths\<close>

text \<open>
  C39: the allocation size reported for a file is its size rounded up to whole 4096-byte blocks; only
  within 4095 bytes of the largest \<open>u64\<close> does the sum wrap, and then it reports 0.
\<close>

theorem allocation_size_rounds_up:
  "unat (allocation_size sz) = (if unat sz + 4095 < 2 ^ 64 then (unat sz + 4095) div 4096 * 4096 else 0)"
proof -
  define y where "y = sz + 4095"
  have "(4095 :: u64) = mask 12"
    by (simp add: mask_eq_exp_minus_1)
  then have "allocation_size sz = push_bit 12 (drop_bit 12 y)"
    by (auto simp: allocation_size_def y_def bit_eq_iff bit_simps not_less)
  then have "unat (allocation_size sz) = take_bit 64 (push_bit 12 (drop_bit 12 (unat y)))"
    by (simp add: unsigned_push_bit_eq unat_drop_bit_eq)
  also have "\<dots> = unat y div 4096 * 4096"
  proof -
    have "unat y div 4096 * 4096 < 2 ^ 64"
      using le_less_trans [OF div_times_less_eq_dividend unat_less_pow64, of y 4096] by simp
    then show ?thesis
      unfolding take_bit_eq_mod push_bit_eq_mult drop_bit_eq_div by simp
  qed
  finally have alloc: "unat (allocation_size sz) = unat y div 4096 * 4096" .
  show ?thesis
  proof (cases "unat sz + 4095 < 2 ^ 64")
    case True
    then have "unat y = unat sz + 4095"
      by (simp add: y_def unat_add_no_wrap)
    with True alloc show ?thesis by simp
  next
    case False
    then obtain k where k: "unat sz + 4095 = 2 ^ 64 + k"
      using le_Suc_ex [of "2 ^ 64" "unat sz + 4095"] by (auto simp: not_less)
    then have "k < 4096"
      using unat_less_pow64 [of sz] by simp
    moreover have "unat y = (2 ^ 64 + k) mod 2 ^ 64"
      by (simp only: y_def unat_word_ariths k [symmetric]) simp
    ultimately have "unat y < 4096"
      by simp
    with False alloc show ?thesis by simp
  qed
qed

text \<open>
  C38: a path that Windows passes, its names separated by backslashes, reaches the library as the
  same names, whatever Unicode they are made of, characters outside the basic plane included.
\<close>

theorem windows_path_components:
  assumes "list_all (\<lambda>p. p \<noteq> [] \<and> list_all is_scalar p \<and> SLASH \<notin> set p \<and> BACKSLASH \<notin> set p) names"
  shows "path_components (u16_to_path (encode_utf16 (concat (map (\<lambda>p. BACKSLASH # p) names)))) = names"
proof -
  let ?s = "concat (map (\<lambda>p. BACKSLASH # p) names)"
  have "list_all is_scalar ?s"
    using assms by (auto simp: list_all_iff BACKSLASH_def is_scalar_def)
  then have "u16_to_path (encode_utf16 ?s) = replace_char BACKSLASH SLASH ?s"
    by (simp add: u16_to_path_def from_utf16_encode)
  also have "\<dots> = concat (map (\<lambda>p. SLASH # p) names)"
    using assms by (induction names) (auto simp: replace_char_def intro!: map_idI)
  also have "path_components \<dots> = names"
    using assms
  proof (induction names)
    case (Cons p names)
    show ?case
    proof (cases names)
      case Nil
      with Cons.prems show ?thesis by simp
    next
      case (Cons q qs)
      then have "path_components (concat (map (\<lambda>p. SLASH # p) (p # names))) =
          path_components p @ path_components (concat (map (\<lambda>p. SLASH # p) names))"
        using path_components_sep [of p "q @ concat (map (\<lambda>p. SLASH # p) qs)"] by simp
      with Cons.IH Cons.prems show ?thesis by simp
    qed
  qed simp
  finally show ?thesis .
qed

text \<open>
  C40: both time conversions of the program, that of the driver and that of \<open>utils.rs\<close>, are exact for
  every APFS time, those before 1970 included: the conversion to unsigned wraps below zero and
  the addition wraps back, so that the result always is the number of 100-nanosecond intervals.
\<close>

theorem filetimes_exact:
  "int (unat (driver_filetime t)) = 116444736000000000 + sint t sdiv 100 \<and> driver_filetime t = apfs_time_to_filetime t"
  using filetime_value [of t] by (simp add: driver_filetime_def apfs_time_to_filetime_def)

end
