(* ===== verification/Driver_Types.thy ===== *)
theory Driver_Types
  imports Driver_Mount "HOL-Library.Multiset"
begin

text \<open>
  The strings of a mounted volume: a session of callbacks on \<open>src/driver.rs\<close> with the contexts it has
  open, and its type invariant. Names come from the disk as bytes and from WinFsp as UTF-16 units;
  every path that the driver keeps is a list of Unicode scalar values all the same.
\<close>

section \<open>Strings from outside\<close>

lemma scalar_pair:
  assumes "high_surrogate u" and "low_surrogate v"
  shows "is_scalar (0x10000 + (unat u - 0xD800) * 1024 + (unat v - 0xDC00))"
proof -
  have "unat u < 0xDC00" "0xD800 \<le> unat u" "unat v < 0xE000" "0xDC00 \<le> unat v"
    using assms by (simp_all add: high_surrogate_def low_surrogate_def word_less_nat_alt word_le_nat_alt)
  then show ?thesis
    unfolding is_scalar_def by linarith
qed

lemma scalar_unit: "is_scalar (if high_surrogate u \<or> low_surrogate u then REPLACEMENT else unat u)"
proof -
  have "unat u < 0x110000"
    using unsigned_less [of u, where ?'a = nat] by (rule less_trans) simp
  then show ?thesis
    by (auto simp: high_surrogate_def low_surrogate_def is_scalar_def [of "unat u"] word_less_nat_alt word_le_nat_alt)
qed

lemma from_utf16_lossy_scalars: "list_all is_scalar (from_utf16_lossy us)"
proof (induction us rule: from_utf16_lossy.induct)
  case (3 u v us)
  then show ?case
    using scalar_pair [of u v] scalar_unit [of u] by simp
qed (simp_all add: scalar_unit)

lemma u16_to_path_scalars: "list_all is_scalar (u16_to_path us)" "BACKSLASH \<notin> set (u16_to_path us)"
proof -
  have "is_scalar SLASH"
    by (simp add: is_scalar_def SLASH_def)
  then show "list_all is_scalar (u16_to_path us)"
    using from_utf16_lossy_scalars [of us] by (auto simp: u16_to_path_def replace_char_def list_all_iff)
  show "BACKSLASH \<notin> set (u16_to_path us)"
    by (auto simp: u16_to_path_def replace_char_def SLASH_def BACKSLASH_def)
qed

lemma decode_drec_name_scalars: "decode_drec_name key = Ok name \<Longrightarrow> list_all is_scalar name"
  by (auto simp: decode_drec_name_def Let_def outcome_iffs from_utf8_lossy_scalars split: if_splits)

lemma collect_entries_scalars:
  "collect_entries fuel rd catalog_root omap_root block_size es = Ok ds \<Longrightarrow> d \<in> set ds \<Longrightarrow> list_all is_scalar (de_name d)"
proof (induction es arbitrary: ds)
  case (Cons e es)
  obtain key val where [simp]: "e = (key, val)"
    by (cases e)
  obtain name where name: "attempt (decode_drec_name key) = Ok name"
    using Cons.prems(1) by (auto simp: outcome_iffs)
  show ?case
  proof (cases "collect_entries fuel rd catalog_root omap_root block_size es = Ok ds")
    case True
    then show ?thesis
      using Cons by blast
  next
    case False
    then obtain n rest d' where "name = Some n" "ds = d' # rest" "de_name d' = n"
      "collect_entries fuel rd catalog_root omap_root block_size es = Ok rest"
      using Cons.prems(1) name by (auto simp: outcome_iffs Let_def split: option.splits prod.splits)
    then show ?thesis
      using Cons.IH Cons.prems(2) name decode_drec_name_scalars [of key n]
      by (auto simp: outcome_iffs)
  qed
qed simp

lemma listed_names_scalars:
  "vol_list_directory fuel vol dir = Ok es \<Longrightarrow> e \<in> set es \<Longrightarrow> list_all is_scalar (de_name e)"
  using collect_entries_scalars by (auto simp: vol_list_directory_def vol_entries_def list_directory_def outcome_iffs)

section \<open>Keys of the cache\<close>

definition keys_typed :: "('c \<Rightarrow> rstr \<Rightarrow> cached_stat option) \<Rightarrow> 'c \<Rightarrow> bool" where
  "keys_typed look cache \<longleftrightarrow> (\<forall>p. look cache p \<noteq> None \<longrightarrow> list_all is_scalar p)"

lemma put_typed:
  assumes "lru_laws lru look" and "keys_typed look cache" and "list_all is_scalar path"
  shows "keys_typed look (lru_put lru cache path c)"
  unfolding keys_typed_def
proof (intro allI impI)
  fix p
  assume "look (lru_put lru cache path c) p \<noteq> None"
  then show "list_all is_scalar p"
    using lru_lawsD(5) [OF assms(1), of cache path c p] assms(2,3) unfolding keys_typed_def by (cases "p = path") auto
qed

lemma child_path_scalars: "list_all is_scalar parent \<Longrightarrow> list_all is_scalar name \<Longrightarrow> list_all is_scalar (child_path parent name)"
  by (simp add: child_path_def is_scalar_def SLASH_def)

lemma prepopulate_typed:
  assumes "lru_laws lru look" and "list_all is_scalar parent"
  shows "\<forall>e \<in> set es. list_all is_scalar (de_name e) \<Longrightarrow> keys_typed look cache \<Longrightarrow>
    keys_typed look (prepopulate lru parent es cache)"
  by (induction es arbitrary: cache)
    (simp_all add: Let_def put_typed [OF assms(1)] child_path_scalars [OF assms(2)])

section \<open>Sessions\<close>

text \<open>
  A mount and the contexts that WinFsp holds open on it: a context comes from \<open>open\<close> only, and
  \<open>read_directory\<close> changes the one it is given.
\<close>

inductive driver_session ::
    "nat \<Rightarrow> 'h win32 \<Rightarrow> 'c lru_cache \<Rightarrow> 'b dir_buffer \<Rightarrow> 'h disk_reader \<Rightarrow> ('h, 'c) driver \<Rightarrow> 'b file_context multiset \<Rightarrow> bool"
  for fuel :: nat and w :: "'h win32" and lru :: "'c lru_cache" and db :: "'b dir_buffer" and disk :: "'h disk_reader"
where
  mounted: "driver_new fuel w lru disk = Ok s \<Longrightarrow> driver_session fuel w lru db disk s {#}"
| security: "driver_session fuel w lru db disk s cs \<Longrightarrow> get_security_by_name fuel lru name s = (r, t) \<Longrightarrow>
    driver_session fuel w lru db disk t cs"
| opened: "driver_session fuel w lru db disk s cs \<Longrightarrow> driver_open fuel lru db name fi s = (Ok (ctx, fi'), t) \<Longrightarrow>
    driver_session fuel w lru db disk t (add_mset ctx cs)"
| not_opened: "driver_session fuel w lru db disk s cs \<Longrightarrow> driver_open fuel lru db name fi s = (r', t) \<Longrightarrow>
    \<forall>x. r' \<noteq> Ok x \<Longrightarrow> driver_session fuel w lru db disk t cs"
| read: "driver_session fuel w lru db disk s cs \<Longrightarrow> ctx \<in># cs \<Longrightarrow> driver_read w ctx n off s = (rd, t) \<Longrightarrow>
    driver_session fuel w lru db disk t cs"
| listed: "driver_session fuel w lru db disk s (add_mset ctx cs) \<Longrightarrow>
    read_directory fuel lru db marker n (s, ctx) = (rl, t, ctx') \<Longrightarrow> driver_session fuel w lru db disk t (add_mset ctx' cs)"
| info: "driver_session fuel w lru db disk s cs \<Longrightarrow> ctx \<in># cs \<Longrightarrow> get_file_info fuel lru ctx fi s = (ri, t) \<Longrightarrow>
    driver_session fuel w lru db disk t cs"
| volume_info: "driver_session fuel w lru db disk s cs \<Longrightarrow> get_volume_info s = (rv, t) \<Longrightarrow>
    driver_session fuel w lru db disk t cs"
| closed: "driver_session fuel w lru db disk s (add_mset ctx cs) \<Longrightarrow> driver_close ctx s = (rc, t) \<Longrightarrow>
    driver_session fuel w lru db disk t cs"

text \<open>What a step does to the keys: it keeps them typed.\<close>

definition keeps_typed :: "('c \<Rightarrow> rstr \<Rightarrow> cached_stat option) \<Rightarrow> ('h, 'c) driver \<Rightarrow> ('h, 'c) driver \<Rightarrow> bool" where
  "keeps_typed look s t \<longleftrightarrow> (keys_typed look (dv_stat_cache s) \<longrightarrow> keys_typed look (dv_stat_cache t))"

lemma bind_op_typed:
  "keeps_typed look s (snd (m s)) \<Longrightarrow> (\<And>x t. m s = (Ok x, t) \<Longrightarrow> keeps_typed look t (snd (f x t))) \<Longrightarrow>
    keeps_typed look s (snd (bind_op m f s))"
  by (auto simp: bind_op_def keeps_typed_def split: prod.splits outcome.splits)

lemma return_op_typed: "keeps_typed look s (snd (return_op x s))"
  by (simp add: keeps_typed_def)

lemma case_typed:
  "(v = None \<Longrightarrow> keeps_typed look s (snd (m s))) \<Longrightarrow> (\<And>x. v = Some x \<Longrightarrow> keeps_typed look s (snd (f x s))) \<Longrightarrow>
    keeps_typed look s (snd ((case v of None \<Rightarrow> m | Some x \<Rightarrow> f x) s))"
  "(b \<Longrightarrow> keeps_typed look s (snd (m s))) \<Longrightarrow> (\<not> b \<Longrightarrow> keeps_typed look s (snd (n s))) \<Longrightarrow>
    keeps_typed look s (snd ((if b then m else n) s))"
  by (cases v; simp) (cases b; simp)

lemma with_volume_typed: "keeps_typed look s (snd (with_volume status f s))"
  by (auto simp: with_volume_def keeps_typed_def split: outcome.splits)

lemma get_cached_stat_typed:
  assumes "lru_laws lru look"
  shows "keeps_typed look s (snd (get_cached_stat lru path s))"
  using lru_lawsD(3) [OF assms, of "dv_stat_cache s" path]
  by (auto simp: get_cached_stat_def keeps_typed_def keys_typed_def split: prod.splits)

lemma resolve_and_cache_typed:
  assumes "lru_laws lru look" and "list_all is_scalar path"
  shows "keeps_typed look s (snd (resolve_and_cache fuel lru path s))"
  unfolding resolve_and_cache_def
  by (rule bind_op_typed [OF with_volume_typed])
    (auto simp: Let_def put_cached_stat_def keeps_typed_def bind_op_def return_op_def put_typed [OF assms(1) _ assms(2)])

lemma callbacks_typed:
  assumes "lru_laws lru look"
  shows "keeps_typed look s (snd (get_security_by_name fuel lru name s))"
    and "keeps_typed look s (snd (driver_open fuel lru db name fi s))"
    and "keeps_typed look s (snd (get_file_info fuel lru ctx fi s))"
proof -
  note rules = bind_op_typed return_op_typed case_typed with_volume_typed get_cached_stat_typed [OF assms]
    resolve_and_cache_typed [OF assms u16_to_path_scalars(1)]
  show "keeps_typed look s (snd (get_security_by_name fuel lru name s))"
    unfolding get_security_by_name_def Let_def by (intro rules)
  show "keeps_typed look s (snd (driver_open fuel lru db name fi s))"
    unfolding driver_open_def Let_def by (intro rules)
  show "keeps_typed look s (snd (get_file_info fuel lru ctx fi s))"
    unfolding get_file_info_def by (intro rules)
qed

lemma read_directory_typed:
  assumes "lru_laws lru look" and "list_all is_scalar (fc_path ctx)"
    and "read_directory fuel lru db marker n (s, ctx) = (r, t, ctx')"
  shows "keeps_typed look s t" and "fc_path ctx' = fc_path ctx"
proof -
  have "keys_typed look (prepopulate lru parent es cache)"
    if "vol_list_directory fuel vol (fc_path ctx) = Ok es" "parent = [] \<or> parent = fc_path ctx" "keys_typed look cache"
    for parent es vol cache
    using prepopulate_typed [OF assms(1)] listed_names_scalars [OF that(1)] that(2,3) assms(2) by auto
  then show "keeps_typed look s t"
    using assms(3) by (auto simp: read_directory_def with_volume_def Let_def keeps_typed_def split: if_splits outcome.splits prod.splits)
  show "fc_path ctx' = fc_path ctx"
    using assms(3) by (auto simp: read_directory_def Let_def split: if_splits outcome.splits prod.splits)
qed

lemma driver_read_keeps_cache: "dv_stat_cache (snd (driver_read w ctx n off s)) = dv_stat_cache s"
  by (auto simp: driver_read_def Let_def split: outcome.splits prod.splits)

text \<open>
  C29: in every state of a session every path that the driver holds, as a key of its stat cache or in
  an open context, is a string: Unicode scalar values only, whatever bytes the names on the disk
  are and whatever UTF-16 units WinFsp passes, unpaired surrogates included. No open context's
  path has a backslash in it.
\<close>

theorem session_strings_typed:
  assumes "driver_session fuel w lru db disk s cs" and "lru_laws lru look"
  shows "keys_typed look (dv_stat_cache s) \<and>
    (\<forall>ctx \<in># cs. list_all is_scalar (fc_path ctx) \<and> BACKSLASH \<notin> set (fc_path ctx))"
  using assms(1)
proof induction
  case (mounted s)
  then show ?case
    using lru_lawsD(1) [OF assms(2)] by (auto simp: driver_new_def Let_def outcome_iffs keys_typed_def)
next
  case (opened s cs name fi ctx fi' t)
  have "fc_path ctx = u16_to_path name"
    using opened.hyps(2) by (auto simp: driver_open_def Let_def bind_op_eq_Ok)
  with opened.IH show ?case
    using callbacks_typed(2) [OF assms(2), of s fuel db name fi] u16_to_path_scalars [of name] opened.hyps(2)
    by (simp add: keeps_typed_def)
next
  case (listed s ctx cs marker n rl t ctx')
  then show ?case
    using read_directory_typed [OF assms(2) _ listed.hyps(2)] by (simp add: keeps_typed_def)
next
  case (read s cs ctx n off rd t)
  then show ?case
    using driver_read_keeps_cache [of w ctx n off s] by simp
next
  case (security s cs name r t)
  then show ?case
    using callbacks_typed(1) [OF assms(2), of s fuel name] by (simp add: keeps_typed_def)
next
  case (not_opened s cs name fi r' t)
  then show ?case
    using callbacks_typed(2) [OF assms(2), of s fuel db name fi] by (simp add: keeps_typed_def)
next
  case (info s cs ctx fi ri t)
  then show ?case
    using callbacks_typed(3) [OF assms(2), of s fuel ctx fi] by (simp add: keeps_typed_def)
next
  case (volume_info s cs rv t)
  then show ?case
    by (auto simp: get_volume_info_def split: if_splits)
next
  case (closed s ctx cs rc t)
  then show ?case
    by (simp add: driver_close_def)
qed

end
