(* ===== verification/Driver_Threads.thy ===== *)
theory Driver_Threads
  imports Driver_Mount "HOL-Library.Multiset"
begin

text \<open>
  The callbacks of \<open>src/driver.rs\<close> as WinFsp runs them, on several threads at once. The driver's shared
  state is behind three mutexes, and no callback holds two of them at a time; so a callback is a
  sequence of sections, each run under one lock, between which the sections of any other callbacks
  may run. One section here is what the code does from taking a lock to releasing it.
\<close>

section \<open>Threads of lock sections\<close>

datatype ('s, 'e, 'a) thread =
    Finished "('e, 'a) outcome"
  | Section "'s \<Rightarrow> ('s, 'e, 'a) thread \<times> 's"

text \<open>An operation under its lock, and what follows it; an early return ends the thread.\<close>

definition locked :: "('s, 'e, 'a) op \<Rightarrow> ('a \<Rightarrow> ('s, 'e, 'b) thread) \<Rightarrow> ('s, 'e, 'b) thread" where
  "locked m k = Section (\<lambda>s. case m s of
       (Ok x, t) \<Rightarrow> (k x, t)
     | (Err e, t) \<Rightarrow> (Finished (Err e), t)
     | (Panic, t) \<Rightarrow> (Finished Panic, t)
     | (NoFuel, t) \<Rightarrow> (Finished NoFuel, t))"

text \<open>A thread that no other interrupts.\<close>

primrec run_alone :: "('s, 'e, 'a) thread \<Rightarrow> ('s, 'e, 'a) op" where
  "run_alone (Finished r) = (\<lambda>s. (r, s))"
| "run_alone (Section m) = (\<lambda>s. case (map_prod run_alone id \<circ> m) s of (f, t) \<Rightarrow> f t)"

lemma run_locked [simp]: "run_alone (locked m k) = bind_op m (\<lambda>x. run_alone (k x))"
  by (rule ext) (simp add: locked_def bind_op_def split: prod.splits outcome.splits)

text \<open>At most so many sections, whatever runs between them.\<close>

inductive within :: "nat \<Rightarrow> ('s, 'e, 'a) thread \<Rightarrow> bool" where
  finished: "within n (Finished r)"
| "section": "(\<And>s. within n (fst (m s))) \<Longrightarrow> within (Suc n) (Section m)"

lemma within_locked: "(\<And>x. within n (k x)) \<Longrightarrow> within (Suc n) (locked m k)"
  unfolding locked_def by (rule within.section) (auto intro: within.finished split: prod.splits outcome.splits)

text \<open>
  What a thread guarantees and relies on: every section keeps the invariant, whatever ran before it,
  and the result is right.
\<close>

inductive safe :: "('s \<Rightarrow> bool) \<Rightarrow> (('e, 'a) outcome \<Rightarrow> bool) \<Rightarrow> ('s, 'e, 'a) thread \<Rightarrow> bool"
  for I :: "'s \<Rightarrow> bool" and Q :: "('e, 'a) outcome \<Rightarrow> bool"
where
  finished: "Q r \<Longrightarrow> safe I Q (Finished r)"
| "section": "(\<And>s. I s \<Longrightarrow> I (snd (m s)) \<and> safe I Q (fst (m s))) \<Longrightarrow> safe I Q (Section m)"

inductive_simps safe_Finished [simp]: "safe I Q (Finished r)"
inductive_cases safe_SectionE: "safe I Q (Section m)"

lemma safe_locked:
  assumes "\<And>s. I s \<Longrightarrow> I (snd (m s))" and "\<And>s x t. I s \<Longrightarrow> m s = (Ok x, t) \<Longrightarrow> safe I Q (k x)"
    and "\<And>s e t. I s \<Longrightarrow> m s = (Err e, t) \<Longrightarrow> Q (Err e)"
    and "\<And>s t. I s \<Longrightarrow> m s = (Panic, t) \<Longrightarrow> Q Panic" and "\<And>s t. I s \<Longrightarrow> m s = (NoFuel, t) \<Longrightarrow> Q NoFuel"
  shows "safe I Q (locked m k)"
  unfolding locked_def
proof (rule safe.section)
  fix s
  assume s: "I s"
  obtain r t where m: "m s = (r, t)"
    by fastforce
  have "I t"
    using assms(1) [OF s] m by simp
  then show "I (snd (case m s of (Ok x, t) \<Rightarrow> (k x, t) | (Err e, t) \<Rightarrow> (Finished (Err e), t)
      | (Panic, t) \<Rightarrow> (Finished Panic, t) | (NoFuel, t) \<Rightarrow> (Finished NoFuel, t)))
    \<and> safe I Q (fst (case m s of (Ok x, t) \<Rightarrow> (k x, t) | (Err e, t) \<Rightarrow> (Finished (Err e), t)
      | (Panic, t) \<Rightarrow> (Finished Panic, t) | (NoFuel, t) \<Rightarrow> (Finished NoFuel, t)))"
    using assms(2-5) [OF s] m by (cases r) auto
qed

section \<open>The callbacks\<close>

datatype 'b request =
    Get_Security "u16 list"
  | Open_File "u16 list" file_info
  | Read_File "'b file_context" nat u64
  | List_Directory "'b file_context" bool nat
  | Get_File_Info "'b file_context" file_info
  | Get_Volume_Info

datatype 'b answer =
    Security file_security
  | Opened "'b file_context" file_info
  | Bytes_Read u32 bytes
  | Listed bytes "'b file_context"
  | Info_Filled file_info
  | Volume_Info winfsp_volume_info

type_synonym ('h, 'c, 'b) callback_thread = "(('h, 'c) driver, fsp_error, 'b answer) thread"

definition answer :: "'b answer \<Rightarrow> ('h, 'c, 'b) callback_thread" where
  "answer a = Finished (Ok a)"

definition resolve_thread :: "nat \<Rightarrow> 'c lru_cache \<Rightarrow> rstr \<Rightarrow> (cached_stat \<Rightarrow> ('h, 'c, 'b) callback_thread) \<Rightarrow>
    ('h, 'c, 'b) callback_thread" where
  "resolve_thread fuel lru path k =
     locked (with_volume STATUS_OBJECT_NAME_NOT_FOUND (\<lambda>vol. stat_and_extents fuel vol path))
       (\<lambda>(stat, extent_map, file_size).
       let c = \<lparr>cs_stat = stat, cs_extent_map = extent_map, cs_file_size = file_size, cs_extents_resolved = True\<rparr> in
       locked (put_cached_stat lru path c) (\<lambda>_. k c))"

definition security_thread :: "nat \<Rightarrow> 'c lru_cache \<Rightarrow> u16 list \<Rightarrow> ('h, 'c, 'b) callback_thread" where
  "security_thread fuel lru file_name =
     (let path = u16_to_path file_name;
          security = (\<lambda>attributes. answer (Security
            \<lparr>fsec_reparse = False, fsec_sz_security_descriptor = 0, fsec_attributes = attributes\<rparr>)) in
      if path = [SLASH] \<or> path = [] then security FILE_ATTRIBUTE_DIRECTORY
      else
        locked (get_cached_stat lru path) (\<lambda>found.
        case found of
          Some cached \<Rightarrow> security (entry_kind_to_attributes (st_kind (cs_stat cached)))
        | None \<Rightarrow> resolve_thread fuel lru path (\<lambda>c. security (entry_kind_to_attributes (st_kind (cs_stat c))))))"

definition open_thread :: "nat \<Rightarrow> 'c lru_cache \<Rightarrow> 'b dir_buffer \<Rightarrow> u16 list \<Rightarrow> file_info \<Rightarrow> ('h, 'c, 'b) callback_thread" where
  "open_thread fuel lru db file_name info =
     (let path = u16_to_path file_name;
          opened = (\<lambda>cached. answer (Opened
            \<lparr>fc_path = path, fc_extent_map = cs_extent_map cached, fc_file_size = cs_file_size cached,
             fc_dir_buffer = buffer_new db\<rparr>
            (fill_file_info info (cs_stat cached) (cs_file_size cached)))) in
      locked (get_cached_stat lru path) (\<lambda>found.
      case found of
        Some c \<Rightarrow>
          if cs_extents_resolved c \<or> st_kind (cs_stat c) = Directory then opened c
          else resolve_thread fuel lru path opened
      | None \<Rightarrow> resolve_thread fuel lru path opened))"

text \<open>The lock on the raw disk is held for the whole loop of \<open>read\<close>.\<close>

definition read_thread :: "'h win32 \<Rightarrow> 'b file_context \<Rightarrow> nat \<Rightarrow> u64 \<Rightarrow> ('h, 'c, 'b) callback_thread" where
  "read_thread w context buffer_len offset =
     locked (driver_read w context buffer_len offset) (\<lambda>(n, bs). answer (Bytes_Read n bs))"

definition prepopulate_cache :: "'c lru_cache \<Rightarrow> rstr \<Rightarrow> dir_entry list \<Rightarrow> ('h, 'c, unit) callback" where
  "prepopulate_cache lru parent dir_entries s =
     (Ok (), s\<lparr>dv_stat_cache := prepopulate lru parent dir_entries (dv_stat_cache s)\<rparr>)"

definition fill_buffer :: "'b dir_buffer \<Rightarrow> 'b file_context \<Rightarrow> dir_entry list \<Rightarrow> nat \<Rightarrow> (fsp_error, bytes \<times> 'b) outcome" where
  "fill_buffer db context dir_entries buffer_len =
     and_then (buffer_acquire db (fc_dir_buffer context) True) (\<lambda>lock.
     let (written, buf) = write_infos db
            (dot_info (lit ''.'') # dot_info (lit ''..'') # map dir_entry_info dir_entries) lock in
     and_then written (\<lambda>_. Ok (buffer_read db buf buffer_len, buf)))"

definition list_thread :: "nat \<Rightarrow> 'c lru_cache \<Rightarrow> 'b dir_buffer \<Rightarrow> 'b file_context \<Rightarrow> bool \<Rightarrow> nat \<Rightarrow>
    ('h, 'c, 'b) callback_thread" where
  "list_thread fuel lru db context marker_is_none buffer_len =
     (if \<not> marker_is_none then answer (Listed [] context)
      else
        locked (with_volume STATUS_NOT_A_DIRECTORY (\<lambda>vol. vol_list_directory fuel vol (fc_path context))) (\<lambda>dir_entries.
        let parent = (if fc_path context = [SLASH] \<or> fc_path context = [] then [] else fc_path context) in
        locked (prepopulate_cache lru parent dir_entries) (\<lambda>_.
        Finished (and_then (fill_buffer db context dir_entries buffer_len) (\<lambda>(bs, buf).
          Ok (Listed bs (context\<lparr>fc_dir_buffer := buf\<rparr>)))))))"

definition info_thread :: "nat \<Rightarrow> 'c lru_cache \<Rightarrow> 'b file_context \<Rightarrow> file_info \<Rightarrow> ('h, 'c, 'b) callback_thread" where
  "info_thread fuel lru context info =
     locked (get_cached_stat lru (fc_path context)) (\<lambda>found.
     case found of
       Some cached \<Rightarrow> answer (Info_Filled (fill_file_info info (cs_stat cached) (cs_file_size cached)))
     | None \<Rightarrow>
         locked (with_volume STATUS_OBJECT_NAME_NOT_FOUND (\<lambda>vol. stat fuel vol (fc_path context))) (\<lambda>st.
         answer (Info_Filled (fill_file_info info st (st_size st)))))"

definition volume_info_thread :: "('h, 'c, 'b) callback_thread" where
  "volume_info_thread = locked get_volume_info (\<lambda>vi. answer (Volume_Info vi))"

fun callback_thread :: "nat \<Rightarrow> 'h win32 \<Rightarrow> 'c lru_cache \<Rightarrow> 'b dir_buffer \<Rightarrow> 'b request \<Rightarrow> ('h, 'c, 'b) callback_thread" where
  "callback_thread fuel w lru db (Get_Security name) = security_thread fuel lru name"
| "callback_thread fuel w lru db (Open_File name info) = open_thread fuel lru db name info"
| "callback_thread fuel w lru db (Read_File context n offset) = read_thread w context n offset"
| "callback_thread fuel w lru db (List_Directory context marker n) = list_thread fuel lru db context marker n"
| "callback_thread fuel w lru db (Get_File_Info context info) = info_thread fuel lru context info"
| "callback_thread fuel w lru db Get_Volume_Info = volume_info_thread"

section \<open>One at a time\<close>

lemma bind_op_return: "bind_op (return_op x) f = f x"
  by (rule ext) (simp add: bind_op_def)

lemma bind_op_assoc: "bind_op (bind_op m f) g = bind_op m (\<lambda>x. bind_op (f x) g)"
  by (rule ext) (auto simp: bind_op_def split: prod.splits outcome.splits)

lemma run_answer [simp]: "run_alone (answer a) = return_op a"
  by (rule ext) (simp add: answer_def)

lemma run_cases:
  "run_alone (case v of None \<Rightarrow> th | Some x \<Rightarrow> f x) = (case v of None \<Rightarrow> run_alone th | Some x \<Rightarrow> run_alone (f x))"
  "run_alone (if b then th else th') = (if b then run_alone th else run_alone th')"
  "bind_op (case v of None \<Rightarrow> m | Some x \<Rightarrow> g x) h = (case v of None \<Rightarrow> bind_op m h | Some x \<Rightarrow> bind_op (g x) h)"
  "bind_op (if b then m else m') h = (if b then bind_op m h else bind_op m' h)"
  by (auto split: option.split)

lemma run_resolve:
  "run_alone (resolve_thread fuel lru path k) = bind_op (resolve_and_cache fuel lru path) (\<lambda>c. run_alone (k c))"
  by (simp add: resolve_thread_def resolve_and_cache_def Let_def bind_op_assoc bind_op_return case_prod_unfold)

lemmas run_simps = Let_def bind_op_assoc bind_op_return run_resolve run_cases

lemma run_security:
  "run_alone (security_thread fuel lru name) = bind_op (get_security_by_name fuel lru name) (\<lambda>x. return_op (Security x))"
  by (simp add: security_thread_def get_security_by_name_def run_simps cong: option.case_cong if_cong del: op_simps)

lemma run_open:
  "run_alone (open_thread fuel lru db name info) =
     bind_op (driver_open fuel lru db name info) (\<lambda>(ctx, fi). return_op (Opened ctx fi))"
  by (simp add: open_thread_def driver_open_def run_simps cong: option.case_cong if_cong del: op_simps)

lemma run_info:
  "run_alone (info_thread fuel lru ctx info) = bind_op (get_file_info fuel lru ctx info) (\<lambda>x. return_op (Info_Filled x))"
  by (simp add: info_thread_def get_file_info_def run_simps cong: option.case_cong if_cong del: op_simps)

lemma run_read:
  "run_alone (read_thread w ctx n off) = bind_op (driver_read w ctx n off) (\<lambda>(k, bs). return_op (Bytes_Read k bs))"
  by (simp add: read_thread_def case_prod_unfold)

lemma run_volume_info: "run_alone volume_info_thread = bind_op get_volume_info (\<lambda>vi. return_op (Volume_Info vi))"
  by (simp add: volume_info_thread_def)

lemma run_list:
  "run_alone (list_thread fuel lru db ctx marker n) s =
     (case read_directory fuel lru db marker n (s, ctx) of
        (r, t, ctx') \<Rightarrow> (and_then r (\<lambda>bs. Ok (Listed bs ctx')), t))"
proof (cases marker)
  case True
  then show ?thesis
    by (cases "dv_volume_poisoned s"; cases "vol_list_directory fuel (dv_volume s) (fc_path ctx)";
        cases "buffer_acquire db (fc_dir_buffer ctx) True")
      (simp_all add: list_thread_def read_directory_def with_volume_def Let_def bind_op_def prepopulate_cache_def
        fill_buffer_def and_then_assoc del: write_infos.simps split: prod.split)
qed (simp add: list_thread_def read_directory_def)

section \<open>Three sections\<close>

lemma within_answer: "within n (answer a)"
  by (simp add: answer_def within.finished)

lemma within_resolve: "(\<And>c. within n (k c)) \<Longrightarrow> within (Suc (Suc n)) (resolve_thread fuel lru path k)"
  unfolding resolve_thread_def by (intro within_locked) (auto simp: Let_def intro!: within_locked split: prod.splits)

lemma callback_within: "within 3 (callback_thread fuel w lru db req)"
proof -
  have "within (Suc (Suc (Suc 0))) (security_thread fuel lru name)" for name
    unfolding security_thread_def Let_def
    by (auto intro!: within_answer within_locked within_resolve split: option.split)
  moreover have "within (Suc (Suc (Suc 0))) (open_thread fuel lru db name info)" for name info
    unfolding open_thread_def Let_def
    by (auto intro!: within_answer within_locked within_resolve split: option.split)
  moreover have "within (Suc (Suc (Suc 0))) (list_thread fuel lru db ctx marker n)" for ctx marker n
    unfolding list_thread_def Let_def
    by (auto intro!: within_answer within_locked within.finished)
  moreover have "within (Suc (Suc (Suc 0))) (info_thread fuel lru ctx info)" for ctx info
    unfolding info_thread_def Let_def
    by (auto intro!: within_answer within_locked split: option.split)
  moreover have "within (Suc (Suc (Suc 0))) (read_thread w ctx n off)" "within (Suc (Suc (Suc 0))) volume_info_thread" for ctx n off
    unfolding read_thread_def volume_info_thread_def
    by (auto intro!: within_answer within_locked)
  ultimately show ?thesis
    unfolding numeral_3_eq_3 by (cases req) (simp_all only: callback_thread.simps)
qed

text \<open>A thread that no other interrupts does what the callback of \<open>Driver.thy\<close> does as one operation.\<close>

lemma callbacks_alone:
  "run_alone (callback_thread fuel w lru db (Get_Security name)) =
     bind_op (get_security_by_name fuel lru name) (\<lambda>x. return_op (Security x))"
  "run_alone (callback_thread fuel w lru db (Open_File name fi)) =
     bind_op (driver_open fuel lru db name fi) (\<lambda>(ctx, fi). return_op (Opened ctx fi))"
  "run_alone (callback_thread fuel w lru db (Read_File ctx n off)) =
     bind_op (driver_read w ctx n off) (\<lambda>(k, bs). return_op (Bytes_Read k bs))"
  "run_alone (callback_thread fuel w lru db (List_Directory ctx marker n)) s =
     (case read_directory fuel lru db marker n (s, ctx) of
        (r, t, ctx') \<Rightarrow> (and_then r (\<lambda>bs. Ok (Listed bs ctx')), t))"
  "run_alone (callback_thread fuel w lru db (Get_File_Info ctx fi)) =
     bind_op (get_file_info fuel lru ctx fi) (\<lambda>x. return_op (Info_Filled x))"
  "run_alone (callback_thread fuel w lru db Get_Volume_Info) = bind_op get_volume_info (\<lambda>x. return_op (Volume_Info x))"
  by (simp_all only: callback_thread.simps run_security run_open run_read run_list run_info run_volume_info)

section \<open>Reads return\<close>

text \<open>The Windows calls of a read return: an answer or an error, no more.\<close>

definition windows_return :: "'h win32 \<Rightarrow> bool" where
  "windows_return w \<longleftrightarrow>
     (\<forall>d m h. fst (SetFilePointerEx w d m h) \<notin> {Panic, NoFuel}) \<and> (\<forall>n h. fst (ReadFile w n h) \<notin> {Panic, NoFuel})"

definition returns :: "('e, 'a) outcome \<Rightarrow> bool" where
  "returns r \<longleftrightarrow> r \<notin> {Panic, NoFuel}"

lemma returns_simps [simp]: "returns (Ok x)" "returns (Err e)" "\<not> returns Panic" "\<not> returns NoFuel"
  by (simp_all add: returns_def)

lemma returns_bind: "returns (fst (m s)) \<Longrightarrow> (\<And>x t. returns (fst (f x t))) \<Longrightarrow> returns (fst (bind_op m f s))"
  by (auto simp: bind_op_def split: prod.splits outcome.splits)

lemma returns_map_err: "returns (map_err f r) \<longleftrightarrow> returns r"
  by (cases r) simp_all

lemma sys_returns: "(\<And>h. returns (fst (f h))) \<Longrightarrow> returns (fst (sys f d))"
  by (simp add: sys_def returns_map_err split: prod.split) (metis fst_conv)

lemma read_at_absolute_returns:
  assumes "windows_return w"
  shows "returns (fst (read_at_absolute w off n d))"
proof -
  have calls: "returns (fst (SetFilePointerEx w a m h))" "returns (fst (ReadFile w k h))" for a m k h
    using assms by (simp_all add: windows_return_def returns_def)
  have "returns (fst (sector_read w off n d))"
    unfolding sector_read_def Let_def by (intro returns_bind sys_returns calls) simp
  then show ?thesis
    by (simp add: read_at_absolute_def map_err_op_def returns_map_err split: prod.split) (metis fst_conv)
qed

lemma read_loop_returns:
  assumes "windows_return w"
  shows "returns (fst (read_loop w em start off to_read got d))"
proof (induction "to_read - length got" arbitrary: got d rule: less_induct)
  case less
  show ?case
  proof (cases "length got < to_read")
    case True
    have step: "returns (fst (case read_at_absolute w p k d of
          (Ok bs, d') \<Rightarrow> if bs = [] then (Ok got, d') else read_loop w em start off to_read (got @ bs) d'
        | (Err e, d') \<Rightarrow> (Err (NTSTATUS STATUS_END_OF_FILE), d') | (Panic, d') \<Rightarrow> (Panic, d') | (NoFuel, d') \<Rightarrow> (NoFuel, d')))"
      for p k
    proof (cases "read_at_absolute w p k d")
      case (Pair r d')
      have "to_read - length (got @ bs) < to_read - length got" if "bs \<noteq> []" for bs
        using that True by (intro diff_less_mono2) simp_all
      with Pair read_at_absolute_returns [OF assms, of p k d] less show ?thesis
        by (cases r) auto
    qed
    with True show ?thesis
      by (subst read_loop.simps) (auto simp: Let_def split: option.split)
  qed (simp add: read_loop.simps)
qed

lemma driver_read_returns:
  assumes "windows_return w" and "\<not> dv_raw_disk_poisoned s"
  shows "returns (fst (driver_read w ctx n off s))" and "\<not> dv_raw_disk_poisoned (snd (driver_read w ctx n off s))"
proof -
  define k where "k = min n (unat (fc_file_size ctx - off))"
  obtain r d where loop: "read_loop w (fc_extent_map ctx) (dv_partition_offset s) off k [] (dv_raw_disk s) = (r, d)"
    by fastforce
  then have "returns r"
    using read_loop_returns [OF assms(1)] by (metis fst_conv)
  then show "returns (fst (driver_read w ctx n off s))" "\<not> dv_raw_disk_poisoned (snd (driver_read w ctx n off s))"
    using assms(2) by (cases r; simp add: driver_read_def Let_def k_def [symmetric] loop)+
qed

section \<open>What an answer must be\<close>

text \<open>
  The answer of a callback about the volume \<open>vol\<close> and the bytes \<open>part\<close> of its partition. Metadata is that
  of an entry which the library vouches for (\<open>cached_ok\<close>); an opened file has its resolved extents; a
  read delivers the file's bytes; a listing is that of the library.
\<close>

definition answer_right :: "nat \<Rightarrow> apfs_volume \<Rightarrow> bytes \<Rightarrow> 'b dir_buffer \<Rightarrow> 'b request \<Rightarrow> 'b answer \<Rightarrow> bool" where
  "answer_right fuel vol part db req a = (case req of
       Get_Security name \<Rightarrow> \<exists>fs. a = Security fs \<and>
         (if u16_to_path name \<in> {[SLASH], []} then fsec_attributes fs = FILE_ATTRIBUTE_DIRECTORY
          else \<exists>c. cached_ok fuel vol (u16_to_path name) c \<and>
             fsec_attributes fs = entry_kind_to_attributes (st_kind (cs_stat c)))
     | Open_File name info \<Rightarrow> \<exists>ctx fi c. a = Opened ctx fi \<and> fc_path ctx = u16_to_path name \<and>
         cached_ok fuel vol (u16_to_path name) c \<and> (cs_extents_resolved c \<or> st_kind (cs_stat c) = Directory) \<and>
         fc_extent_map ctx = cs_extent_map c \<and> fc_file_size ctx = cs_file_size c \<and>
         fi = fill_file_info info (cs_stat c) (cs_file_size c)
     | Read_File ctx n off \<Rightarrow> \<exists>k bs. a = Bytes_Read k bs \<and>
         (file_ok part (fc_extent_map ctx) (fc_file_size ctx) \<longrightarrow> n \<le> 2 ^ 32 - 1024 \<longrightarrow>
          k = of_nat (length bs) \<and>
          bs = take n (drop (unat off) (take (unat (fc_file_size ctx)) (content part (fc_extent_map ctx)))))
     | List_Directory ctx marker n \<Rightarrow> \<exists>bs ctx'. a = Listed bs ctx' \<and>
         (if marker then \<exists>es buf. vol_list_directory fuel vol (fc_path ctx) = Ok es \<and>
            fill_buffer db ctx es n = Ok (bs, buf) \<and> ctx' = ctx\<lparr>fc_dir_buffer := buf\<rparr>
          else bs = [] \<and> ctx' = ctx)
     | Get_File_Info ctx info \<Rightarrow> \<exists>st sz. a = Info_Filled (fill_file_info info st sz) \<and>
         ((\<exists>c. cached_ok fuel vol (fc_path ctx) c \<and> st = cs_stat c \<and> sz = cs_file_size c) \<or>
          stat fuel vol (fc_path ctx) = Ok st \<and> sz = st_size st)
     | Get_Volume_Info \<Rightarrow> \<exists>vi. a = Volume_Info vi \<and> wvi_volume_label vi = vi_name (av_info vol))"

text \<open>A callback may fail, but a read of a file that is in the partition does not.\<close>

definition result_right :: "nat \<Rightarrow> apfs_volume \<Rightarrow> bytes \<Rightarrow> 'b dir_buffer \<Rightarrow> 'b request \<Rightarrow> (fsp_error, 'b answer) outcome \<Rightarrow> bool" where
  "result_right fuel vol part db req r \<longleftrightarrow>
     (\<forall>a. r = Ok a \<longrightarrow> answer_right fuel vol part db req a) \<and>
     (\<forall>ctx n off. req = Read_File ctx n off \<longrightarrow> file_ok part (fc_extent_map ctx) (fc_file_size ctx) \<longrightarrow>
        n \<le> 2 ^ 32 - 1024 \<longrightarrow> (\<exists>a. r = Ok a))"

definition serving :: "nat \<Rightarrow> 'h win32 \<Rightarrow> ('c \<Rightarrow> rstr \<Rightarrow> cached_stat option) \<Rightarrow> ('h \<Rightarrow> bool) \<Rightarrow> 'h disk_reader \<Rightarrow>
    apfs_volume \<Rightarrow> ('h, 'c) driver \<Rightarrow> bool" where
  "serving fuel w look on_dev disk vol s \<longleftrightarrow>
     mount_ok fuel w look on_dev disk s \<and> dv_volume s = vol \<and> \<not> dv_raw_disk_poisoned s"

lemma keeps_serving:
  "keeps fuel look s t \<Longrightarrow> serving fuel w look on_dev disk vol s \<Longrightarrow> serving fuel w look on_dev disk vol t"
  using keeps_mount_ok [of fuel look s t w on_dev disk] by (simp add: serving_def) (simp add: keeps_def same_mount_def)

lemma serving_cached:
  "serving fuel w look on_dev disk vol s \<Longrightarrow> look (dv_stat_cache s) p = Some c \<Longrightarrow> cached_ok fuel vol p c"
  using cache_okD by (auto simp: serving_def mount_ok_def)

section \<open>Every section of every callback\<close>

lemma safe_lookup:
  assumes "lru_laws lru look"
    and "\<And>found. (\<And>c. found = Some c \<Longrightarrow> cached_ok fuel vol path c) \<Longrightarrow> safe (serving fuel w look on_dev disk vol) Q (k found)"
  shows "safe (serving fuel w look on_dev disk vol) Q (locked (get_cached_stat lru path) k)"
proof (rule safe_locked)
  fix s x t
  assume s: "serving fuel w look on_dev disk vol s" and get: "get_cached_stat lru path s = (Ok x, t)"
  then have "x = look (dv_stat_cache s) path"
    using get_cached_stat_keeps(2) [OF assms(1) get] by simp
  then show "safe (serving fuel w look on_dev disk vol) Q (k x)"
    using serving_cached [OF s] by (intro assms(2)) simp
next
  fix s
  assume "serving fuel w look on_dev disk vol s"
  then show "serving fuel w look on_dev disk vol (snd (get_cached_stat lru path s))"
    using keeps_serving [OF get_cached_stat_keeps(1) [OF assms(1)]] by blast
qed (auto simp: get_cached_stat_def split: prod.splits)

lemma safe_volume:
  assumes "\<And>x. f vol = Ok x \<Longrightarrow> safe (serving fuel w look on_dev disk vol) Q (k x)"
    and "\<And>r. \<forall>x. r \<noteq> Ok x \<Longrightarrow> Q r"
  shows "safe (serving fuel w look on_dev disk vol) Q (locked (with_volume status f) k)"
proof (rule safe_locked)
  fix s
  assume "serving fuel w look on_dev disk vol s"
  then show "serving fuel w look on_dev disk vol (snd (with_volume status f s))"
    using keeps_serving [OF with_volume_keeps] by blast
next
  fix s x t
  assume "serving fuel w look on_dev disk vol s" and "with_volume status f s = (Ok x, t)"
  then show "safe (serving fuel w look on_dev disk vol) Q (k x)"
    by (intro assms(1)) (auto simp: with_volume_Ok serving_def)
qed (simp_all add: assms(2))

lemma safe_resolve:
  assumes "lru_laws lru look"
    and "\<And>c. cached_ok fuel vol path c \<Longrightarrow> cs_extents_resolved c \<Longrightarrow> safe (serving fuel w look on_dev disk vol) Q (k c)"
    and "\<And>r. \<forall>x. r \<noteq> Ok x \<Longrightarrow> Q r"
  shows "safe (serving fuel w look on_dev disk vol) Q (resolve_thread fuel lru path k)"
  unfolding resolve_thread_def
proof (rule safe_volume)
  fix x
  assume x: "stat_and_extents fuel vol path = Ok x"
  obtain st em sz where [simp]: "x = (st, em, sz)"
    by (cases x)
  define c where "c = \<lparr>cs_stat = st, cs_extent_map = em, cs_file_size = sz, cs_extents_resolved = True\<rparr>"
  have c: "cached_ok fuel vol path c" "cs_extents_resolved c"
    using x by (simp_all add: cached_ok_def c_def)
  have "safe (serving fuel w look on_dev disk vol) Q (locked (put_cached_stat lru path c) (\<lambda>_. k c))"
  proof (rule safe_locked)
    fix s
    assume s: "serving fuel w look on_dev disk vol s"
    then have "cached_ok fuel (dv_volume s) path c"
      using c(1) by (simp add: serving_def)
    from keeps_serving [OF put_keeps [OF assms(1) this] s]
    show "serving fuel w look on_dev disk vol (snd (put_cached_stat lru path c s))"
      by (simp add: put_cached_stat_def)
  qed (use assms(2) [OF c] in \<open>auto simp: put_cached_stat_def\<close>)
  then show "safe (serving fuel w look on_dev disk vol) Q (case x of (st, extent_map, file_size) \<Rightarrow>
      let c = \<lparr>cs_stat = st, cs_extent_map = extent_map, cs_file_size = file_size, cs_extents_resolved = True\<rparr> in
      locked (put_cached_stat lru path c) (\<lambda>_. k c))"
    by (simp add: c_def Let_def)
qed (rule assms(3))

lemma safe_prepopulate:
  assumes "lru_laws lru look" and "vol_list_directory fuel vol dir = Ok es"
    and "parent = (if is_root_path dir then [] else dir)" and "Q r"
  shows "safe (serving fuel w look on_dev disk vol) Q (locked (prepopulate_cache lru parent es) (\<lambda>_. Finished r))"
proof (rule safe_locked)
  fix s
  assume s: "serving fuel w look on_dev disk vol s"
  then have "cache_ok fuel look (s\<lparr>dv_stat_cache := prepopulate lru parent es (dv_stat_cache s)\<rparr>)"
    using prepopulate_ok [OF assms(1-3) subset_refl, of "dv_stat_cache s"]
    by (auto simp: serving_def mount_ok_def cache_ok_def)
  with s show "serving fuel w look on_dev disk vol (snd (prepopulate_cache lru parent es s))"
    by (simp add: serving_def mount_ok_def prepopulate_cache_def)
qed (use assms(4) in \<open>auto simp: prepopulate_cache_def\<close>)

lemma result_right_fails:
  "\<forall>x. r \<noteq> Ok x \<Longrightarrow> (\<And>ctx n off. req \<noteq> Read_File ctx n off) \<Longrightarrow> result_right fuel vol part db req r"
  by (simp add: result_right_def)

lemma safe_metadata:
  assumes "lru_laws lru look" and "\<And>ctx n off. req \<noteq> Read_File ctx n off"
  shows "safe (serving fuel w look on_dev disk vol) (result_right fuel vol part db req) (callback_thread fuel w lru db req)"
proof (cases req)
  case (Get_Security name)
  have "safe (serving fuel w look on_dev disk vol) (result_right fuel vol part db (Get_Security name)) (security_thread fuel lru name)"
    unfolding security_thread_def Let_def
    by (auto intro!: safe_lookup [OF assms(1)] safe_resolve [OF assms(1)] result_right_fails
        simp: answer_def result_right_def answer_right_def split: option.split) blast+
  with Get_Security show ?thesis by simp
next
  case (Open_File name info)
  have "safe (serving fuel w look on_dev disk vol) (result_right fuel vol part db (Open_File name info)) (open_thread fuel lru db name info)"
    unfolding open_thread_def Let_def
    by (auto intro!: safe_lookup [OF assms(1)] safe_resolve [OF assms(1)] result_right_fails
        simp: answer_def result_right_def answer_right_def split: option.split) blast+
  with Open_File show ?thesis by simp
next
  case (List_Directory ctx marker n)
  have "safe (serving fuel w look on_dev disk vol) (result_right fuel vol part db (List_Directory ctx marker n))
      (list_thread fuel lru db ctx marker n)"
  proof (cases marker)
    case True
    have "safe (serving fuel w look on_dev disk vol) (result_right fuel vol part db (List_Directory ctx marker n))
        (locked (prepopulate_cache lru (if is_root_path (fc_path ctx) then [] else fc_path ctx) es) (\<lambda>_.
          Finished (and_then (fill_buffer db ctx es n) (\<lambda>(bs, buf). Ok (Listed bs (ctx\<lparr>fc_dir_buffer := buf\<rparr>))))))"
      if "vol_list_directory fuel vol (fc_path ctx) = Ok es" for es
      by (rule safe_prepopulate [OF assms(1) that refl])
        (use True that in \<open>auto simp: result_right_def answer_right_def outcome_iffs\<close>)
    with True show ?thesis
      unfolding list_thread_def Let_def is_root_path_def [symmetric]
      by (auto intro!: safe_volume result_right_fails)
  qed (simp add: list_thread_def answer_def result_right_def answer_right_def)
  with List_Directory show ?thesis by simp
next
  case (Get_File_Info ctx info)
  have "safe (serving fuel w look on_dev disk vol) (result_right fuel vol part db (Get_File_Info ctx info)) (info_thread fuel lru ctx info)"
    unfolding info_thread_def
    by (auto intro!: safe_lookup [OF assms(1)] safe_volume result_right_fails
        simp: answer_def result_right_def answer_right_def split: option.split) blast+
  with Get_File_Info show ?thesis by simp
next
  case Get_Volume_Info
  have "safe (serving fuel w look on_dev disk vol) (result_right fuel vol part db Get_Volume_Info) volume_info_thread"
    unfolding volume_info_thread_def
    by (rule safe_locked)
      (auto simp: get_volume_info_def answer_def result_right_def answer_right_def serving_def split: if_splits)
  with Get_Volume_Info show ?thesis by simp
qed (use assms(2) in simp)

lemma safe_read:
  assumes "raw_device w on_dev ptr img" and "windows_return w" and "unat (dr_offset disk) \<le> length img"
  shows "safe (serving fuel w look on_dev disk vol)
    (result_right fuel vol (partition_bytes disk img) db (Read_File ctx n off)) (read_thread w ctx n off)"
proof -
  define part ok where "part = partition_bytes disk img"
    and "ok = (file_ok part (fc_extent_map ctx) (fc_file_size ctx) \<and> n \<le> 2 ^ 32 - 1024)"
  have content: "\<exists>d. driver_read w ctx n off s =
      (let bs = take n (drop (unat off) (take (unat (fc_file_size ctx)) (content part (fc_extent_map ctx))))
       in (Ok (of_nat (length bs), bs), s\<lparr>dv_raw_disk := d\<rparr>))"
    if "serving fuel w look on_dev disk vol s" "ok" for s
    using that assms(3) by (intro driver_read_content [OF assms(1)])
      (simp_all add: ok_def part_def partition_bytes_def serving_def mount_ok_def)
  have "safe (serving fuel w look on_dev disk vol) (result_right fuel vol part db (Read_File ctx n off)) (read_thread w ctx n off)"
    unfolding read_thread_def
  proof (rule safe_locked)
    fix s
    assume s: "serving fuel w look on_dev disk vol s"
    then have "mount_ok fuel w look on_dev disk (snd (driver_read w ctx n off s))"
      "\<not> dv_raw_disk_poisoned (snd (driver_read w ctx n off s))"
      using driver_read_mount_ok [OF assms(1), of fuel look disk s ctx n off]
        driver_read_returns(2) [OF assms(2), of s ctx n off] by (simp_all add: serving_def)
    moreover have "dv_volume (snd (driver_read w ctx n off s)) = dv_volume s"
      by (auto simp: driver_read_def Let_def split: outcome.split prod.split)
    ultimately show "serving fuel w look on_dev disk vol (snd (driver_read w ctx n off s))"
      using s by (simp add: serving_def)
  next
    fix s x t
    assume s: "serving fuel w look on_dev disk vol s" "driver_read w ctx n off s = (Ok x, t)"
    then show "safe (serving fuel w look on_dev disk vol) (result_right fuel vol part db (Read_File ctx n off))
        (case x of (n, bs) \<Rightarrow> answer (Bytes_Read n bs))"
      using content [OF s(1)]
      by (cases x) (auto simp: answer_def result_right_def answer_right_def ok_def Let_def)
  next
    fix s e t
    assume s: "serving fuel w look on_dev disk vol s" "driver_read w ctx n off s = (Err e, t)"
    then have "\<not> ok"
      using content [OF s(1)] by (auto simp: Let_def)
    then show "result_right fuel vol part db (Read_File ctx n off) (Err e)"
      by (auto simp: result_right_def ok_def)
  qed (use driver_read_returns(1) [OF assms(2)] in \<open>metis serving_def fst_conv returns_simps(3,4)\<close>)+
  then show ?thesis
    by (simp add: part_def)
qed

section \<open>Any interleaving\<close>

text \<open>
  A mount and the callbacks under way: a request may come at any time, any thread may run its next
  section, and a thread that has finished may return to WinFsp.
\<close>

inductive driver_pool ::
    "nat \<Rightarrow> 'h win32 \<Rightarrow> 'c lru_cache \<Rightarrow> 'b dir_buffer \<Rightarrow> 'h disk_reader \<Rightarrow> ('h, 'c) driver \<Rightarrow>
     ('b request \<times> ('h, 'c, 'b) callback_thread) multiset \<Rightarrow> bool"
  for fuel :: nat and w :: "'h win32" and lru :: "'c lru_cache" and db :: "'b dir_buffer" and disk :: "'h disk_reader"
where
  mounted: "driver_new fuel w lru disk = Ok s \<Longrightarrow> driver_pool fuel w lru db disk s {#}"
| called: "driver_pool fuel w lru db disk s P \<Longrightarrow>
    driver_pool fuel w lru db disk s (add_mset (req, callback_thread fuel w lru db req) P)"
| ran: "driver_pool fuel w lru db disk s (add_mset (req, Section m) P) \<Longrightarrow> m s = (th, t) \<Longrightarrow>
    driver_pool fuel w lru db disk t (add_mset (req, th) P)"
| returned: "driver_pool fuel w lru db disk s (add_mset (req, Finished r) P) \<Longrightarrow> driver_pool fuel w lru db disk s P"

lemma pool_safe:
  assumes "driver_pool fuel w lru db disk s P"
    and "raw_device w on_dev ptr img" and "windows_return w" and "lru_laws lru look"
    and "opens_device w on_dev (dr_device_path disk)" and "unat (dr_offset disk) \<le> length img"
  shows "\<exists>vol. serving fuel w look on_dev disk vol s \<and>
    (\<forall>(req, th) \<in># P. safe (serving fuel w look on_dev disk vol) (result_right fuel vol (partition_bytes disk img) db req) th)"
  using assms(1)
proof induction
  case (mounted s)
  then have "serving fuel w look on_dev disk (dv_volume s) s"
    using driver_new_ok [OF mounted assms(4,5)] by (auto simp: serving_def driver_new_def Let_def outcome_iffs)
  then show ?case
    by auto
next
  case (called s P req)
  then obtain vol where vol: "serving fuel w look on_dev disk vol s"
    "\<forall>(req, th) \<in># P. safe (serving fuel w look on_dev disk vol) (result_right fuel vol (partition_bytes disk img) db req) th"
    by blast
  have "safe (serving fuel w look on_dev disk vol) (result_right fuel vol (partition_bytes disk img) db req)
      (callback_thread fuel w lru db req)"
  proof (cases "\<exists>ctx n off. req = Read_File ctx n off")
    case True
    then show ?thesis
      using safe_read [OF assms(2,3,6)] by auto
  next
    case False
    then show ?thesis
      using safe_metadata [OF assms(4)] by blast
  qed
  with vol show ?case
    by (intro exI [of _ vol]) simp
next
  case (ran s req m P th t)
  then obtain vol where vol: "serving fuel w look on_dev disk vol s"
    "safe (serving fuel w look on_dev disk vol) (result_right fuel vol (partition_bytes disk img) db req) (Section m)"
    "\<forall>(req, th) \<in># P. safe (serving fuel w look on_dev disk vol) (result_right fuel vol (partition_bytes disk img) db req) th"
    by auto
  from vol(2) have "serving fuel w look on_dev disk vol t
    \<and> safe (serving fuel w look on_dev disk vol) (result_right fuel vol (partition_bytes disk img) db req) th"
    using vol(1) ran.hyps(2) by (elim safe_SectionE) force
  with vol(3) show ?case
    by (intro exI [of _ vol]) simp
next
  case (returned s req r P)
  then show ?case
    by auto
qed

section \<open>The property\<close>

text \<open>
  C3: the callbacks may interleave: with any number of them under way at once, and between any two
  lock sections of one any sections of others, the cache stays coherent, the raw disk's lock is
  never poisoned, and every result is right: the metadata of an entry the library vouches for, the
  resolved extents of the file opened, the library's listing, and for a read of a file that is in
  the partition always its bytes.
\<close>

theorem interleaved_callbacks_right:
  assumes "raw_device w on_dev ptr img" and "windows_return w" and "lru_laws lru look"
    and "opens_device w on_dev (dr_device_path disk)" and "unat (dr_offset disk) \<le> length img"
    and "driver_pool fuel w lru db disk s P"
  shows "cache_ok fuel look s \<and> open_volume fuel (disk_as_reader w disk) = Ok (dv_volume s) \<and> \<not> dv_raw_disk_poisoned s \<and>
    (\<forall>(req, th) \<in># P. \<forall>r. th = Finished r \<longrightarrow> result_right fuel (dv_volume s) (partition_bytes disk img) db req r)"
proof -
  obtain vol where vol: "serving fuel w look on_dev disk vol s"
    "\<forall>(req, th) \<in># P. safe (serving fuel w look on_dev disk vol) (result_right fuel vol (partition_bytes disk img) db req) th"
    using pool_safe [OF assms(6,1,2,3,4,5)] by blast
  then have "vol = dv_volume s"
    by (simp add: serving_def)
  with vol show ?thesis
    by (fastforce simp: serving_def mount_ok_def)
qed

end
