(* ===== verification/Sample_Mount.thy ===== *)
theory Sample_Mount
  imports Driver_Types Driver_Threads
begin

text \<open>
  A mount of the sample container through the whole stack: a simulated raw device that holds it from
  its second sector on, the disk reader, the volume, and a driver with a list for its cache. The
  properties of the driver are applied to it.
\<close>

section \<open>A least-recently-used list\<close>

definition list_lru :: "(nat \<times> (rstr \<times> cached_stat) list) lru_cache" where
  "list_lru =
     \<lparr>lru_new = (\<lambda>n. (n, [])),
      lru_get = (\<lambda>(n, xs) p. case map_of xs p of
          None \<Rightarrow> (None, n, xs)
        | Some v \<Rightarrow> (Some v, n, (p, v) # filter (\<lambda>(q, _). q \<noteq> p) xs)),
      lru_put = (\<lambda>(n, xs) p v. (n, take (max 1 n) ((p, v) # filter (\<lambda>(q, _). q \<noteq> p) xs))),
      lru_contains = (\<lambda>(n, xs) p. map_of xs p \<noteq> None)\<rparr>"

definition list_look :: "nat \<times> (rstr \<times> cached_stat) list \<Rightarrow> rstr \<Rightarrow> cached_stat option" where
  "list_look c = map_of (snd c)"

lemma map_of_filter_key: "map_of (filter (\<lambda>(q, _). q \<noteq> p) xs) q = (if q = p then None else map_of xs q)"
  by (induction xs) auto

lemma map_of_take: "map_of (take k xs) q = Some u \<Longrightarrow> map_of xs q = Some u"
  by (induction xs arbitrary: k) (auto simp: take_Cons split: nat.splits if_splits)

lemma list_lru_laws: "lru_laws list_lru list_look"
  unfolding lru_laws_def
proof (intro conjI allI impI)
  fix c :: "nat \<times> (rstr \<times> cached_stat) list" and p v q u n
  obtain k xs where c: "c = (k, xs)" by fastforce
  show "list_look (lru_new list_lru n) p = None" "fst (lru_get list_lru c p) = list_look c p"
    "lru_contains list_lru c p \<longleftrightarrow> list_look c p \<noteq> None"
    by (auto simp: list_lru_def list_look_def c split: option.splits)
  show "list_look (snd (lru_get list_lru c p)) = list_look c"
    by (rule ext) (auto simp: list_lru_def list_look_def c map_of_filter_key split: option.splits)
  show "list_look (lru_put list_lru c p v) p = Some v"
    by (cases k) (simp_all add: list_lru_def list_look_def c max_def)
  assume q: "q \<noteq> p" and put: "list_look (lru_put list_lru c p v) q = Some u"
  have "map_of ((p, v) # filter (\<lambda>(q, _). q \<noteq> p) xs) q = Some u"
    by (rule map_of_take [of "max 1 k"]) (use put in \<open>simp add: list_lru_def list_look_def c\<close>)
  then show "list_look c q = Some u"
    using q by (simp add: map_of_filter_key list_look_def c)
qed

section \<open>The device\<close>

definition device_img :: bytes where
  "device_img = zeros 512 @ concat image_blocks"

definition device :: "nat win32" where
  "device = sim_disk device_img"

definition device_disk :: "nat disk_reader" where
  "device_disk = sample_disk 512 0"

lemma device_raw: "raw_device device (\<lambda>_. True) id device_img"
  unfolding device_def by (rule sim_disk_raw_device) (simp_all add: device_img_def length_image del: length_concat)

lemma device_opens: "opens_device device (\<lambda>_. True) path"
  by (simp add: opens_device_def)

lemma device_partition: "partition_bytes device_disk device_img = concat image_blocks"
  by (simp add: partition_bytes_def device_disk_def sample_disk_def device_img_def)

lemma device_offset: "unat (dr_offset device_disk) = 512" "length device_img = 49664"
  by (simp_all add: device_disk_def sample_disk_def device_img_def length_image del: length_concat)

interpretation dev: container_reader "disk_as_reader device device_disk"
  using disk_as_reader_upto [OF device_raw, where d = device_disk and lim = 4096] device_offset
  by unfold_locales (simp add: device_partition)

section \<open>The mount\<close>

definition device_volume :: apfs_volume where
  "device_volume = image_volume_on (disk_as_reader device device_disk)"

text \<open>A directory buffer that takes every record and returns nothing.\<close>

definition null_buffer :: "unit dir_buffer" where
  "null_buffer = \<lparr>buffer_new = (), check_name = (\<lambda>_. Ok ()), buffer_acquire = (\<lambda>b _. Ok b),
     buffer_write = (\<lambda>b _. Ok b), buffer_read = (\<lambda>_ _. [])\<rparr>"

lemma device_reopen: "\<exists>n. open_with_offset device [] off = Ok \<lparr>dr_handle = 0, dr_size = n, dr_offset = off, dr_device_path = []\<rparr>"
  by (cases "get_disk_size device 0")
    (auto simp: open_with_offset_def device_def sim_disk_def get_disk_size_def split: if_splits)

lemma device_mounted: "\<exists>s. driver_new 2 device list_lru device_disk = Ok s \<and> dv_volume s = device_volume"
proof -
  obtain n where raw: "reopen_raw device device_disk = Ok \<lparr>dr_handle = 0, dr_size = n, dr_offset = 0, dr_device_path = []\<rparr>"
    using device_reopen [of 0] by (auto simp: reopen_raw_def device_disk_def sample_disk_def)
  obtain m where meta: "reopen device device_disk = Ok \<lparr>dr_handle = 0, dr_size = m, dr_offset = 512, dr_device_path = []\<rparr>"
    using device_reopen [of 512] by (auto simp: reopen_def device_disk_def sample_disk_def)
  define meta_disk :: "nat disk_reader" where "meta_disk = \<lparr>dr_handle = 0, dr_size = m, dr_offset = 512, dr_device_path = []\<rparr>"
  obtain bs d where "read_4096_at device 0 meta_disk = (Ok bs, d)"
    by (rule read_4096_slice [OF device_raw, of meta_disk 0]) (simp_all add: meta_disk_def device_offset)
  then obtain sz where "fst (read_apfs_container_size device meta_disk) = Ok sz"
    by (simp add: read_apfs_container_size_def Let_def)
  moreover have "open_volume 2 (disk_as_reader device device_disk) = Ok device_volume"
    unfolding device_volume_def by (rule dev.open_image) simp
  ultimately show ?thesis
    using raw meta by (simp add: driver_new_def Let_def meta_disk_def)
qed

text \<open>The name \<open>\hello\<close> as WinFsp passes it.\<close>

definition hello_name :: "u16 list" where
  "hello_name = [92, 104, 101, 108, 108, 111]"

lemma hello_path: "u16_to_path hello_name = lit ''/hello''"
  by (simp add: hello_name_def u16_to_path_def from_utf16_Cons high_surrogate_def low_surrogate_def
      replace_char_def BACKSLASH_def SLASH_def lit_def)

text \<open>The name \<open>\docs\a\<close>, of the file that claims more bytes than its extents hold.\<close>

definition docs_a_name :: "u16 list" where
  "docs_a_name = [92, 100, 111, 99, 115, 92, 97]"

lemma docs_a_path: "u16_to_path docs_a_name = lit ''/docs/a''"
  by (simp add: docs_a_name_def u16_to_path_def from_utf16_Cons high_surrogate_def low_surrogate_def
      replace_char_def BACKSLASH_def SLASH_def lit_def)

lemma device_stat:
  "\<exists>st. stat_and_extents 2 device_volume (lit ''/hello'') = Ok (st, [(0, 40960, 4096)], 5) \<and> st_kind st = File"
  "\<exists>st. stat_and_extents 2 device_volume (lit ''/docs/a'') = Ok (st, [(0, 45056, 4096), (4096, 40960, 4096)], 9000)
     \<and> st_kind st = File"
proof -
  have map: "build_extent_map 4096 [sample_extent 10 4096] 0 = [(0, 40960, 4096)]"
    "build_extent_map 4096 [sample_extent 11 4096, sample_extent 10 4096] 0 = [(0, 45056, 4096), (4096, 40960, 4096)]"
    by (simp_all add: sample_extent_def extent_length_def Let_def)
  have link: "inode_kind a_inode \<noteq> INODE_SYMLINK_TYPE"
    by (simp add: inode_kind_def a_inode_def sample_inode_def INODE_SYMLINK_TYPE_def)
  show "\<exists>st. stat_and_extents 2 device_volume (lit ''/hello'') = Ok (st, [(0, 40960, 4096)], 5) \<and> st_kind st = File"
    unfolding device_volume_def
    using dev.image_resolve_on(2) [of 2] dev.image_extents_on(1) [of 2] map(1)
    by (simp add: stat_and_extents_def Let_def image_inode_facts stat_of_inode_def kind_of_inode_def image_volume_on_def)
  show "\<exists>st. stat_and_extents 2 device_volume (lit ''/docs/a'') = Ok (st, [(0, 45056, 4096), (4096, 40960, 4096)], 9000)
      \<and> st_kind st = File"
    unfolding device_volume_def
    using dev.image_resolve_on(1) [of 2] dev.image_extents_on(2) [of 2] map(2) link
    by (simp add: stat_and_extents_def Let_def image_inode_facts stat_of_inode_def kind_of_inode_def image_volume_on_def)
qed

lemma device_open_file:
  assumes "driver_new 2 device list_lru device_disk = Ok s" and "dv_volume s = device_volume"
    and st: "stat_and_extents 2 device_volume (u16_to_path name) = Ok (st, em, sz)" "st_kind st = File"
  obtains ctx fi' t where "driver_open 2 list_lru null_buffer name fi s = (Ok (ctx, fi'), t)"
    and "fi_file_attributes fi' = FILE_ATTRIBUTE_READONLY" and "fc_extent_map ctx = em"
    and "fc_file_size ctx = sz" and "\<not> dv_raw_disk_poisoned t"
proof -
  have new: "dv_stat_cache s = lru_new list_lru STAT_CACHE_CAPACITY" "\<not> dv_volume_poisoned s" "\<not> dv_raw_disk_poisoned s"
    using assms(1) by (auto simp: driver_new_def Let_def outcome_iffs)
  have miss: "get_cached_stat list_lru path s = (Ok None, s)" for path
    by (simp add: get_cached_stat_def new(1) list_lru_def)
  define c where "c = \<lparr>cs_stat = st, cs_extent_map = em, cs_file_size = sz, cs_extents_resolved = True\<rparr>"
  have resolve: "\<exists>t. resolve_and_cache 2 list_lru (u16_to_path name) s = (Ok c, t) \<and> \<not> dv_raw_disk_poisoned t"
    using st(1) new(2,3) assms(2) by (simp add: resolve_and_cache_def with_volume_def put_cached_stat_def Let_def c_def)
  then obtain t where t: "resolve_and_cache 2 list_lru (u16_to_path name) s = (Ok c, t)" "\<not> dv_raw_disk_poisoned t"
    by blast
  show thesis
    by (rule that [of "\<lparr>fc_path = u16_to_path name, fc_extent_map = cs_extent_map c, fc_file_size = cs_file_size c,
          fc_dir_buffer = ()\<rparr>" "fill_file_info fi (cs_stat c) (cs_file_size c)" t])
      (simp_all add: driver_open_def Let_def miss t null_buffer_def c_def st(2) fill_file_info_def)
qed

lemma device_open:
  assumes "driver_new 2 device list_lru device_disk = Ok s" and "dv_volume s = device_volume"
  obtains ctx fi' t where "driver_open 2 list_lru null_buffer hello_name fi s = (Ok (ctx, fi'), t)"
    and "fi_file_attributes fi' = FILE_ATTRIBUTE_READONLY" and "fc_extent_map ctx = [(0, 40960, 4096)]"
    and "fc_file_size ctx = 5" and "\<not> dv_raw_disk_poisoned t"
  using device_stat(1) device_open_file [OF assms, of hello_name _ "[(0, 40960, 4096)]" 5 fi] unfolding hello_path by metis

section \<open>The properties applied\<close>

theorem stat_cache_coherent_witness:
  "\<exists>s ctx t. driver_new 2 device list_lru device_disk = Ok s
     \<and> driver_open 2 list_lru null_buffer hello_name zero_file_info s = (Ok ctx, t)
     \<and> cache_ok 2 list_look t \<and> dr_offset (dv_raw_disk t) = 0"
proof -
  obtain s where s: "driver_new 2 device list_lru device_disk = Ok s" "dv_volume s = device_volume"
    using device_mounted by blast
  obtain ctx fi' t where opened: "driver_open 2 list_lru null_buffer hello_name zero_file_info s = (Ok (ctx, fi'), t)"
    by (rule device_open [OF s])
  have "driver_reachable 2 device list_lru null_buffer device_disk t"
    using driver_reachable.opened [OF driver_reachable.mounted [OF s(1)] opened] .
  from stat_cache_coherent [OF this device_raw list_lru_laws device_opens] s(1) opened show ?thesis
    by blast
qed

theorem session_strings_typed_witness:
  "\<exists>s ctx t. driver_new 2 device list_lru device_disk = Ok s
     \<and> driver_open 2 list_lru null_buffer hello_name zero_file_info s = (Ok ctx, t)
     \<and> keys_typed list_look (dv_stat_cache t) \<and> list_all is_scalar (fc_path (fst ctx))"
proof -
  obtain s where s: "driver_new 2 device list_lru device_disk = Ok s" "dv_volume s = device_volume"
    using device_mounted by blast
  obtain ctx fi' t where opened: "driver_open 2 list_lru null_buffer hello_name zero_file_info s = (Ok (ctx, fi'), t)"
    by (rule device_open [OF s])
  have "driver_session 2 device list_lru null_buffer device_disk t {#ctx#}"
    using driver_session.opened [OF driver_session.mounted [OF s(1)] opened] .
  from session_strings_typed [OF this list_lru_laws] s(1) opened show ?thesis
    by auto
qed

text \<open>An open misses the cache; before it goes on to the volume, another thread asks for the label.\<close>

theorem interleaved_callbacks_right_witness:
  "\<exists>s th vi. driver_pool 2 device list_lru null_buffer device_disk s
       {#(Get_Volume_Info, Finished (Ok (Volume_Info vi))), (Open_File hello_name zero_file_info, Section th)#}
     \<and> cache_ok 2 list_look s \<and> wvi_volume_label vi = vi_name (av_info (dv_volume s))"
proof -
  obtain s where s: "driver_new 2 device list_lru device_disk = Ok s"
    using device_mounted by blast
  then have fresh: "dv_stat_cache s = (STAT_CACHE_CAPACITY, [])" "\<not> dv_volume_poisoned s"
    by (auto simp: driver_new_def Let_def outcome_iffs list_lru_def)
  obtain m where m: "open_thread 2 list_lru null_buffer hello_name zero_file_info = (Section m :: (nat, _, unit) callback_thread)"
    by (simp add: open_thread_def locked_def Let_def)
  obtain th where th: "m s = (Section th, s)"
    using m fresh by (auto simp: open_thread_def locked_def Let_def get_cached_stat_def list_lru_def resolve_thread_def)
  obtain l where l: "volume_info_thread = (Section l :: (nat, nat \<times> (rstr \<times> cached_stat) list, unit) callback_thread)"
    by (simp add: volume_info_thread_def locked_def)
  obtain vi where vi: "l s = (Finished (Ok (Volume_Info vi)), s)"
    using l fresh(2) by (auto simp: volume_info_thread_def locked_def get_volume_info_def answer_def)
  have "driver_pool 2 device list_lru null_buffer device_disk s {#(Open_File hello_name zero_file_info, Section m)#}"
    using driver_pool.called [OF driver_pool.mounted [OF s], of null_buffer "Open_File hello_name zero_file_info"] m by simp
  then have "driver_pool 2 device list_lru null_buffer device_disk s {#(Open_File hello_name zero_file_info, Section th)#}"
    using driver_pool.ran th by blast
  from driver_pool.called [OF this, of Get_Volume_Info]
  have "driver_pool 2 device list_lru null_buffer device_disk s
      {#(Get_Volume_Info, Section l), (Open_File hello_name zero_file_info, Section th)#}"
    by (simp add: l)
  then have pool: "driver_pool 2 device list_lru null_buffer device_disk s
      {#(Get_Volume_Info, Finished (Ok (Volume_Info vi))), (Open_File hello_name zero_file_info, Section th)#}"
    using driver_pool.ran vi by blast
  have "windows_return device"
    by (auto simp: windows_return_def device_def sim_disk_def Let_def)
  from interleaved_callbacks_right [OF device_raw this list_lru_laws device_opens _ pool] pool show ?thesis
    by (auto simp: device_offset result_right_def answer_right_def)
qed

theorem driver_serves_file_witness:
  "\<exists>s ctx fi' t u'. driver_new 2 device list_lru device_disk = Ok s
     \<and> driver_open 2 list_lru null_buffer hello_name zero_file_info s = (Ok (ctx, fi'), t)
     \<and> read_file 2 (dv_volume s) (lit ''/hello'') = Ok [104, 101, 108, 108, 111]
     \<and> driver_read device ctx 3 1 t = (Ok (3, [101, 108, 108]), u')"
proof -
  obtain s where s: "driver_new 2 device list_lru device_disk = Ok s" "dv_volume s = device_volume"
    using device_mounted by blast
  obtain ctx fi' t where opened: "driver_open 2 list_lru null_buffer hello_name zero_file_info s = (Ok (ctx, fi'), t)"
    "fi_file_attributes fi' = FILE_ATTRIBUTE_READONLY" "fc_extent_map ctx = [(0, 40960, 4096)]" "fc_file_size ctx = 5"
    "\<not> dv_raw_disk_poisoned t"
    by (rule device_open [OF s])
  have reach: "driver_reachable 2 device list_lru null_buffer device_disk s"
    "driver_reachable 2 device list_lru null_buffer device_disk t"
    using driver_reachable.mounted [OF s(1)] driver_reachable.opened [OF _ opened(1)] by blast+
  have vol: "0 < av_block_size (dv_volume s)" "unat (av_block_size (dv_volume s)) = 4096"
    by (simp_all add: s(2) device_volume_def image_volume_on_def)
  have "\<exists>bytes u'. read_file 2 (dv_volume s) (u16_to_path hello_name) = Ok bytes \<and>
      driver_read device ctx 3 1 t = (let bs = take 3 (drop (unat (1 :: u64)) bytes) in (Ok (of_nat (length bs), bs), u'))"
    by (rule driver_serves_file [OF device_raw device_opens TrueI _ list_lru_laws reach(1) opened(1,2) reach(2) opened(5)])
      (use vol in \<open>simp_all add: opened(3,4) device_offset device_partition in_image_def length_image del: length_concat\<close>)
  moreover have "read_file 2 (dv_volume s) (u16_to_path hello_name) = Ok [104, 101, 108, 108, 111]"
  proof -
    have map: "get_file_extents 2 device_volume (lit ''/hello'') = Ok ([(0, 40960, 4096)], 5)"
      using device_stat(1) stat_and_extents_parts by fastforce
    have "reads_upto (unat (av_block_size device_volume)) (av_reader device_volume) (concat image_blocks)"
      using dev.reads by (simp add: device_volume_def image_volume_on_def)
    then have "read_file 2 device_volume (lit ''/hello'') = Ok (take (unat (5 :: u64)) (content (concat image_blocks) [(0, 40960, 4096)]))"
      by (rule read_file_content [OF _ _ map])
        (simp_all add: device_volume_def image_volume_on_def in_image_def length_image del: length_concat)
    then show ?thesis
      by (simp add: s(2) hello_path image_hello_block)
  qed
  ultimately show ?thesis
    using s(1) opened(1) by (auto simp: Let_def hello_path)
qed

text \<open>A read near the end of the file that claims 9000 bytes: 192 of the 500 bytes asked for exist.\<close>

theorem uncovered_read_fails_witness:
  "\<exists>s ctx fi' t content u'. driver_new 2 device list_lru device_disk = Ok s
     \<and> driver_open 2 list_lru null_buffer docs_a_name zero_file_info s = (Ok (ctx, fi'), t)
     \<and> read_file 2 (dv_volume s) (lit ''/docs/a'') = Ok content \<and> length content = 8192 \<and> fc_file_size ctx = 9000
     \<and> driver_read device ctx 500 8000 t = (Err (NTSTATUS STATUS_END_OF_FILE), u')"
proof -
  obtain s where s: "driver_new 2 device list_lru device_disk = Ok s" "dv_volume s = device_volume"
    using device_mounted by blast
  obtain st where st: "stat_and_extents 2 device_volume (u16_to_path docs_a_name) =
      Ok (st, [(0, 45056, 4096), (4096, 40960, 4096)], 9000)" "st_kind st = File"
    using device_stat(2) unfolding docs_a_path by blast
  obtain ctx fi' t where opened: "driver_open 2 list_lru null_buffer docs_a_name zero_file_info s = (Ok (ctx, fi'), t)"
    "fi_file_attributes fi' = FILE_ATTRIBUTE_READONLY" "fc_extent_map ctx = [(0, 45056, 4096), (4096, 40960, 4096)]"
    "fc_file_size ctx = 9000" "\<not> dv_raw_disk_poisoned t"
    by (rule device_open_file [OF s st])
  have reach: "driver_reachable 2 device list_lru null_buffer device_disk s"
    "driver_reachable 2 device list_lru null_buffer device_disk t"
    using driver_reachable.mounted [OF s(1)] driver_reachable.opened [OF _ opened(1)] by blast+
  have vol: "0 < av_block_size (dv_volume s)" "unat (av_block_size (dv_volume s)) = 4096"
    by (simp_all add: s(2) device_volume_def image_volume_on_def)
  have "\<exists>content u'. read_file 2 (dv_volume s) (u16_to_path docs_a_name) = Ok content \<and>
      length content = total_len (fc_extent_map ctx) \<and> length content < unat (fc_file_size ctx) \<and>
      driver_read device ctx 500 8000 t = (Err (NTSTATUS STATUS_END_OF_FILE), u')"
    by (rule uncovered_read_fails [OF device_raw device_opens TrueI _ list_lru_laws reach(1) opened(1,2) reach(2) opened(5)])
      (use vol in \<open>simp_all add: opened(3,4) device_offset device_partition in_image_def length_image del: length_concat\<close>)
  then show ?thesis
    using s(1) opened(1,3,4) by (auto simp: docs_a_path)
qed

theorem windows_path_components_witness:
  "path_components (u16_to_path [92, 100, 92, 0xD83D, 0xDE00]) = [[100], [0x1F600]]"
proof -
  have "encode_utf16 (concat (map (\<lambda>p. BACKSLASH # p) [[100], [0x1F600]])) = [92, 100, 92, 0xD83D, 0xDE00]"
    by (simp add: encode_utf16_def utf16_char_def BACKSLASH_def)
  with windows_path_components [of "[[100], [0x1F600]]"] show ?thesis
    by (simp add: is_scalar_def SLASH_def BACKSLASH_def)
qed

text \<open>
  A volume whose catalog root is a block that makes the node parser panic: its table of contents
  starts beyond its end.
\<close>

definition bad_node_block :: bytes where
  "bad_node_block = zeros 40 @ [255, 255] @ zeros 22"

definition bad_volume :: apfs_volume where
  "bad_volume = (image_volume_on (image_reader bad_node_block))\<lparr>av_block_size := 64, av_catalog_root_block := 0\<rparr>"

definition bad_driver :: "(nat, nat \<times> (rstr \<times> cached_stat) list) driver" where
  "bad_driver = \<lparr>dv_volume = bad_volume, dv_volume_poisoned = False, dv_raw_disk = sample_disk 0 0,
     dv_raw_disk_poisoned = False, dv_partition_offset = 0, dv_disk_size = 0,
     dv_stat_cache = lru_new list_lru STAT_CACHE_CAPACITY\<rparr>"

lemma bad_volume_panics: "stat_and_extents 2 bad_volume (lit ''/hello'') = Panic"
proof -
  have "u16_at bad_node_block 40 = 65535"
    by (simp add: bad_node_block_def u16_at_def word_of_le_def)
  then have "parse_btree_node bad_node_block = Panic"
    by (simp add: parse_btree_node_panics) (simp add: bad_node_block_def)
  moreover have "read_block (image_reader bad_node_block) 0 64 = Ok bad_node_block"
    by (simp add: read_block_def seek_start_def read_exact_def image_reader_def bad_node_block_def)
  ultimately show ?thesis
    by (simp add: stat_and_extents_def vol_resolve_def bad_volume_def image_volume_on_def resolve_path_def Let_def
        image_path_components trim_matches_def lit_def SLASH_def lookup_drec_def btree_scan_def btree_scan_by_def
        path_components_def)
qed

text \<open>An open panics; after another callback, a security query of the same path panics too.\<close>

theorem volume_panic_is_permanent_witness:
  "\<exists>t. driver_open 2 list_lru null_buffer hello_name zero_file_info bad_driver = (Panic, t)
     \<and> dv_volume_poisoned t \<and> get_volume_info t = (Panic, t)
     \<and> fst (get_security_by_name 2 list_lru hello_name (snd (driver_open 2 list_lru null_buffer hello_name zero_file_info t))) = Panic"
proof -
  have bad: "stat_and_extents 2 (dv_volume bad_driver) (u16_to_path hello_name) = Panic" "\<not> dv_volume_poisoned bad_driver"
    "list_look (dv_stat_cache bad_driver) (u16_to_path hello_name) = None"
    using bad_volume_panics by (simp_all add: hello_path bad_driver_def list_lru_def list_look_def)
  have name: "u16_to_path hello_name \<noteq> [SLASH]" "u16_to_path hello_name \<noteq> []"
    by (simp_all add: hello_path lit_def)
  obtain t where t: "driver_open 2 list_lru null_buffer hello_name zero_file_info bad_driver = (Panic, t)"
    and later: "\<And>u. (callback_step 2 device list_lru null_buffer)\<^sup>*\<^sup>* t u \<Longrightarrow> dv_volume_poisoned u \<and> get_volume_info u = (Panic, u)
      \<and> fst (get_security_by_name 2 list_lru hello_name u) = Panic"
    using volume_panic_is_permanent [OF bad(1,2) list_lru_laws bad(3), of null_buffer zero_file_info device]
    by (elim exE conjE) (rule that, assumption, simp add: bad(3) name)
  have "callback_step 2 device list_lru null_buffer t (snd (driver_open 2 list_lru null_buffer hello_name zero_file_info t))"
    by (rule callback_step.step_open [OF surjective_pairing])
  then show ?thesis
    using t later [of t] later [of "snd (driver_open 2 list_lru null_buffer hello_name zero_file_info t)"] by auto
qed

end
