(* ===== verification/Sample_Daemon.thy ===== *)
theory Sample_Daemon
  imports Daemon_Mounts Sample_Mount "HOL-Library.AList" "HOL-Library.List_Lexorder" "HOL-Library.Product_Lexorder"
begin

text \<open>
  A machine for the daemon: drive 3 can be plugged in, and holds one APFS partition, the sample
  volume of \<open>Sample_Mount.thy\<close> at 512 or, when the disk was exchanged, something else at another
  offset. Its WinFsp keeps the hosts in a list. The properties of \<open>Daemon_Mounts.thy\<close> are applied to it.
\<close>

section \<open>The machine\<close>

record sample_world =
  sw_plugged :: bool
  sw_offset :: i64
  sw_hosts :: "(nat \<times> rstr option) list"

definition sample_drive :: "sample_world \<Rightarrow> nat win32" where
  "sample_drive w = device\<lparr>CreateFileA :=
     (\<lambda>path. if sw_plugged w \<and> path = physical_drive 3 then Ok 0 else Err (Windows_Error 2 []))\<rparr>"

definition sample_table :: "sample_world \<Rightarrow> drive_layout" where
  "sample_table w = \<lparr>dl_partition_count = 1, dl_partition_entry =
     [\<lparr>pi_partition_style = 1, pi_starting_offset = sw_offset w, pi_partition_length = 49152,
       pi_partition_number = 2, pi_gpt_partition_type = APFS_PARTITION_GUID\<rparr>]\<rparr>"

definition drop_host :: "nat \<Rightarrow> sample_world \<Rightarrow> sample_world" where
  "drop_host h w = w\<lparr>sw_hosts := filter (\<lambda>(g, _). g \<noteq> h) (sw_hosts w)\<rparr>"

definition live_hosts :: "sample_world \<Rightarrow> nat set" where
  "live_hosts w = fst ` set (sw_hosts w)"

definition host_at :: "sample_world \<Rightarrow> nat \<Rightarrow> rstr option" where
  "host_at w h = (case map_of (sw_hosts w) h of Some mp \<Rightarrow> mp | None \<Rightarrow> None)"

definition sample_system :: "(sample_world, nat, nat \<times> (rstr \<times> cached_stat) list, nat) host_system" where
  "sample_system =
     \<lparr>win = sample_drive,
      GetDriveLayoutEx = (\<lambda>w _. Ok (sample_table w)),
      GetDriveTypeW = (\<lambda>w path. if list_ex (\<lambda>(_, mp). \<exists>m. mp = Some m \<and> path = root_path (m ! 4)) (sw_hosts w) then 3 else 1),
      stat_lru = list_lru,
      host_new = (\<lambda>_ _ w. let h = Suc (sum_list (map fst (sw_hosts w))) in (Ok h, w\<lparr>sw_hosts := (h, None) # sw_hosts w\<rparr>)),
      host_mount = (\<lambda>h mp w. if h \<in> live_hosts w then (Ok (), w\<lparr>sw_hosts := AList.update h (Some mp) (sw_hosts w)\<rparr>)
        else (Err (NTSTATUS STATUS_ACCESS_DENIED), w)),
      host_start = (\<lambda>h w. (Ok (), w)),
      host_drop = drop_host,
      key_order = sorted_list_of_set,
      pair_order = sorted_list_of_set\<rparr>"

lemma sample_hash_laws: "hash_laws sample_system"
  by (simp add: hash_laws_def sample_system_def)

lemma live_update: "live_hosts (w\<lparr>sw_hosts := AList.update h v (sw_hosts w)\<rparr>) = insert h (live_hosts w)"
proof -
  have "fst ` set (AList.update h v hosts) = insert h (fst ` set hosts)" for hosts :: "(nat \<times> rstr option) list"
    by (induction hosts) auto
  then show ?thesis
    by (simp add: live_hosts_def)
qed

lemma host_at_update: "host_at (w\<lparr>sw_hosts := AList.update h v (sw_hosts w)\<rparr>) = (host_at w)(h := v)"
  by (auto simp: host_at_def fun_eq_iff update_conv')

lemma live_drop: "live_hosts (drop_host h w) = live_hosts w - {h}"
  by (force simp: live_hosts_def drop_host_def)

lemma host_at_drop: "host_at (drop_host h w) = (host_at w)(h := None)"
proof -
  have "map_of (filter (\<lambda>(g, _). g \<noteq> h) hosts) g = (if g = h then None else map_of hosts g)"
    for g and hosts :: "(nat \<times> rstr option) list"
    by (induction hosts) auto
  then show ?thesis
    by (simp add: host_at_def drop_host_def fun_eq_iff)
qed

lemma same_hosts: "sw_hosts w' = sw_hosts w \<Longrightarrow> live_hosts w' = live_hosts w \<and> host_at w' = host_at w"
  by (auto simp: live_hosts_def host_at_def)

lemma sample_winfsp_laws:
  "winfsp_laws sample_system live_hosts host_at (\<lambda>w w'. sw_hosts w' = sw_hosts w)"
proof -
  have fresh: "Suc (sum_list (map fst hosts)) \<notin> fst ` set hosts" for hosts :: "(nat \<times> rstr option) list"
    using member_le_sum_list [of _ "map fst hosts"] by fastforce
  have unused: "at_host \<noteq> Some (letter_mount_point l)"
    if "\<not> list_ex (\<lambda>(_, mp). \<exists>m. mp = Some m \<and> root_path l = root_path (m ! 4)) hosts" "map_of hosts h = Some at_host"
    for hosts :: "(nat \<times> rstr option) list" and l h at_host
    using that map_of_SomeD [OF that(2)] by (fastforce simp: list_ex_iff letter_mount_point_def)
  show ?thesis
    unfolding winfsp_laws_def
  proof (intro conjI allI impI)
    fix w w' vp driver host
    assume "host_new sample_system vp driver w = (Ok host, w')"
    then show "host \<notin> live_hosts w" "live_hosts w' = insert host (live_hosts w)" "host_at w' = (host_at w)(host := None)"
      using fresh by (auto simp: sample_system_def Let_def live_hosts_def host_at_def fun_eq_iff)
  next
    fix w l host
    assume "GetDriveTypeW sample_system w (root_path l) = 1" "host \<in> live_hosts w"
    then show "host_at w host \<noteq> Some (letter_mount_point l)"
      using unused [of l "sw_hosts w" host]
      by (auto simp: sample_system_def host_at_def split: if_splits option.splits)
  next
    fix w w' :: sample_world
    assume "sw_hosts w' = sw_hosts w"
    then show "live_hosts w' = live_hosts w" "host_at w' = host_at w"
      using same_hosts by blast+
  qed (auto simp: sample_system_def Let_def live_update host_at_update live_drop host_at_drop insert_absorb split: if_splits)
qed

section \<open>Mounting the drive\<close>

lemma raw_device_open [simp]: "raw_device (v\<lparr>CreateFileA := f\<rparr>) on_dev ptr img = raw_device v on_dev ptr img"
  by (simp add: raw_device_def)

lemma sample_drive_raw: "raw_device (sample_drive w) (\<lambda>_. True) id device_img"
  using device_raw by (simp add: sample_drive_def)

text \<open>Whatever disk has the image at an offset, its volume is loaded from there.\<close>

lemma load_image:
  assumes raw: "raw_device (win sy w) (\<lambda>_. True) id (zeros (unat off) @ concat image_blocks)"
    and opens: "\<And>off. \<exists>n. open_with_offset (win sy w) path off =
      Ok \<lparr>dr_handle = 0 :: nat, dr_size = n, dr_offset = off, dr_device_path = path\<rparr>"
  obtains driver where "load_driver 2 sy w path off = Ok driver"
proof -
  obtain n where main: "open_with_offset (win sy w) path off =
      Ok \<lparr>dr_handle = 0, dr_size = n, dr_offset = off, dr_device_path = path\<rparr>"
    using opens by blast
  obtain r where abs: "open_with_offset (win sy w) path 0 =
      Ok \<lparr>dr_handle = 0, dr_size = r, dr_offset = 0, dr_device_path = path\<rparr>"
    using opens by blast
  define disk :: "nat disk_reader" where
    "disk = \<lparr>dr_handle = 0, dr_size = n, dr_offset = off, dr_device_path = path\<rparr>"
  have part: "partition_bytes disk (zeros (unat off) @ concat image_blocks) = concat image_blocks" "dr_offset disk = off"
    by (simp_all add: partition_bytes_def disk_def)
  obtain bs d where "read_4096_at (win sy w) 0 disk = (Ok bs, d)"
    by (rule read_4096_slice [OF raw, of disk 0]) (simp_all add: part length_image del: length_concat)
  then obtain sz where sz: "fst (read_apfs_container_size (win sy w) disk) = Ok sz"
    by (simp add: read_apfs_container_size_def Let_def)
  have "reads_upto 4096 (disk_as_reader (win sy w) disk) (concat image_blocks)"
    using disk_as_reader_upto [OF raw, where d = disk and lim = 4096] by (simp add: part)
  then have "container_reader (disk_as_reader (win sy w) disk)"
    by (rule container_reader.intro)
  then have "open_volume 2 (disk_as_reader (win sy w) disk) = Ok (image_volume_on (disk_as_reader (win sy w) disk))"
    by (rule container_reader.open_image) simp
  with main abs sz show thesis
    by (intro that) (simp add: load_driver_def driver_new_def reopen_raw_def reopen_def disk_def [symmetric] Let_def,
        simp add: disk_def)
qed

text \<open>Opening a simulated disk gives its handle, whatever size it reports.\<close>

lemma sim_disk_open:
  assumes "f (c_string path) = Ok 0"
  shows "\<exists>n. open_with_offset ((sim_disk img)\<lparr>CreateFileA := f\<rparr>) path off =
    Ok \<lparr>dr_handle = 0, dr_size = n, dr_offset = off, dr_device_path = path\<rparr>"
  using assms by (cases "get_disk_size ((sim_disk img)\<lparr>CreateFileA := f\<rparr>) 0")
    (auto simp: open_with_offset_def sim_disk_def get_disk_size_def split: if_splits)

lemma sample_load:
  assumes "sw_plugged w"
  obtains driver where "load_driver 2 sample_system w (physical_drive 3) 512 = Ok driver"
proof (rule load_image [of sample_system w 512 "physical_drive 3"])
  show "raw_device (win sample_system w) (\<lambda>_. True) id (zeros (unat (512 :: u64)) @ concat image_blocks)"
    using sample_drive_raw [of w] by (simp add: sample_system_def device_img_def)
  show "\<exists>n. open_with_offset (win sample_system w) (physical_drive 3) off =
      Ok \<lparr>dr_handle = 0, dr_size = n, dr_offset = off, dr_device_path = physical_drive 3\<rparr>" for off
    using assms by (simp add: sample_system_def sample_drive_def device_def sim_disk_open)
qed

definition sample_partition :: "i64 \<Rightarrow> apfs_partition" where
  "sample_partition offset = \<lparr>ap_disk_number = 3, ap_partition_number = 2, ap_device_path = physical_drive 3,
     ap_offset = offset, ap_size = 49152\<rparr>"

lemma sample_partition_key [simp]: "partition_key (sample_partition offset) = (3, 2)"
  by (simp add: partition_key_def sample_partition_def)

lemma sample_scan_disk:
  "attempt (scan_disk_for_apfs sample_system w (physical_drive n) n) =
     (Ok (if sw_plugged w \<and> n = 3 then Some [sample_partition (sw_offset w)] else None) :: (arfw_error, _) outcome)"
  by (simp add: scan_disk_for_apfs_def open_disk_def sample_system_def sample_drive_def device_def sim_disk_def
      read_gpt_partitions_def sample_table_def partition_entries_def is_apfs_entry_def partition_of_entry_def
      sample_partition_def)

lemma sample_scan_disks:
  "scan_disks sample_system w ns acc =
     Ok (acc @ concat (map (\<lambda>n. if sw_plugged w \<and> n = 3 then [sample_partition (sw_offset w)] else []) ns))"
  by (induction ns arbitrary: acc) (auto simp: sample_scan_disk)

lemma other_drives:
  "\<forall>n \<in> set ns. n < 100 \<and> n \<noteq> 3 \<Longrightarrow> concat (map (\<lambda>n. if P \<and> (word_of_nat n :: u32) = 3 then [x] else []) ns) = []"
proof (induction ns)
  case (Cons n ns)
  have "(word_of_nat n :: u32) \<noteq> 3"
  proof
    assume "(word_of_nat n :: u32) = 3"
    then have "unat (word_of_nat n :: u32) = unat (3 :: u32)"
      by simp
    then show False
      using Cons.prems by (simp add: unat_of_nat)
  qed
  with Cons show ?case
    by simp
qed simp

lemma sample_scan:
  "scan_apfs_partitions sample_system w = Ok (if sw_plugged w then [sample_partition (sw_offset w)] else [])"
proof -
  have "[0..<100] = [0..<3] @ 3 # [4..<100]"
    by code_simp
  moreover have "\<forall>n \<in> set [0..<3]. n < 100 \<and> n \<noteq> 3" "\<forall>n \<in> set [4..<100]. n < 100 \<and> n \<noteq> (3 :: nat)"
    by (auto simp del: upt_rec_numeral)
  ultimately show ?thesis
    by (simp add: scan_apfs_partitions_def sample_scan_disks o_def other_drives del: upt_rec_numeral concat_eq_Nil_conv)
qed

section \<open>A day of the daemon\<close>

text \<open>The drive is there at the start, and the daemon mounts it at D.\<close>

definition plugged_world :: sample_world where
  "plugged_world = \<lparr>sw_plugged = True, sw_offset = 512, sw_hosts = []\<rparr>"

definition sample_volume :: "nat mounted_volume" where
  "sample_volume = \<lparr>mv_partition = sample_partition 512, mv_drive_letter = 68, mv_host = 1\<rparr>"

definition sample_manager :: "bool \<Rightarrow> i64 \<Rightarrow> (sample_world, nat) manager" where
  "sample_manager plugged offset =
     \<lparr>mg_world = \<lparr>sw_plugged = plugged, sw_offset = offset, sw_hosts = [(1, Some (letter_mount_point 68))]\<rparr>,
      mg_mounts = [mount_key (3, 2) \<mapsto> sample_volume]\<rparr>"

definition sample_daemon :: "bool \<Rightarrow> i64 \<Rightarrow> nat \<Rightarrow> device_event list \<Rightarrow> (sample_world, nat, nat) daemon" where
  "sample_daemon plugged offset shutdown q =
     \<lparr>dm_manager = sample_manager plugged offset, dm_known = {(3, 2)},
      dm_watcher = \<lparr>dw_handle = 1, dw_sender_ptr = 1\<rparr>,
      dm_watch = \<lparr>ws_boxes = [1], ws_registered = [(1, 1)], ws_channel = q\<rparr>, dm_shutdown = shutdown\<rparr>"

lemma first_letter: "find_available_drive_letters sample_system plugged_world = 68 # map Suc [68..<90]"
proof -
  have "[68..<91] = (68 :: nat) # map Suc [68..<90]"
    by code_simp
  then show ?thesis
    by (simp add: find_available_drive_letters_def collect_letters_eq sample_system_def plugged_world_def del: upt_rec_numeral)
qed

lemma sample_mount:
  "mount_partition 2 sample_system (sample_partition 512) 68 (manager_new plugged_world) = (Ok (), sample_manager True 512)"
proof -
  obtain driver where driver: "load_driver 2 sample_system plugged_world (physical_drive 3) 512 = Ok driver"
    using sample_load [of plugged_world] by (auto simp: plugged_world_def)
  have "start_host sample_system driver (letter_mount_point 68) plugged_world = (Ok 1, mg_world (sample_manager True 512))"
    by (simp add: start_host_def sample_system_def dropping_def plugged_world_def live_hosts_def sample_manager_def)
  then show ?thesis
    by (simp add: mount_partition_def sample_partition_def driver manager_new_def on_world_def insert_mount_def
        partition_key_def sample_manager_def sample_volume_def)
qed

lemma sample_order [simp]: "pair_order sample_system {} = []" "pair_order sample_system {k} = [k]"
  by (simp_all add: sample_system_def)

lemma sample_manager_world [simp]:
  "sw_plugged (mg_world (sample_manager plugged offset)) = plugged"
  "sw_offset (mg_world (sample_manager plugged offset)) = offset"
  by (simp_all add: sample_manager_def)

lemma manager_new_world [simp]: "mg_world (manager_new w) = w"
  by (simp add: manager_new_def)

lemma sample_first_scan:
  "scan_and_update 2 sample_system {} (manager_new plugged_world) = (Ok {(3, 2)}, sample_manager True 512)"
proof -
  have "sw_plugged plugged_world" "sw_offset plugged_world = 512"
    by (simp_all add: plugged_world_def)
  then show ?thesis
    by (simp add: scan_and_update_def sample_scan first_letter sample_mount)
qed

lemma sample_started: "daemon_start 2 sample_system counting_manager 0 plugged_world =
    (Ok (sample_daemon True 512 0 []), mg_world (sample_manager True 512))"
  by (simp add: daemon_start_def counting_watcher_new sample_first_scan sample_daemon_def)

abbreviation sample_reachable :: "(sample_world, nat, nat) daemon \<Rightarrow> bool" where
  "sample_reachable \<equiv> daemon_reachable 2 sample_system counting_manager (\<lambda>w w'. sw_hosts w' = sw_hosts w) plugged_world"

lemma sample_reachable: "sample_reachable (sample_daemon plugged offset shutdown [])"
proof -
  have "sample_reachable (sample_daemon True 512 0 [])"
    by (rule daemon_reachable.started [OF sample_started])
  from daemon_reachable.world [OF this, of "\<lparr>sw_plugged = plugged, sw_offset = offset, sw_hosts = [(1, Some (letter_mount_point 68))]\<rparr>"]
  have "sample_reachable (sample_daemon plugged offset 0 [])"
    by (simp add: sample_daemon_def sample_manager_def)
  then show ?thesis
  proof (induction shutdown)
    case (Suc n)
    from daemon_reachable.signalled [OF Suc.IH [OF Suc.prems]] show ?case
      by (simp add: sample_daemon_def)
  qed
qed

lemma sample_reachable_notified: "sample_reachable (sample_daemon plugged offset shutdown [Removed])"
proof -
  have "watcher_callback 1 CM_NOTIFY_ACTION_DEVICEINTERFACEREMOVAL (dm_watch (sample_daemon plugged offset shutdown [])) =
      (Ok 0, dm_watch (sample_daemon plugged offset shutdown [Removed]))"
    by (simp add: watcher_callback_def sample_daemon_def)
  from daemon_reachable.notified [OF sample_reachable _ this] show ?thesis
    by (simp add: sample_daemon_def)
qed

section \<open>The properties applied\<close>

lemma sample_mount_entry:
  "mg_mounts (dm_manager (sample_daemon plugged offset shutdown q)) (mount_key (3, 2)) = Some sample_volume"
  by (simp add: sample_daemon_def sample_manager_def)

theorem daemon_tracks_mounts_witness:
  "is_mounted (3, 2) (sample_manager True 512) \<and> \<not> is_mounted (3, 1) (sample_manager True 512)"
  using daemon_tracks_mounts [OF sample_hash_laws counting_manager_laws sample_reachable [of True 512 0]]
  by (simp add: sample_daemon_def)

theorem daemon_hosts_safe_witness:
  "live_hosts (mg_world (sample_manager True 512)) = {1}
     \<and> live_hosts (fst (daemon_exit sample_system counting_manager (sample_daemon True 512 0 []))) = {}"
proof -
  have "live_hosts plugged_world = {}"
    by (simp add: live_hosts_def plugged_world_def)
  from daemon_hosts_safe [OF sample_hash_laws counting_manager_laws sample_winfsp_laws this sample_reachable [of True 512 0]]
  show ?thesis
    by (simp add: sample_daemon_def sample_manager_def sample_volume_def)
qed

text \<open>The drive is unplugged: the next scan unmounts it.\<close>

lemma sample_unplugged_scan:
  "\<exists>known s. scan_and_update 2 sample_system {(3, 2)} (sample_manager False 512) = (Ok known, s)"
  by (simp add: scan_and_update_def sample_scan split: prod.splits)

theorem scan_follows_disks_witness:
  "\<exists>s. scan_and_update 2 sample_system {(3, 2)} (sample_manager False 512) = (Ok {}, s) \<and> \<not> is_mounted (3, 2) s"
proof -
  obtain known s where scan: "scan_and_update 2 sample_system {(3, 2)} (sample_manager False 512) = (Ok known, s)"
    using sample_unplugged_scan by blast
  have "scan_apfs_partitions sample_system (mg_world (sample_manager False 512)) = Ok []"
    by (simp add: sample_scan sample_manager_def)
  from scan_follows_disks [OF sample_hash_laws counting_manager_laws sample_reachable [of False 512 0], of "[]" known s] this scan
  show ?thesis
    by (simp add: sample_daemon_def)
qed

text \<open>The drive is exchanged for one whose partition 2 starts elsewhere.\<close>

lemma sample_exchanged_scan:
  "scan_and_update 2 sample_system {(3, 2)} (sample_manager True offset) = (Ok {(3, 2)}, sample_manager True offset)"
  by (simp add: scan_and_update_def sample_scan)

text \<open>A notification comes and the scan it triggers finds the new partition.\<close>

theorem exchanged_disk_keeps_old_volume_witness:
  "scan_apfs_partitions sample_system (mg_world (sample_manager True 1048576)) = Ok [sample_partition 1048576]
     \<and> mv_partition sample_volume = sample_partition 512
     \<and> (\<exists>d. daemon_turn 2 sample_system (sample_daemon True 1048576 0 [Removed]) = (Ok True, d)
          \<and> mg_mounts (dm_manager d) (mount_key (3, 2)) = Some sample_volume
          \<and> (\<forall>k v. mg_mounts (dm_manager d) k = Some v \<longrightarrow> mv_partition v \<noteq> sample_partition 1048576)
          \<and> host_at (mg_world (dm_manager d)) 1 = Some (letter_mount_point 68))"
proof -
  have scan: "scan_apfs_partitions sample_system (mg_world (sample_manager True 1048576)) = Ok [sample_partition 1048576]"
    by (simp add: sample_scan sample_manager_def)
  have none: "live_hosts plugged_world = {}"
    by (simp add: live_hosts_def plugged_world_def)
  have differ: "ap_offset (sample_partition 1048576) \<noteq> ap_offset (mv_partition sample_volume)"
    by (simp add: sample_volume_def sample_partition_def)
  have turn: "daemon_turn 2 sample_system (sample_daemon True 1048576 0 [Removed]) = (Ok True, sample_daemon True 1048576 0 [])"
    by (simp add: daemon_turn_def rescan_def sample_daemon_def sample_exchanged_scan)
  have steps: "(daemon_step 2 sample_system (\<lambda>w w'. sw_hosts w' = sw_hosts w) (scan_shows sample_system (sample_partition 1048576)))\<^sup>*\<^sup>*
      (sample_daemon True 1048576 0 [Removed]) (sample_daemon True 1048576 0 [])"
    by (rule r_into_rtranclp, rule step_turned [OF turn]) (use scan in \<open>simp add: scan_shows_def sample_daemon_def\<close>)
  have "mg_mounts (dm_manager (sample_daemon True 1048576 0 [])) (mount_key (partition_key (sample_partition 1048576))) = Some sample_volume
    \<and> (\<forall>k v. mg_mounts (dm_manager (sample_daemon True 1048576 0 [])) k = Some v \<longrightarrow> mv_partition v \<noteq> sample_partition 1048576)
    \<and> mv_host sample_volume \<in> live_hosts (mg_world (dm_manager (sample_daemon True 1048576 0 [])))
    \<and> host_at (mg_world (dm_manager (sample_daemon True 1048576 0 []))) (mv_host sample_volume) =
        Some (letter_mount_point (mv_drive_letter sample_volume))"
    by (rule exchanged_disk_keeps_old_volume [OF sample_hash_laws counting_manager_laws sample_winfsp_laws none
        sample_reachable_notified _ _ steps])
      (use sample_mount_entry differ in simp_all)
  then show ?thesis
    using scan turn by (simp add: sample_volume_def)
qed

theorem daemon_shuts_down_witness:
  "\<exists>res. daemon_loop 2 2 sample_system counting_manager (sample_daemon False 512 1 [Removed]) = Ok res"
proof -
  have "scans_return 1 2 sample_system {(3, 2)} (sample_manager False 512)"
    using sample_unplugged_scan by fastforce
  with daemon_shuts_down [OF sample_hash_laws counting_manager_laws sample_reachable_notified [of False 512 1]]
  show ?thesis
    by (simp add: sample_daemon_def numeral_2_eq_2)
qed

text \<open>
  A run in which the drive is unplugged and the signal arrives: the removal is handled, and the
  loop is left at the next idle turn.
\<close>

definition sample_script :: "sample_world happening list" where
  "sample_script = [Turn, World_Change (\<lambda>w. w\<lparr>sw_plugged := False\<rparr>), Notification CM_NOTIFY_ACTION_DEVICEINTERFACEREMOVAL,
     Signal, Turn, Turn]"

lemma sample_unplugged:
  "scan_and_update 2 sample_system {(3, 2)} (sample_manager False 512) =
     (Ok {}, \<lparr>mg_world = \<lparr>sw_plugged = False, sw_offset = 512, sw_hosts = []\<rparr>, mg_mounts = Map.empty\<rparr>)"
proof -
  have "unmount_partition sample_system (3, 2) (sample_manager False 512) =
      \<lparr>mg_world = \<lparr>sw_plugged = False, sw_offset = 512, sw_hosts = []\<rparr>, mg_mounts = Map.empty\<rparr>"
    by (simp add: unmount_partition_def sample_manager_def sample_volume_def) (simp add: sample_system_def drop_host_def)
  then show ?thesis
    by (simp add: scan_and_update_def sample_scan)
qed

lemma sample_run:
  "run_daemon_internal 2 sample_system counting_manager sample_script 0 plugged_world =
     (Ok (), \<lparr>sw_plugged = False, sw_offset = 512, sw_hosts = []\<rparr>)"
proof -
  have idle: "daemon_turn 2 sample_system (sample_daemon True 512 0 []) = (Ok True, sample_daemon True 512 0 [])"
    by (simp add: daemon_turn_def sample_daemon_def)
  have meanwhile: "daemon_happens Signal (daemon_happens (Notification CM_NOTIFY_ACTION_DEVICEINTERFACEREMOVAL)
      (daemon_happens (World_Change (\<lambda>w. w\<lparr>sw_plugged := False\<rparr>)) (sample_daemon True 512 0 []))) =
      sample_daemon False 512 1 [Removed]"
    by (simp add: daemon_happens_def sample_daemon_def sample_manager_def watcher_callback_def)
  define gone where "gone = (sample_daemon False 512 1 [])\<lparr>dm_known := {}, dm_manager :=
      \<lparr>mg_world = \<lparr>sw_plugged = False, sw_offset = 512, sw_hosts = []\<rparr>, mg_mounts = Map.empty\<rparr>\<rparr>"
  have removed: "daemon_turn 2 sample_system (sample_daemon False 512 1 [Removed]) = (Ok True, gone)"
    by (simp add: daemon_turn_def rescan_def sample_daemon_def sample_unplugged gone_def)
  have "daemon_turn 2 sample_system gone = (Ok False, gone\<lparr>dm_shutdown := 0\<rparr>)"
    by (simp add: daemon_turn_def gone_def sample_daemon_def)
  moreover have "fst (daemon_exit sample_system counting_manager (gone\<lparr>dm_shutdown := 0\<rparr>)) = \<lparr>sw_plugged = False, sw_offset = 512, sw_hosts = []\<rparr>"
    by (simp add: daemon_exit_def manager_drop_def gone_def) (simp add: sample_system_def)
  ultimately show ?thesis
    using removed by (simp add: run_daemon_internal_def sample_started sample_script_def idle meanwhile)
qed

theorem daemon_run_leaves_nothing_witness:
  "\<exists>w. run_daemon_internal 2 sample_system counting_manager sample_script 0 plugged_world = (Ok (), w) \<and> live_hosts w = {}"
proof -
  have "live_hosts plugged_world = {}"
    by (simp add: live_hosts_def plugged_world_def)
  from daemon_run_leaves_nothing [OF sample_hash_laws counting_manager_laws sample_winfsp_laws this _ sample_run]
  show ?thesis
    using sample_run by (simp add: sample_script_def)
qed

end
