(* ===== verification/Sample_Program.thy ===== *)
theory Sample_Program
  imports Program Service_Correct Sample_Daemon
begin

text \<open>
  The sample machine of \<open>Sample_Daemon.thy\<close> with a process around it: the properties of \<open>Program.thy\<close>,
  and that of the service's controls, applied.
\<close>

section \<open>The process\<close>

definition sample_install_dir :: rstr where
  "sample_install_dir = lit ''C:''"

definition sample_process :: "sample_world process" where
  "sample_process = \<lparr>RegGetValueW = (\<lambda>_. Ok (encode_utf16 sample_install_dir @ 0 # [120, 120])),
     SetDllDirectoryW = (\<lambda>path. return_op ()), parse_args = return_op None,
     set_ctrlc_handler = return_op (), receive_signal = return_op ()\<rparr>"

theorem dll_directory_set_witness:
  "setup_winfsp_dll_path sample_process plugged_world =
     map_err_op Any_Windows (SetDllDirectoryW sample_process (path_to_wide (lit ''C:'' @ BACKSLASH # lit ''bin''))) plugged_world"
  using dll_directory_set [of sample_install_dir sample_process plugged_world "[120, 120]"]
  by (simp add: sample_process_def sample_install_dir_def lit_def is_scalar_def encode_utf16_def utf16_char_def)

section \<open>A manual mount\<close>

text \<open>A device with the sample volume at 1 MiB.\<close>

definition manual_system :: "(sample_world, nat, nat \<times> (rstr \<times> cached_stat) list, nat) host_system" where
  "manual_system = sample_system\<lparr>win := (\<lambda>_. sim_disk (zeros 1048576 @ concat image_blocks))\<rparr>"

lemma manual_laws: "winfsp_laws manual_system live_hosts host_at (\<lambda>w w'. sw_hosts w' = sw_hosts w)"
proof -
  have fields: "host_new manual_system = host_new sample_system" "host_mount manual_system = host_mount sample_system"
    "host_start manual_system = host_start sample_system" "host_drop manual_system = host_drop sample_system"
    "GetDriveTypeW manual_system = GetDriveTypeW sample_system"
    by (simp_all add: manual_system_def)
  have "winfsp_laws manual_system live at env = winfsp_laws sample_system live at env" for live :: "sample_world \<Rightarrow> nat set" and at env
    unfolding winfsp_laws_def fields ..
  then show ?thesis
    using sample_winfsp_laws by metis
qed

lemma manual_load:
  obtains driver where "load_driver 2 manual_system w (physical_drive 1) 1048576 = Ok driver"
proof (rule load_image [of manual_system w 1048576 "physical_drive 1"])
  show "raw_device (win manual_system w) (\<lambda>_. True) id (zeros (unat (1048576 :: u64)) @ concat image_blocks)"
    unfolding manual_system_def by (simp add: length_image sim_disk_raw_device del: length_concat)
  have plain: "sim_disk img = (sim_disk img)\<lparr>CreateFileA := (\<lambda>_. Ok 0)\<rparr>" for img
    by (simp add: sim_disk_def)
  show "\<exists>n. open_with_offset (win manual_system w) (physical_drive 1) off =
      Ok \<lparr>dr_handle = 0, dr_size = n, dr_offset = off, dr_device_path = physical_drive 1\<rparr>" for off
    unfolding manual_system_def by (simp, subst plain, rule sim_disk_open, simp)
qed

lemma manual_mount_runs:
  "\<exists>w'. run_manual_mount 2 manual_system sample_process (physical_drive 1) (lit ''X:'') 0 False plugged_world = (Ok (), w')"
proof -
  obtain driver where driver: "load_driver 2 manual_system plugged_world (physical_drive 1) 1048576 = Ok driver"
    using manual_load by blast
  have "\<exists>host v. start_host manual_system driver mp plugged_world = (Ok host, v)" for mp
    by (simp add: start_host_def manual_system_def sample_system_def dropping_def plugged_world_def live_hosts_def)
  then obtain host v where "start_host manual_system driver (manual_mount_point (lit ''X:'')) plugged_world = (Ok host, v)"
    by blast
  with driver show ?thesis
    by (simp add: run_manual_mount_def Let_def sample_process_def dropping_def)
qed

theorem manual_mount_releases_witness:
  "\<exists>w' driver host v. run_manual_mount 2 manual_system sample_process (physical_drive 1) (lit ''X:'') 0 False plugged_world
       = (Ok (), w') \<and> live_hosts w' = {}
     \<and> start_host manual_system driver (manual_mount_point (lit ''X:'')) plugged_world = (Ok host, v)
     \<and> host_at v host = Some (manual_mount_point (lit ''X:''))"
proof -
  obtain w' where run: "run_manual_mount 2 manual_system sample_process (physical_drive 1) (lit ''X:'') 0 False plugged_world
      = (Ok (), w')"
    using manual_mount_runs by blast
  have "live_hosts w' = live_hosts plugged_world \<and> ((Ok () :: (any_error, unit) outcome) = Ok () \<longrightarrow>
      (\<exists>driver host v. load_driver 2 manual_system plugged_world (physical_drive 1) 1048576 = Ok driver
        \<and> start_host manual_system driver (manual_mount_point (lit ''X:'')) plugged_world = (Ok host, v)
        \<and> host \<in> live_hosts v \<and> host_at v host = Some (manual_mount_point (lit ''X:''))))"
    by (rule manual_mount_releases [OF manual_laws run]) (auto simp: sample_process_def)
  with run show ?thesis
    by (auto simp: live_hosts_def plugged_world_def)
qed

section \<open>The service on the machine\<close>

text \<open>WinFsp is there at once and every report succeeds; the status is asked for after one idle turn.\<close>

definition machine_service :: "sample_world service_system" where
  "machine_service = \<lparr>register_handler = return_op (), winfsp_init = Pair True, winfsp_init_or_die = return_op (),
     instant_now = (\<lambda>_. 0), sleep_ms = (\<lambda>_. id), set_service_status = (\<lambda>_. return_op ())\<rparr>"

definition asked_script :: "sample_world happening list" where
  "asked_script = [Turn] @ control_messages Control_Interrogate @ [Turn]"

theorem control_ends_service_witness:
  "\<exists>w. live_hosts w = {} \<and>
     run_service 121 machine_service (run_daemon_internal 2 sample_system counting_manager asked_script 0)
       \<lparr>sr_world = plugged_world, sr_reported = []\<rparr> =
     (Ok (), \<lparr>sr_world = w, sr_reported = [running_status, stopped_status]\<rparr>)"
proof -
  define s1 where "s1 = \<lparr>sr_world = plugged_world, sr_reported = [running_status]\<rparr>"
  have fields: "register_handler machine_service = return_op ()" "winfsp_init machine_service = Pair True"
    "winfsp_init_or_die machine_service = return_op ()" "set_service_status machine_service = (\<lambda>_. return_op ())"
    by (simp_all add: machine_service_def)
  have rounds: "(121 :: nat) = Suc 120"
    by simp
  have waited: "wait_for_winfsp 121 machine_service deadline c s = (Ok (), s)" for deadline c s
    unfolding rounds wait_for_winfsp.simps by (simp add: fields)
  have up: "service_up 121 machine_service \<lparr>sr_world = plugged_world, sr_reported = []\<rparr> = (Ok (), s1)"
    by (simp add: service_up_def in_world_def fields waited report_status_def s1_def)
  have none: "live_hosts (sr_world s1) = {}"
    by (simp add: live_hosts_def plugged_world_def s1_def)
  have started: "daemon_start 2 sample_system counting_manager 0 (sr_world s1) =
      (Ok (sample_daemon True 512 0 []), mg_world (sample_manager True 512))"
    by (simp add: s1_def sample_started)
  have before: "daemon_after 2 sample_system [Turn] (sample_daemon True 512 0 []) = Some (sample_daemon True 512 0 [])"
    by (simp add: daemon_turn_def sample_daemon_def)
  have "\<exists>w. live_hosts w = {} \<and>
      run_service 121 machine_service (run_daemon_internal 2 sample_system counting_manager asked_script 0)
        \<lparr>sr_world = plugged_world, sr_reported = []\<rparr> =
      report_status machine_service stopped_status (s1\<lparr>sr_world := w\<rparr>)"
    using control_ends_service [OF sample_hash_laws counting_manager_laws sample_winfsp_laws up none started before,
        of asked_script Control_Interrogate]
    by (simp add: asked_script_def sample_daemon_def)
  then show ?thesis
    by (auto simp: report_status_def machine_service_def s1_def)
qed

end
