(* ===== verification/Spec2Isabelle.thy ===== *)
theory Spec2Isabelle
  imports Sample_Program
begin

text \<open>
  ARFW: a verification development of the read-only APFS file system for Windows.

  \<^bold>\<open>The program.\<close> \<open>src/\<close> is the Windows program: it finds APFS partitions (\<open>device_monitor.rs\<close>), is told when
  disks come and go (\<open>device_watcher.rs\<close>), mounts each partition under a drive letter through WinFsp
  (\<open>mount_manager.rs\<close>), and serves the file system callbacks (\<open>driver.rs\<close>) from the raw disk (\<open>disk.rs\<close>). It
  runs as a daemon or a manual mount (\<open>main.rs\<close>) or a Windows service (\<open>service.rs\<close>). \<open>vendor/apfs/\<close> is the
  library that reads the format: blocks and checksums, the object map, B-trees, the catalog, files. The
  program calls the library through \<open>ApfsVolume\<close>, but reads file data itself: it asks the library for a
  file's extents once and then reads through a second, raw handle.

  \<^bold>\<open>The library's theories\<close>, in the order of the code's own layers:
  \<^item> \<open>Arfw_Prelude\<close>, \<open>Le_Bytes\<close>, \<open>Rust_Strings\<close>: the outcome of a Rust computation (a value, an error, a panic,
    or the model's fuel running out), machine integers, checked slices, little-endian reads, lossy
    UTF-8, paths.
  \<^item> \<open>Fletcher\<close>, \<open>Objects\<close>, \<open>Superblock\<close> (\<open>fletcher.rs\<close>, \<open>object.rs\<close>, \<open>superblock.rs\<close>): checksums against a closed form,
    object headers, verified and plain block reads, both superblocks and the search for the latest
    checkpoint.
  \<^item> \<open>Btree\<close>, \<open>Btree_Codec\<close>, \<open>Btree_Fuel\<close>, \<open>Btree_Correct\<close>, \<open>Omap\<close> (\<open>btree.rs\<close>, \<open>omap.rs\<close>): node parser, lookup and
    scan, the object map and virtual trees. The abstract tree \<open>abs_tree\<close> is what a well-formed image
    holds; lookup and scan refine the list of its entries. The locales \<open>ranked_compare\<close>,
    \<open>ranked_range\<close> and \<open>ranked_search\<close> are the contract between a traversal and the comparison functions of
    its clients; \<open>Omap\<close> and \<open>Catalog\<close> interpret them on the code's closures.
  \<^item> \<open>Catalog_Records\<close>, \<open>Catalog\<close>, \<open>Catalog_Correct\<close> (\<open>catalog.rs\<close>): record formats with their round trips, and the
    operations on inodes, directories, extents and paths, against the catalog as lists of records.
  \<^item> \<open>Extents\<close>, \<open>Volume\<close>, \<open>Volume_Correct\<close> (\<open>extents.rs\<close>, \<open>lib.rs\<close>): copying a file, the seekable fork reader, and
    the \<open>ApfsVolume\<close> operations. The locale \<open>extent_translation\<close> is what reading by extents relies on; it is
    interpreted on the fork reader here and on the driver's own copy in \<open>Driver_Correct\<close>.
  \<^item> \<open>Sample_Image\<close>: a small container in the on-disk format, to which the properties are applied.

  \<^bold>\<open>The program's theories:\<close>
  \<^item> \<open>Host_Base\<close>, \<open>Disk\<close>, \<open>Disk_Correct\<close> (\<open>error.rs\<close>, \<open>utils.rs\<close>, \<open>disk.rs\<close>): operations on a state that survives a
    failing call, times and UTF-16 paths, and the sector-aligned reader over the Windows file calls,
    with what it delivers on a raw device (\<open>raw_device\<close>).
  \<^item> \<open>Driver\<close>, \<open>Driver_Correct\<close>, \<open>Driver_Mount\<close>, \<open>Driver_Types\<close>, \<open>Driver_Threads\<close> (\<open>driver.rs\<close>): the mounted state
    with its mutexes (a lock is a poison flag), the stat cache and every callback. \<open>driver_reachable\<close> are
    the states of a mount, \<open>driver_session\<close> adds the open contexts, and \<open>driver_pool\<close> the callbacks that
    run at the same time, each a sequence of lock sections that any others may run between.
  \<^item> \<open>Devices\<close>, \<open>Watcher\<close>, \<open>Mounts\<close> (\<open>device_monitor.rs\<close>, \<open>device_watcher.rs\<close>, \<open>mount_manager.rs\<close>): the scan and the free
    letters; the boxed sender that the system holds a raw pointer to, with callbacks under way at
    any time, also between the two calls of a drop; the table of mounted volumes,
    whose interface is the locale \<open>mount_table\<close>.
  \<^item> \<open>Daemon\<close>, \<open>Daemon_Correct\<close>, \<open>Daemon_Mounts\<close> (\<open>main.rs\<close>): \<open>scan_and_update\<close>, proved once over \<open>mount_table\<close>, and
    the event loop, one step per turn. \<open>daemon_reachable\<close> are the states at the top of the loop, with
    changes of the world, notifications and signals between turns; \<open>daemon_script\<close> is a whole run.
  \<^item> \<open>Service\<close>, \<open>Service_Correct\<close>, \<open>Program\<close> (\<open>service.rs\<close>, \<open>main.rs\<close>): the service around the daemon, its
    installation and removal, the DLL directory, the manual mount and the dispatch.
  \<^item> \<open>Sample_Mount\<close>, \<open>Sample_Daemon\<close>, \<open>Sample_Program\<close>: the sample container on a simulated disk, mounted through
    the whole stack, plugged in and pulled out under the daemon, and mounted by hand.

  \<^bold>\<open>What is shown.\<close> A file opened through the driver is served byte for byte as the library would read it
  (\<open>driver_serves_file\<close>) where its extents hold all of it, and a read past them fails
  (\<open>uncovered_read_fails\<close>); the cache never lies (\<open>stat_cache_coherent\<close>), also with callbacks interleaved
  (\<open>interleaved_callbacks_right\<close>), and every path it holds is a string (\<open>session_strings_typed\<close>). The daemon's
  two tables agree (\<open>daemon_tracks_mounts\<close>), no host leaks and no letter is shared
  (\<open>daemon_hosts_safe\<close>, \<open>daemon_run_leaves_nothing\<close>), a scan brings the mounts in line with the disks
  (\<open>scan_follows_disks\<close>), and a shutdown signal ends the loop (\<open>daemon_shuts_down\<close>), and with it the service
  (\<open>control_ends_service\<close>); no notification runs on a freed sender (\<open>watcher_memory_safe\<close>). The library's
  traversals compute what their trees mean and terminate on well-formed ones; exactly which malformed
  nodes make it panic or recurse for ever is stated too. Where the code does something else than it
  means to, the theorem states what it does (\<open>exchanged_disk_keeps_old_volume\<close>,
  \<open>control_ends_service\<close>, \<open>volume_search_returns_next_key\<close>, \<open>volume_panic_is_permanent\<close>).

  \<^bold>\<open>Bounds and fuel.\<close> Integers have the code's width; arithmetic wraps, as in a release build. A
  traversal has one unit of fuel per level of the tree, and \<open>read_tree\<close> shows that its height is enough;
  a file copy has one per block of an extent. The daemon's loop has one per turn, and as many turns as
  there are waiting events and one more end it once the signal is there. The wait for WinFsp has one per
  poll; with the clock moving on, 121 polls of half a second are enough for its 60 seconds. The
  simulated runs of the examples use fuel 2, the height of the sample's trees.

  \<^bold>\<open>Parameters.\<close> Code that is not in the repository is an argument: the Windows calls (\<open>win32\<close>, \<open>windows\<close>,
  \<open>config_manager\<close>, \<open>process\<close>), the WinFsp host and directory buffer (\<open>host_system\<close>, \<open>dir_buffer\<close>), the \<open>lru\<close> cache
  (\<open>lru_cache\<close>), the order of hash tables, the \<open>windows-service\<close> crate and the clock (\<open>service_system\<close>,
  \<open>service_manager\<close>). What is relied on of them is a named predicate over the parameter (\<open>raw_device\<close>,
  \<open>opens_device\<close>, \<open>lru_laws\<close>, \<open>hash_laws\<close>, \<open>cm_laws\<close>, \<open>winfsp_laws\<close>, \<open>clock_laws\<close>, \<open>windows_return\<close>), and the
  examples have an instance of each.

  \<^bold>\<open>Not modelled.\<close> Closing handles (the \<open>Drop\<close> of \<open>DiskReader\<close> and of \<open>OwnedHandle\<close>, whose result the code
  ignores): no state of the program depends on it. Logging and printing. The parsing of the command
  line by \<open>clap\<close>: the dispatch takes its result. The generated \<open>ffi_service_main\<close>. Threads below the level
  of lock sections: the memory model and the fairness of mutexes. Allocation failure and the depth of the
  stack: recursion that the code does not bound is a lack of fuel. Transient i/o errors of the medium
  under the library: it is given the disk's reads as they are when the volume is opened
  (\<open>disk_as_reader\<close>), which on a raw device is what any later access returns (\<open>accesses_as_reader\<close>).
  The benchmarks of the library, which only call its parsers, and \<open>build.rs\<close>, which emits one linker option.
\<close>

end
